(* ===== verification/Ssh_Prelude.thy ===== *)
theory Ssh_Prelude
  imports Main "HOL-Library.Word"
begin

unbundle bit_operations_syntax

text \<open>
  Shared vocabulary of the ShieSH development: the integer types of \<open>defines.h\<close>, the
  exceptions a server thread can end with, the result type of fallible operations with its
  sequencing combinator, bounds-checked access to a block of C memory, C strings, and the
  generic facts on words and lists that the component theories share.
\<close>

section \<open>Machine integers\<close>

type_synonym byte = "8 word"
type_synonym u16 = "16 word"
type_synonym u32 = "32 word"
type_synonym u64 = "64 word"

named_theorems res_simps \<open>inversion of results of fallible operations\<close>
named_theorems frame_intros \<open>what a statement leaves unchanged when it returns\<close>
named_theorems wp_simps \<open>weakest preconditions of the statements of a procedure\<close>

section \<open>Exceptions and results\<close>

text \<open>
  \<open>fatal\<close> logs and calls \<open>cleanup_exit (255)\<close>, which throws (\<open>log.cpp\<close>, \<open>cleanup.cpp\<close>): the
  thread of the connection unwinds. \<open>Fatal\<close> carries the literal prefix of the logged message.
  \<open>Mem_fault\<close> is an access outside of an allocated block, \<open>Diverge\<close> a loop of the source that
  never ends: both are what the safety lemmas exclude. \<open>Disconnect\<close> is \<open>cleanup_exit\<close> at the end of
  \<open>packet_disconnect\<close>, \<open>Cleanup_exit\<close> the other direct calls, both with the logged
  message. \<open>Blocked\<close> is a wait for the network that never ends.
\<close>

datatype exn =
    Fatal string
  | Mem_fault
  | Diverge
  | Disconnect string
  | Shutting_down
  | Assertion_failed
  | Invalid_path
  | No_such_handle int
  | Out_of_range
  | S_exception string
  | Cleanup_exit string
  | Div_by_zero
  | Blocked

type_synonym 'a res = "exn + 'a"

definition bindR :: "'a res \<Rightarrow> ('a \<Rightarrow> 'b res) \<Rightarrow> 'b res" where
  "bindR m f = (case m of Inl e \<Rightarrow> Inl e | Inr x \<Rightarrow> f x)"

lemma bindR_simps [simp]:
  "bindR (Inr x) f = f x"
  "bindR (Inl e) f = Inl e"
  by (simp_all add: bindR_def)

lemma bindR_eq_Inr [res_simps]: "bindR m f = Inr y \<longleftrightarrow> (\<exists>x. m = Inr x \<and> f x = Inr y)"
  by (cases m) simp_all

lemma bindR_eq_Inl [res_simps]:
  "bindR m f = Inl e \<longleftrightarrow> m = Inl e \<or> (\<exists>x. m = Inr x \<and> f x = Inl e)"
  by (cases m) auto

lemma bindR_cong [fundef_cong]:
  assumes "m = m'" and "\<And>x. m' = Inr x \<Longrightarrow> f x = f' x"
  shows "bindR m f = bindR m' f'"
  using assms by (cases m') simp_all

lemma bindR_assoc: "bindR (bindR m f) g = bindR m (\<lambda>x. bindR (f x) g)"
  by (cases m) simp_all

text \<open>Checks that end the connection, and the integer division of C.\<close>

definition guardR :: "bool \<Rightarrow> string \<Rightarrow> unit res" where
  "guardR ok msg = (if ok then Inr () else Inl (Fatal msg))"

definition someR :: "'a option \<Rightarrow> string \<Rightarrow> 'a res" where
  "someR r msg = (case r of None \<Rightarrow> Inl (Fatal msg) | Some x \<Rightarrow> Inr x)"

definition modR :: "u32 \<Rightarrow> u32 \<Rightarrow> u32 res" where
  "modR a b = (if b = 0 then Inl Div_by_zero else Inr (a mod b))"

lemma guardR_eq [res_simps]: "guardR ok msg = Inr u \<longleftrightarrow> ok"
  by (simp add: guardR_def)

lemma someR_eq [res_simps]: "someR r msg = Inr x \<longleftrightarrow> r = Some x"
  by (simp add: someR_def split: option.split)

lemma modR_eq [res_simps]: "modR a b = Inr c \<longleftrightarrow> b \<noteq> 0 \<and> c = a mod b"
  by (auto simp: modR_def)

section \<open>Blocks of memory\<close>

text \<open>
  A block obtained from \<open>xmalloc\<close> is the list of its bytes. Reading and writing a range is
  checked against the length of the block: a range that leaves it is a \<open>Mem_fault\<close>.
\<close>

definition mem_read :: "byte list \<Rightarrow> nat \<Rightarrow> nat \<Rightarrow> byte list res" where
  "mem_read m p n = (if p + n \<le> length m then Inr (take n (drop p m)) else Inl Mem_fault)"

definition mem_write :: "byte list \<Rightarrow> nat \<Rightarrow> byte list \<Rightarrow> byte list res" where
  "mem_write m p d =
     (if p + length d \<le> length m then Inr (take p m @ d @ drop (p + length d) m) else Inl Mem_fault)"

lemma mem_read_eq_Inr [res_simps]:
  "mem_read m p n = Inr d \<longleftrightarrow> p + n \<le> length m \<and> d = take n (drop p m)"
  by (auto simp: mem_read_def)

lemma mem_write_eq_Inr [res_simps]:
  "mem_write m p d = Inr m' \<longleftrightarrow>
     p + length d \<le> length m \<and> m' = take p m @ d @ drop (p + length d) m"
  by (auto simp: mem_write_def)

section \<open>Facts on words and lists\<close>

lemma take_drop_append_mid:
  assumes "o1 \<le> p" and "p \<le> length m"
  shows "take (p + length d - o1) (drop o1 (take p m @ d @ r)) = take (p - o1) (drop o1 m) @ d"
proof -
  have "p + length d - o1 = (p - o1) + length d" using assms by simp
  then show ?thesis using assms by (simp add: drop_take)
qed

lemma unat_of_nat_u32 [simp]: "n < 4294967296 \<Longrightarrow> unat (of_nat n :: u32) = n"
  by (simp add: unat_of_nat take_bit_nat_eq_self)

lemma unat_plus_u32: "unat (a :: u32) + unat b < 4294967296 \<Longrightarrow> unat (a + b) = unat a + unat b"
  by (simp add: unat_word_ariths)

lemma unat_minus_u32: "b \<le> (a :: u32) \<Longrightarrow> unat (a - b) = unat a - unat b"
  by (simp add: unat_sub)

section \<open>C strings\<close>

text \<open>A C string is the list of its characters before the null byte.\<close>

definition byte_of_char :: "char \<Rightarrow> byte" where
  "byte_of_char c = of_nat (of_char c)"

definition char_of_byte :: "byte \<Rightarrow> char" where
  "char_of_byte b = char_of (unat b)"

definition bytes_of_string :: "string \<Rightarrow> byte list" where
  "bytes_of_string s = map byte_of_char s"

definition c_string :: "byte list \<Rightarrow> string" where
  "c_string d = map char_of_byte (takeWhile (\<lambda>b. b \<noteq> 0) d)"

definition no_null :: "string \<Rightarrow> bool" where
  "no_null s \<longleftrightarrow> (\<forall>c \<in> set s. c \<noteq> CHR 0x00)"

lemma char_of_byte_of_char [simp]: "char_of_byte (byte_of_char c) = c"
proof -
  have "(of_char c :: nat) < 256" by simp
  then have "unat (of_nat (of_char c) :: byte) = of_char c" by (simp add: unat_of_nat take_bit_nat_eq_self)
  then show ?thesis by (simp add: char_of_byte_def byte_of_char_def)
qed

lemma byte_of_char_0: "byte_of_char c = 0 \<longleftrightarrow> c = CHR 0x00"
proof
  assume "byte_of_char c = 0"
  then have "c = char_of_byte 0" by (metis char_of_byte_of_char)
  then show "c = CHR 0x00" by (simp add: char_of_byte_def char_of_def)
qed (simp add: byte_of_char_def)

lemma length_bytes_of_string [simp]: "length (bytes_of_string s) = length s"
  by (simp add: bytes_of_string_def)

lemma c_string_bytes_of_string: "no_null s \<Longrightarrow> c_string (bytes_of_string s) = s"
proof -
  assume n: "no_null s"
  then have "takeWhile (\<lambda>b. b \<noteq> 0) (bytes_of_string s) = bytes_of_string s"
    by (auto simp: bytes_of_string_def byte_of_char_0 no_null_def takeWhile_eq_all_conv)
  then have "c_string (bytes_of_string s) = map char_of_byte (bytes_of_string s)" by (simp only: c_string_def)
  then show ?thesis by (simp add: bytes_of_string_def comp_def)
qed

section \<open>Formatted numbers\<close>

text \<open>The conversions \<open>%u\<close> and \<open>%-10u\<close> of \<open>vsnprintf\<close>.\<close>

fun fmt_u :: "nat \<Rightarrow> string" where
  "fmt_u n = (if n < 10 then [char_of (48 + n)] else fmt_u (n div 10) @ [char_of (48 + n mod 10)])"

declare fmt_u.simps [simp del]

definition pad_right :: "nat \<Rightarrow> string \<Rightarrow> string" where
  "pad_right w s = s @ replicate (w - length s) CHR '' ''"

lemma fmt_u_length: "0 < k \<Longrightarrow> n < 10 ^ k \<Longrightarrow> length (fmt_u n) \<le> k"
proof (induction k arbitrary: n)
  case (Suc k)
  show ?case
  proof (cases "n < 10")
    case False
    then have "0 < k" using Suc.prems by (cases k) auto
    moreover have "n div 10 < 10 ^ k" using Suc.prems by (simp add: less_mult_imp_div_less mult.commute)
    ultimately show ?thesis using Suc.IH [of "n div 10"] by (simp add: fmt_u.simps [of n])
  qed (simp add: fmt_u.simps)
qed simp

lemma no_null_fmt_u: "no_null (fmt_u n)"
proof (induction n rule: fmt_u.induct)
  case (1 n)
  have "char_of (48 + k) \<noteq> CHR 0x00" if "k < 10" for k :: nat
  proof
    assume "char_of (48 + k) = CHR 0x00"
    then have "of_char (char_of (48 + k) :: char) = (0 :: nat)" by simp
    then show False using that by simp
  qed
  then show ?case using 1 by (auto simp: fmt_u.simps [of n] no_null_def)
qed

section \<open>Procedures with a state and exceptions\<close>

text \<open>
  A member function that may throw maps the state of its object to a result and the state it leaves behind,
  also when it throws: what was written before the exception is seen by the handlers further up.
\<close>

type_synonym ('s, 'a) proc = "'s \<Rightarrow> 'a res \<times> 's"

definition retP :: "'a \<Rightarrow> ('s, 'a) proc" where
  "retP x s = (Inr x, s)"

definition raiseP :: "exn \<Rightarrow> ('s, 'a) proc" where
  "raiseP e s = (Inl e, s)"

definition bindP :: "('s, 'a) proc \<Rightarrow> ('a \<Rightarrow> ('s, 'b) proc) \<Rightarrow> ('s, 'b) proc" where
  "bindP m f s = (case m s of (Inl e, s') \<Rightarrow> (Inl e, s') | (Inr x, s') \<Rightarrow> f x s')"

definition getP :: "('s \<Rightarrow> 'a) \<Rightarrow> ('s, 'a) proc" where
  "getP f s = (Inr (f s), s)"

definition modP :: "('s \<Rightarrow> 's) \<Rightarrow> ('s, unit) proc" where
  "modP f s = (Inr (), f s)"

text \<open>A pure computation that may fail, and one that reads and replaces a part of the state.\<close>

definition liftR :: "'a res \<Rightarrow> ('s, 'a) proc" where
  "liftR r s = (r, s)"

definition updR :: "('s \<Rightarrow> 'p) \<Rightarrow> ('p \<Rightarrow> 's \<Rightarrow> 's) \<Rightarrow> ('p \<Rightarrow> ('a \<times> 'p) res) \<Rightarrow> ('s, 'a) proc" where
  "updR sel upd f s = (case f (sel s) of Inl e \<Rightarrow> (Inl e, s) | Inr (x, p) \<Rightarrow> (Inr x, upd p s))"

definition setR :: "('s \<Rightarrow> 'p) \<Rightarrow> ('p \<Rightarrow> 's \<Rightarrow> 's) \<Rightarrow> ('p \<Rightarrow> 'p res) \<Rightarrow> ('s, unit) proc" where
  "setR sel upd f s = (case f (sel s) of Inl e \<Rightarrow> (Inl e, s) | Inr p \<Rightarrow> (Inr (), upd p s))"

definition whenP :: "bool \<Rightarrow> ('s, unit) proc \<Rightarrow> ('s, unit) proc" where
  "whenP c m = (if c then m else retP ())"

definition catchP :: "('s, 'a) proc \<Rightarrow> (exn \<Rightarrow> ('s, 'a) proc) \<Rightarrow> ('s, 'a) proc" where
  "catchP m h s = (case m s of (Inl e, s') \<Rightarrow> h e s' | (Inr x, s') \<Rightarrow> (Inr x, s'))"

text \<open>\<open>wp m Q E s\<close>: run from \<open>s\<close>, \<open>m\<close> ends normally in \<open>Q\<close> or throws in \<open>E\<close>.\<close>

definition wp :: "('s, 'a) proc \<Rightarrow> ('a \<Rightarrow> 's \<Rightarrow> bool) \<Rightarrow> (exn \<Rightarrow> 's \<Rightarrow> bool) \<Rightarrow> 's \<Rightarrow> bool" where
  "wp m Q E s = (case m s of (Inl e, s') \<Rightarrow> E e s' | (Inr x, s') \<Rightarrow> Q x s')"

lemma wp_ret [wp_simps]: "wp (retP x) Q E s = Q x s"
  and wp_raise [wp_simps]: "wp (raiseP e) Q E s = E e s"
  and wp_get [wp_simps]: "wp (getP f) Q E s = Q (f s) s"
  and wp_mod [wp_simps]: "wp (modP g) Q E s = Q () (g s)"
  and wp_lift [wp_simps]: "wp (liftR r) Q E s = (case r of Inl e \<Rightarrow> E e s | Inr x \<Rightarrow> Q x s)"
  and wp_upd [wp_simps]: "wp (updR sel upd h) Q E s =
    (case h (sel s) of Inl e \<Rightarrow> E e s | Inr (x, p) \<Rightarrow> Q x (upd p s))"
  and wp_set [wp_simps]: "wp (setR sel upd' k) R E s =
    (case k (sel s) of Inl e \<Rightarrow> E e s | Inr p \<Rightarrow> R () (upd' p s))"
  by (auto simp: wp_def retP_def raiseP_def getP_def modP_def liftR_def updR_def setR_def split: sum.split)

lemma wp_bind [wp_simps]: "wp (bindP m f) Q E s = wp m (\<lambda>x. wp (f x) Q E) E s"
  by (simp add: wp_def bindP_def split: prod.split sum.split)

lemma wp_catch [wp_simps]: "wp (catchP m h) Q E s = wp m Q (\<lambda>e. wp (h e) Q E) s"
  by (simp add: wp_def catchP_def split: prod.split sum.split)

lemma wp_if [wp_simps]: "wp (if c then m else n) Q E s = (if c then wp m Q E s else wp n Q E s)"
  by simp

lemma wp_when [wp_simps]: "wp (whenP c m) Q E s = (if c then wp m Q E s else Q () s)"
  by (simp add: whenP_def wp_ret)

lemma wp_mono:
  assumes "wp m Q E s" "\<And>x t. Q x t \<Longrightarrow> Q' x t" "\<And>e t. E e t \<Longrightarrow> E' e t"
  shows "wp m Q' E' s"
  using assms by (auto simp: wp_def split: prod.splits sum.splits)

lemma wp_conj: "wp m Q E s \<Longrightarrow> wp m Q' E' s \<Longrightarrow> wp m (\<lambda>x t. Q x t \<and> Q' x t) (\<lambda>e t. E e t \<and> E' e t) s"
  by (auto simp: wp_def split: prod.splits sum.splits)

lemma wp_run: "m s = (Inr x, t) \<Longrightarrow> wp m Q E s = Q x t"
  by (simp add: wp_def)

lemma wp_returns: "wp m Q (\<lambda>_ _. False) s \<longleftrightarrow> (\<exists>x t. m s = (Inr x, t) \<and> Q x t)"
  by (auto simp: wp_def split: prod.splits sum.splits)

lemmas run_simps = retP_def raiseP_def getP_def modP_def liftR_def updR_def setR_def whenP_def bindP_def

lemma bindP_run: "m s = (Inr x, t) \<Longrightarrow> bindP m f s = f x t"
  by (simp add: bindP_def)

text \<open>\<open>moves f g m\<close>: when \<open>m\<close> returns, the view \<open>f\<close> of the state has changed by \<open>g\<close>; \<open>keeps\<close> when it has not
  changed. A statement that only throws does both.\<close>

definition moves :: "('s \<Rightarrow> 'x) \<Rightarrow> ('x \<Rightarrow> 'x) \<Rightarrow> ('s, 'a) proc \<Rightarrow> bool" where
  "moves f g m \<longleftrightarrow> (\<forall>s x t. m s = (Inr x, t) \<longrightarrow> f t = g (f s))"

abbreviation keeps :: "('s \<Rightarrow> 'x) \<Rightarrow> ('s, 'a) proc \<Rightarrow> bool" where
  "keeps f \<equiv> moves f (\<lambda>x. x)"

definition throws :: "('s, 'a) proc \<Rightarrow> bool" where
  "throws m \<longleftrightarrow> (\<forall>s. \<exists>e t. m s = (Inl e, t))"

lemma bindP_Inr: "bindP m k s = (Inr y, t) \<longleftrightarrow> (\<exists>x u. m s = (Inr x, u) \<and> k x u = (Inr y, t))"
  by (auto simp: bindP_def split: prod.splits sum.splits)

lemma throws_raise: "throws (raiseP e)"
  by (simp add: throws_def raiseP_def)

lemma throws_bind: "(\<And>x. throws (k x)) \<Longrightarrow> throws (bindP m k)"
  by (fastforce simp: throws_def bindP_def split: prod.splits sum.splits)

lemma throws_moves:
  assumes "throws m"
  shows "moves f g m"
  unfolding moves_def
proof (intro allI impI)
  fix s x t assume "m s = (Inr x, t)"
  moreover obtain e t' where "m s = (Inl e, t')" using assms unfolding throws_def by (elim allE exE)
  ultimately show "f t = g (f s)" by simp
qed

lemma keeps_basic [frame_intros]:
  "keeps f (retP x)" "keeps f (getP h)" "keeps f (liftR r)" "keeps f (raiseP e)"
  by (auto simp: moves_def retP_def getP_def liftR_def raiseP_def)

lemma keeps_mod [frame_intros]: "(\<And>s. f (h s) = f s) \<Longrightarrow> keeps f (modP h)"
  by (auto simp: moves_def modP_def)

lemma keeps_upd [frame_intros]:
  "(\<And>p s. f (upd p s) = f s) \<Longrightarrow> keeps f (updR sel upd h)"
  "(\<And>p s. f (upd p s) = f s) \<Longrightarrow> keeps f (setR sel upd k)"
  by (auto simp: moves_def updR_def setR_def split: sum.splits)

lemma keeps_bind [frame_intros]: "keeps f m \<Longrightarrow> (\<And>x. keeps f (k x)) \<Longrightarrow> keeps f (bindP m k)"
  by (auto simp: moves_def bindP_Inr)

lemma keeps_if [frame_intros]: "(c \<Longrightarrow> keeps f m) \<Longrightarrow> (\<not> c \<Longrightarrow> keeps f n) \<Longrightarrow> keeps f (if c then m else n)"
  by simp

lemma keeps_when [frame_intros]: "(c \<Longrightarrow> keeps f m) \<Longrightarrow> keeps f (whenP c m)"
  by (simp add: whenP_def keeps_basic)

lemma keeps_option [frame_intros]: "keeps f m \<Longrightarrow> (\<And>x. keeps f (n x)) \<Longrightarrow> keeps f (case r of None \<Rightarrow> m | Some x \<Rightarrow> n x)"
  by (cases r) simp_all

lemma keeps_prod [frame_intros]: "(\<And>x y. keeps f (n x y)) \<Longrightarrow> keeps f (case r of (x, y) \<Rightarrow> n x y)"
  by (cases r) simp

lemma keeps_sum [frame_intros]:
  "(\<And>e. keeps f (m e)) \<Longrightarrow> (\<And>x. keeps f (n x)) \<Longrightarrow> keeps f (case r of Inl e \<Rightarrow> m e | Inr x \<Rightarrow> n x)"
  by (cases r) simp_all

lemma moves_after: "keeps f m \<Longrightarrow> (\<And>x. moves f g (k x)) \<Longrightarrow> moves f g (bindP m k)"
  by (auto simp: moves_def bindP_Inr)

lemma moves_then: "moves f g m \<Longrightarrow> (\<And>x. keeps f (k x)) \<Longrightarrow> moves f g (bindP m k)"
  by (fastforce simp: moves_def bindP_Inr)

lemma movesD: "moves f g m \<Longrightarrow> m s = (Inr x, t) \<Longrightarrow> f t = g (f s)"
  by (simp add: moves_def)

text \<open>\<open>ensures I P m\<close>: from a state in \<open>I\<close>, \<open>m\<close> leaves a state in \<open>I\<close>, also when it throws, and what it returns is
  in \<open>P\<close>.\<close>

definition ensures :: "('s \<Rightarrow> bool) \<Rightarrow> ('a \<Rightarrow> bool) \<Rightarrow> ('s, 'a) proc \<Rightarrow> bool" where
  "ensures I P m \<longleftrightarrow> (\<forall>s. I s \<longrightarrow> I (snd (m s)) \<and> (\<forall>x. fst (m s) = Inr x \<longrightarrow> P x))"

abbreviation preserves :: "('s \<Rightarrow> bool) \<Rightarrow> ('s, 'a) proc \<Rightarrow> bool" where
  "preserves I \<equiv> ensures I (\<lambda>_. True)"

lemma ensuresI: "(\<And>s r t. I s \<Longrightarrow> m s = (r, t) \<Longrightarrow> I t \<and> (\<forall>x. r = Inr x \<longrightarrow> P x)) \<Longrightarrow> ensures I P m"
  unfolding ensures_def by (metis prod.collapse)

lemma ensuresD: "ensures I P m \<Longrightarrow> I s \<Longrightarrow> m s = (r, t) \<Longrightarrow> I t \<and> (\<forall>x. r = Inr x \<longrightarrow> P x)"
  unfolding ensures_def by (metis fst_conv snd_conv)

lemma ensures_bind:
  assumes "ensures I P m" "\<And>x. P x \<Longrightarrow> ensures I Q (k x)"
  shows "ensures I Q (bindP m k)"
proof (rule ensuresI)
  fix s r t
  assume s: "I s" and r: "bindP m k s = (r, t)"
  obtain r' u where m: "m s = (r', u)" by fastforce
  have u: "I u" "\<And>x. r' = Inr x \<Longrightarrow> P x" using ensuresD [OF assms(1) s m] by auto
  show "I t \<and> (\<forall>x. r = Inr x \<longrightarrow> Q x)"
  proof (cases r')
    case (Inl e)
    then show ?thesis using r m u by (auto simp: bindP_def)
  next
    case (Inr x)
    then have "k x u = (r, t)" using r m by (simp add: bindP_def)
    then show ?thesis using ensuresD [OF assms(2) u(1)] u(2) Inr by blast
  qed
qed

lemma ensures_lift_bind:
  assumes "\<And>x. r = Inr x \<Longrightarrow> ensures I Q (k x)"
  shows "ensures I Q (bindP (liftR r) k)"
  using assms by (cases r) (auto simp: ensures_def bindP_def liftR_def)

lemma ensures_basic:
  "P x \<Longrightarrow> ensures I P (retP x)" "ensures I P (raiseP e)" "(\<And>s. I s \<Longrightarrow> P (f s)) \<Longrightarrow> ensures I P (getP f)"
  "(\<And>x. r = Inr x \<Longrightarrow> P x) \<Longrightarrow> ensures I P (liftR r)"
  by (auto simp: ensures_def retP_def raiseP_def getP_def liftR_def)

lemma ensures_mod: "(\<And>s. I s \<Longrightarrow> I (h s)) \<Longrightarrow> preserves I (modP h)"
  by (simp add: ensures_def modP_def)

lemma ensures_upd:
  "(\<And>s x p. I s \<Longrightarrow> f (sel s) = Inr (x, p) \<Longrightarrow> I (upd p s) \<and> P x) \<Longrightarrow> ensures I P (updR sel upd f)"
  by (auto simp: ensures_def updR_def split: sum.splits)

lemma ensures_set:
  "(\<And>s p. I s \<Longrightarrow> f (sel s) = Inr p \<Longrightarrow> I (upd p s)) \<Longrightarrow> preserves I (setR sel upd f)"
  by (auto simp: ensures_def setR_def split: sum.splits)

lemma ensures_catch: "ensures I P m \<Longrightarrow> (\<And>e. ensures I P (h e)) \<Longrightarrow> ensures I P (catchP m h)"
  by (auto simp: ensures_def catchP_def split: prod.splits sum.splits)

lemma ensures_cases:
  "(c \<Longrightarrow> ensures I P m) \<Longrightarrow> (\<not> c \<Longrightarrow> ensures I P n) \<Longrightarrow> ensures I P (if c then m else n)"
  "(c \<Longrightarrow> preserves I q) \<Longrightarrow> preserves I (whenP c q)"
  "ensures I P m \<Longrightarrow> (\<And>x. o1 = Some x \<Longrightarrow> ensures I P (k x)) \<Longrightarrow> ensures I P (case o1 of None \<Rightarrow> m | Some x \<Rightarrow> k x)"
  "(\<And>e. ensures I P (g e)) \<Longrightarrow> (\<And>x. ensures I P (h x)) \<Longrightarrow> ensures I P (case u of Inl e \<Rightarrow> g e | Inr x \<Rightarrow> h x)"
  "(\<And>x y. ensures I P (l x y)) \<Longrightarrow> ensures I P (case z of (x, y) \<Rightarrow> l x y)"
  by (auto simp: whenP_def ensures_basic split: option.split sum.split prod.split)

lemma ensures_weaken: "ensures I P m \<Longrightarrow> (\<And>x. P x \<Longrightarrow> Q x) \<Longrightarrow> ensures I Q m"
  by (simp add: ensures_def)

text \<open>\<open>hoare P m Q\<close>: if \<open>m\<close> returns \<open>x\<close> from a state in \<open>P\<close>, then it leaves a state in \<open>Q x\<close>.\<close>

definition hoare :: "('s \<Rightarrow> bool) \<Rightarrow> ('s, 'a) proc \<Rightarrow> ('a \<Rightarrow> 's \<Rightarrow> bool) \<Rightarrow> bool" where
  "hoare P m Q \<longleftrightarrow> (\<forall>s x t. P s \<longrightarrow> m s = (Inr x, t) \<longrightarrow> Q x t)"

named_theorems hoare_intros \<open>triples of the statements of a procedure\<close>

lemma hoareI: "(\<And>s x t. P s \<Longrightarrow> m s = (Inr x, t) \<Longrightarrow> Q x t) \<Longrightarrow> hoare P m Q"
  by (simp add: hoare_def)

lemma hoareD: "hoare P m Q \<Longrightarrow> P s \<Longrightarrow> m s = (Inr x, t) \<Longrightarrow> Q x t"
  by (simp add: hoare_def)

lemma hoare_bind [hoare_intros]: "hoare P m Q \<Longrightarrow> (\<And>x. hoare (Q x) (k x) R) \<Longrightarrow> hoare P (bindP m k) R"
  unfolding hoare_def bindP_Inr by metis

lemma hoare_if [hoare_intros]:
  "(c \<Longrightarrow> hoare P m Q) \<Longrightarrow> (\<not> c \<Longrightarrow> hoare P n Q) \<Longrightarrow> hoare P (if c then m else n) Q"
  by simp

lemma hoare_prod [hoare_intros]: "(\<And>x y. hoare P (n x y) Q) \<Longrightarrow> hoare P (case r of (x, y) \<Rightarrow> n x y) Q"
  by (cases r) simp

lemma hoare_option [hoare_intros]:
  "(r = None \<Longrightarrow> hoare P m Q) \<Longrightarrow> (\<And>x. r = Some x \<Longrightarrow> hoare P (n x) Q) \<Longrightarrow> hoare P (case r of None \<Rightarrow> m | Some x \<Rightarrow> n x) Q"
  by (cases r) simp_all

lemma hoare_raise [hoare_intros]: "hoare P (raiseP e) Q"
  by (simp add: hoare_def raiseP_def)

lemma hoare_ret: "(\<And>s. P s \<Longrightarrow> Q x s) \<Longrightarrow> hoare P (retP x) Q"
  by (simp add: hoare_def retP_def)

lemma hoare_get: "(\<And>s. P s \<Longrightarrow> Q (f s) s) \<Longrightarrow> hoare P (getP f) Q"
  by (simp add: hoare_def getP_def)

lemma hoare_mod: "(\<And>s. P s \<Longrightarrow> Q () (h s)) \<Longrightarrow> hoare P (modP h) Q"
  by (simp add: hoare_def modP_def)

lemma hoare_lift: "(\<And>s x. P s \<Longrightarrow> r = Inr x \<Longrightarrow> Q x s) \<Longrightarrow> hoare P (liftR r) Q"
  by (simp add: hoare_def liftR_def)

lemma hoare_when: "(c \<Longrightarrow> hoare P m Q) \<Longrightarrow> (\<And>s. \<not> c \<Longrightarrow> P s \<Longrightarrow> Q () s) \<Longrightarrow> hoare P (whenP c m) Q"
  by (simp add: whenP_def hoare_ret)

lemma hoare_throws: "throws m \<Longrightarrow> hoare P m Q"
  unfolding hoare_def throws_def by (metis prod.inject sum.distinct(1))

lemma hoare_weaken: "hoare P m Q \<Longrightarrow> (\<And>s. P' s \<Longrightarrow> P s) \<Longrightarrow> (\<And>x s. Q x s \<Longrightarrow> Q' x s) \<Longrightarrow> hoare P' m Q'"
  unfolding hoare_def by metis

lemma hoare_conj: "hoare P m Q \<Longrightarrow> hoare P' m Q' \<Longrightarrow> hoare (\<lambda>s. P s \<and> P' s) m (\<lambda>x s. Q x s \<and> Q' x s)"
  unfolding hoare_def by blast

lemma hoare_moves: "moves f g m \<Longrightarrow> hoare (\<lambda>s. P (g (f s))) m (\<lambda>_ s. P (f s))"
  by (simp add: hoare_def moves_def)

lemma hoare_keeps: "keeps f m \<Longrightarrow> (\<And>s t. f t = f s \<Longrightarrow> P s \<Longrightarrow> Q t) \<Longrightarrow> hoare P m (\<lambda>_. Q)"
  unfolding hoare_def moves_def by blast

text \<open>A property of the state that holds again whenever \<open>m\<close> returns.\<close>

abbreviation stays :: "('s \<Rightarrow> bool) \<Rightarrow> ('s, 'a) proc \<Rightarrow> bool" where
  "stays P m \<equiv> hoare P m (\<lambda>_. P)"

named_theorems stays_intros \<open>statements after which a property holds again\<close>

lemma stays_basic [stays_intros]: "stays P (retP x)" "stays P (getP f)" "stays P (liftR r)" "stays P (raiseP e)"
  by (auto simp: hoare_def retP_def getP_def liftR_def raiseP_def)

lemma stays_mod [stays_intros]: "(\<And>s. P s \<Longrightarrow> P (h s)) \<Longrightarrow> stays P (modP h)"
  by (simp add: hoare_mod)

lemma stays_bind [stays_intros]: "stays P m \<Longrightarrow> (\<And>x. stays P (k x)) \<Longrightarrow> stays P (bindP m k)"
  by (rule hoare_bind)

lemma stays_cases [stays_intros]:
  "(c \<Longrightarrow> stays P m) \<Longrightarrow> (\<not> c \<Longrightarrow> stays P n) \<Longrightarrow> stays P (if c then m else n)"
  "(c \<Longrightarrow> stays P q) \<Longrightarrow> stays P (whenP c q)"
  "stays P m \<Longrightarrow> (\<And>x. r = Some x \<Longrightarrow> stays P (k x)) \<Longrightarrow> stays P (case r of None \<Rightarrow> m | Some x \<Rightarrow> k x)"
  "(\<And>x y. stays P (l x y)) \<Longrightarrow> stays P (case z of (x, y) \<Rightarrow> l x y)"
  by (auto simp: whenP_def hoare_ret split: option.split prod.split)

lemma stays_keeps: "keeps f m \<Longrightarrow> (\<And>s t. f t = f s \<Longrightarrow> P s \<Longrightarrow> P t) \<Longrightarrow> stays P m"
  by (rule hoare_keeps)

lemma stays_lift_bind: "(\<And>x. r = Inr x \<Longrightarrow> stays P (k x)) \<Longrightarrow> stays P (bindP (liftR r) k)"
  by (cases r) (auto simp: hoare_def bindP_def liftR_def)

lemma stays_get_bind: "(\<And>s. P s \<Longrightarrow> hoare (\<lambda>t. t = s) (k (f s)) (\<lambda>_. P)) \<Longrightarrow> stays P (bindP (getP f) k)"
  by (auto simp: hoare_def bindP_def getP_def)

end
