(* ===== verification/Buf.thy ===== *)
theory Buf
  imports Ssh_Prelude
begin

text \<open>
  \<open>xmalloc.cpp\<close> and \<open>buffer.cpp\<close>: the growing byte queue every protocol layer is built on.
  A \<open>Buffer\<close> is the block of memory with its size and the two cursors, all kept at the width of
  \<open>u_int\<close>. \<open>bytes\<close> abstracts it to the list of queued bytes; the lemmas show that under
  \<open>buffer_inv\<close> no operation leaves the block, the retry loop of \<open>buffer_append_space\<close> ends within
  three rounds, and the operations are those of a FIFO queue of bytes with a size limit.
  The contents of fresh memory is 0 here; no lemma looks at bytes that were not written.
\<close>

section \<open>Allocation (xmalloc.cpp)\<close>

definition xmalloc :: "nat \<Rightarrow> byte list res" where
  "xmalloc n = (if n = 0 then Inl (Fatal ''xmalloc: zero size'') else Inr (replicate n 0))"

definition xrealloc :: "byte list \<Rightarrow> nat \<Rightarrow> byte list res" where
  "xrealloc ptr new_size =
     (if new_size = 0 then Inl (Fatal ''xrealloc: zero size'')
      else Inr (take new_size ptr @ replicate (new_size - length ptr) 0))"

section \<open>The buffer (buffer.cpp)\<close>

record Buffer =
  b_buf :: "byte list"
  b_alloc :: u32
  b_offset :: u32
  b_end :: u32

definition BUFFER_MAX_CHUNK :: u32 where "BUFFER_MAX_CHUNK = 0x100000"
definition BUFFER_MAX_LEN :: u32 where "BUFFER_MAX_LEN = 0xa00000"
definition BUFFER_ALLOCSZ :: u32 where "BUFFER_ALLOCSZ = 0x8000"

definition roundup :: "u32 \<Rightarrow> u32 \<Rightarrow> u32" where
  "roundup x y = ((x + (y - 1)) div y) * y"

definition buffer_init :: Buffer where
  "buffer_init = \<lparr>b_buf = replicate 4096 0, b_alloc = 4096, b_offset = 0, b_end = 0\<rparr>"

definition buffer_free :: "Buffer \<Rightarrow> Buffer" where
  "buffer_free b = (if b_alloc b > 0 then b\<lparr>b_alloc := 0, b_buf := []\<rparr> else b)"

definition buffer_clear :: "Buffer \<Rightarrow> Buffer" where
  "buffer_clear b = b\<lparr>b_offset := 0, b_end := 0\<rparr>"

definition buffer_compact :: "Buffer \<Rightarrow> (bool \<times> Buffer) res" where
  "buffer_compact b =
     (if b_offset b > min (b_alloc b) BUFFER_MAX_CHUNK then
        bindR (mem_read (b_buf b) (unat (b_offset b)) (unat (b_end b - b_offset b))) (\<lambda>d.
        bindR (mem_write (b_buf b) 0 d) (\<lambda>m.
        Inr (True, b\<lparr>b_buf := m, b_end := b_end b - b_offset b, b_offset := 0\<rparr>)))
      else Inr (False, b))"

definition reset_empty :: "Buffer \<Rightarrow> Buffer" where
  "reset_empty b = (if b_offset b = b_end b then b\<lparr>b_offset := 0, b_end := 0\<rparr> else b)"

fun append_space_restart :: "nat \<Rightarrow> Buffer \<Rightarrow> u32 \<Rightarrow> (nat \<times> Buffer) res" where
  "append_space_restart 0 b len = Inl Diverge"
| "append_space_restart (Suc k) b len =
     (if b_end b + len < b_alloc b then Inr (unat (b_end b), b\<lparr>b_end := b_end b + len\<rparr>)
      else bindR (buffer_compact b) (\<lambda>(moved, b).
        if moved then append_space_restart k b len
        else let newlen = roundup (b_alloc b + len) BUFFER_ALLOCSZ in
          if newlen > BUFFER_MAX_LEN then Inl (Fatal ''buffer_append_space: alloc'')
          else bindR (xrealloc (b_buf b) (unat newlen)) (\<lambda>m.
            append_space_restart k (b\<lparr>b_buf := m, b_alloc := newlen\<rparr>) len)))"

text \<open>The returned pointer is the index of the region in the block.\<close>

definition buffer_append_space :: "Buffer \<Rightarrow> u32 \<Rightarrow> (nat \<times> Buffer) res" where
  "buffer_append_space b len =
     (if len > BUFFER_MAX_CHUNK then Inl (Fatal ''buffer_append_space: len'')
      else append_space_restart 3 (reset_empty b) len)"

definition buffer_append :: "Buffer \<Rightarrow> byte list \<Rightarrow> Buffer res" where
  "buffer_append b d =
     bindR (buffer_append_space b (of_nat (length d))) (\<lambda>(p, b).
     bindR (mem_write (b_buf b) p d) (\<lambda>m. Inr (b\<lparr>b_buf := m\<rparr>)))"

fun check_alloc_restart :: "nat \<Rightarrow> Buffer \<Rightarrow> u32 \<Rightarrow> (bool \<times> Buffer) res" where
  "check_alloc_restart 0 b len = Inl Diverge"
| "check_alloc_restart (Suc k) b len =
     (if b_end b + len < b_alloc b then Inr (True, b)
      else bindR (buffer_compact b) (\<lambda>(moved, b).
        if moved then check_alloc_restart k b len
        else Inr (roundup (b_alloc b + len) BUFFER_ALLOCSZ \<le> BUFFER_MAX_LEN, b)))"

definition buffer_check_alloc :: "Buffer \<Rightarrow> u32 \<Rightarrow> (bool \<times> Buffer) res" where
  "buffer_check_alloc b len = check_alloc_restart 2 (reset_empty b) len"

definition buffer_len :: "Buffer \<Rightarrow> u32" where
  "buffer_len b = b_end b - b_offset b"

text \<open>The \<open>_ret\<close> functions return -1 on error, here \<open>None\<close>, and leave the buffer as it is.\<close>

definition buffer_get_ret :: "Buffer \<Rightarrow> u32 \<Rightarrow> (byte list option \<times> Buffer) res" where
  "buffer_get_ret b len =
     (if len > b_end b - b_offset b then Inr (None, b)
      else bindR (mem_read (b_buf b) (unat (b_offset b)) (unat len)) (\<lambda>d.
        Inr (Some d, b\<lparr>b_offset := b_offset b + len\<rparr>)))"

definition buffer_get :: "Buffer \<Rightarrow> u32 \<Rightarrow> (byte list \<times> Buffer) res" where
  "buffer_get b len =
     bindR (buffer_get_ret b len) (\<lambda>(r, b).
       case r of None \<Rightarrow> Inl (Fatal ''buffer_get: buffer error'') | Some d \<Rightarrow> Inr (d, b))"

definition buffer_consume_ret :: "Buffer \<Rightarrow> u32 \<Rightarrow> bool \<times> Buffer" where
  "buffer_consume_ret b n =
     (if n > b_end b - b_offset b then (False, b) else (True, b\<lparr>b_offset := b_offset b + n\<rparr>))"

definition buffer_consume :: "Buffer \<Rightarrow> u32 \<Rightarrow> Buffer res" where
  "buffer_consume b n =
     (let (ok, b') = buffer_consume_ret b n
      in if ok then Inr b' else Inl (Fatal ''buffer_consume: buffer error''))"

definition buffer_consume_end_ret :: "Buffer \<Rightarrow> u32 \<Rightarrow> bool \<times> Buffer" where
  "buffer_consume_end_ret b n =
     (if n > b_end b - b_offset b then (False, b) else (True, b\<lparr>b_end := b_end b - n\<rparr>))"

definition buffer_consume_end :: "Buffer \<Rightarrow> u32 \<Rightarrow> Buffer res" where
  "buffer_consume_end b n =
     (let (ok, b') = buffer_consume_end_ret b n
      in if ok then Inr b' else Inl (Fatal ''buffer_consume_end: trying to get more bytes than in buffer''))"

text \<open>The bytes a client sees through \<open>buffer_ptr\<close> up to \<open>buffer_len\<close>.\<close>

definition bytes :: "Buffer \<Rightarrow> byte list" where
  "bytes b = take (unat (b_end b) - unat (b_offset b)) (drop (unat (b_offset b)) (b_buf b))"

definition buffer_inv :: "Buffer \<Rightarrow> bool" where
  "buffer_inv b \<longleftrightarrow>
     length (b_buf b) = unat (b_alloc b) \<and> b_offset b \<le> b_end b \<and> b_end b < b_alloc b \<and>
     b_alloc b \<le> BUFFER_MAX_LEN"

section \<open>The invariant and the abstraction in natural numbers\<close>

lemmas buffer_consts = BUFFER_MAX_CHUNK_def BUFFER_MAX_LEN_def BUFFER_ALLOCSZ_def

lemma buffer_inv_nat:
  "buffer_inv b \<longleftrightarrow>
     length (b_buf b) = unat (b_alloc b) \<and> unat (b_offset b) \<le> unat (b_end b) \<and>
     unat (b_end b) < unat (b_alloc b) \<and> unat (b_alloc b) \<le> 0xa00000"
  by (simp add: buffer_inv_def buffer_consts word_le_nat_alt word_less_nat_alt)

lemma length_bytes: "buffer_inv b \<Longrightarrow> length (bytes b) = unat (b_end b) - unat (b_offset b)"
  by (auto simp: buffer_inv_nat bytes_def)

lemma unat_buffer_len: "buffer_inv b \<Longrightarrow> unat (buffer_len b) = length (bytes b)"
  by (simp add: buffer_len_def length_bytes unat_minus_u32 buffer_inv_def)

lemma unat_end_minus_offset:
  "buffer_inv b \<Longrightarrow> unat (b_end b - b_offset b) = length (bytes b)"
  using unat_buffer_len by (simp add: buffer_len_def)

lemma buffer_init_inv [simp]: "buffer_inv buffer_init" and bytes_init [simp]: "bytes buffer_init = []"
  by (simp_all add: buffer_inv_nat buffer_init_def bytes_def)

lemma alloc_init [simp]: "b_alloc buffer_init = 4096"
  by (simp add: buffer_init_def)

lemma buffer_clear_inv [simp]: "buffer_inv b \<Longrightarrow> buffer_inv (buffer_clear b)"
  and bytes_clear [simp]: "bytes (buffer_clear b) = []"
  by (auto simp: buffer_inv_nat buffer_clear_def bytes_def)

lemma reset_empty_inv: "buffer_inv b \<Longrightarrow> buffer_inv (reset_empty b)"
  by (auto simp: buffer_inv_nat reset_empty_def)

lemma bytes_reset_empty [simp]: "bytes (reset_empty b) = bytes b"
  by (simp add: reset_empty_def bytes_def)

lemma alloc_reset_empty [simp]: "b_alloc (reset_empty b) = b_alloc b"
  by (simp add: reset_empty_def)

lemma roundup_nat:
  assumes "unat x \<le> 0xb00000"
  shows "unat (roundup x BUFFER_ALLOCSZ) = (unat x + 0x7fff) div 0x8000 * 0x8000"
proof -
  have s: "unat (x + 0x7fff) = unat x + 0x7fff"
    using assms by (subst unat_plus_u32) simp_all
  have d: "unat ((x + 0x7fff) div 0x8000) = (unat x + 0x7fff) div 0x8000"
    by (simp add: unat_div s)
  have "(unat x + 0x7fff) div 0x8000 * 0x8000 < 4294967296"
    using assms by simp
  then show ?thesis
    by (simp add: roundup_def buffer_consts unat_word_ariths d)
qed

lemma roundup_bounds:
  assumes "unat x \<le> 0xb00000"
  shows "unat x \<le> unat (roundup x BUFFER_ALLOCSZ)"
    and "unat (roundup x BUFFER_ALLOCSZ) \<le> unat x + 0x7fff"
  using roundup_nat [OF assms] by simp_all

section \<open>Operations on the abstraction\<close>

lemma buffer_compact_spec:
  assumes "buffer_inv b"
  obtains moved b' where "buffer_compact b = Inr (moved, b')" "buffer_inv b'" "bytes b' = bytes b"
    "b_alloc b' = b_alloc b" "moved \<Longrightarrow> b_offset b' = 0" "\<not> moved \<Longrightarrow> b' = b"
proof (cases "b_offset b > min (b_alloc b) BUFFER_MAX_CHUNK")
  case True
  let ?n = "unat (b_end b) - unat (b_offset b)"
  let ?b = "b\<lparr>b_buf := bytes b @ drop ?n (b_buf b), b_end := b_end b - b_offset b, b_offset := 0\<rparr>"
  have n: "unat (b_end b - b_offset b) = ?n"
    using assms unat_end_minus_offset length_bytes by simp
  have i: "length (b_buf b) = unat (b_alloc b)" "unat (b_offset b) \<le> unat (b_end b)"
      "unat (b_end b) < unat (b_alloc b)" "unat (b_alloc b) \<le> 0xa00000"
    using assms by (simp_all add: buffer_inv_nat)
  have l: "length (bytes b) = ?n" using assms by (rule length_bytes)
  have "buffer_compact b = Inr (True, ?b)"
    using True i l by (simp add: buffer_compact_def mem_read_def mem_write_def n bytes_def)
  moreover have "buffer_inv ?b"
    using i l by (simp add: buffer_inv_nat n)
  moreover have "bytes ?b = bytes b"
    using l by (simp add: bytes_def [of ?b] n)
  ultimately show ?thesis using that [of True ?b] by simp
next
  case False
  then have "buffer_compact b = Inr (False, b)" by (simp add: buffer_compact_def)
  with assms show ?thesis using that [of False b] by simp
qed

lemma buffer_compact_at_zero: "b_offset b = 0 \<Longrightarrow> buffer_compact b = Inr (False, b)"
  by (simp add: buffer_compact_def)

text \<open>What a successful \<open>buffer_append_space\<close> gives: the queued bytes are kept and the region
  of \<open>len\<close> bytes behind them is inside of the block.\<close>

definition space_for :: "Buffer \<Rightarrow> u32 \<Rightarrow> nat \<times> Buffer \<Rightarrow> bool" where
  "space_for b len r \<longleftrightarrow>
     (let (p, b') = r in
      buffer_inv b' \<and> p = unat (b_offset b') + length (bytes b) \<and>
      unat (b_end b') = p + unat len \<and> take (length (bytes b)) (bytes b') = bytes b \<and>
      unat (b_alloc b') \<le> unat (b_alloc b) + unat len + 0x7fff)"

lemma append_space_fits:
  assumes "buffer_inv b" "unat (b_end b) + unat len < unat (b_alloc b)"
  shows "append_space_restart (Suc k) b len = Inr (unat (b_end b), b\<lparr>b_end := b_end b + len\<rparr>)"
    and "space_for b len (unat (b_end b), b\<lparr>b_end := b_end b + len\<rparr>)"
proof -
  have e: "unat (b_end b + len) = unat (b_end b) + unat len"
    using assms by (subst unat_plus_u32) (simp_all add: buffer_inv_nat)
  then show "append_space_restart (Suc k) b len = Inr (unat (b_end b), b\<lparr>b_end := b_end b + len\<rparr>)"
    using assms by (simp add: word_less_nat_alt)
  show "space_for b len (unat (b_end b), b\<lparr>b_end := b_end b + len\<rparr>)"
    using assms e length_bytes [OF assms(1)]
    by (simp add: space_for_def buffer_inv_nat) (simp add: bytes_def)
qed

definition grown :: "Buffer \<Rightarrow> u32 \<Rightarrow> Buffer" where
  "grown b newlen =
     b\<lparr>b_buf := b_buf b @ replicate (unat newlen - unat (b_alloc b)) 0, b_alloc := newlen\<rparr>"

lemma grown_spec:
  assumes "buffer_inv b" "unat (b_alloc b) \<le> unat newlen" "unat newlen \<le> 0xa00000"
  shows "xrealloc (b_buf b) (unat newlen) = Inr (b_buf (grown b newlen))"
    and "buffer_inv (grown b newlen)" and "bytes (grown b newlen) = bytes b"
  using assms by (auto simp: buffer_inv_nat grown_def xrealloc_def bytes_def)

definition fits :: "Buffer \<Rightarrow> u32 \<Rightarrow> bool" where
  "fits b len \<longleftrightarrow> unat (b_end b) + unat len < unat (b_alloc b)"

definition may_grow :: "Buffer \<Rightarrow> u32 \<Rightarrow> bool" where
  "may_grow b len \<longleftrightarrow> unat (roundup (b_alloc b + len) BUFFER_ALLOCSZ) \<le> 0xa00000"

lemma fits_word:
  assumes "buffer_inv b" "unat len \<le> 0x100000"
  shows "b_end b + len < b_alloc b \<longleftrightarrow> fits b len"
proof -
  have "unat (b_end b + len) = unat (b_end b) + unat len"
    using assms by (subst unat_plus_u32) (simp_all add: buffer_inv_nat)
  then show ?thesis by (simp add: fits_def word_less_nat_alt)
qed

lemma may_grow_if:
  assumes "buffer_inv b" "unat len \<le> 0x100000"
    "unat (b_alloc b) + unat len + 0x7fff \<le> 0xa00000"
  shows "may_grow b len"
proof -
  have u: "unat (b_alloc b + len) = unat (b_alloc b) + unat len"
    using assms by (subst unat_plus_u32) (simp_all add: buffer_inv_nat)
  show ?thesis
    using assms u roundup_bounds(2) [of "b_alloc b + len"] by (simp add: may_grow_def)
qed

lemma restart_settled:
  assumes inv: "buffer_inv b" and c: "buffer_compact b = Inr (False, b)"
    and l: "unat len \<le> 0x100000"
  shows "fits b len \<or> may_grow b len \<Longrightarrow>
      \<exists>r. append_space_restart (Suc (Suc k)) b len = Inr r \<and> space_for b len r"
    and "\<not> fits b len \<Longrightarrow> \<not> may_grow b len \<Longrightarrow>
      append_space_restart (Suc (Suc k)) b len = Inl (Fatal ''buffer_append_space: alloc'')"
proof -
  define newlen where "newlen = roundup (b_alloc b + len) BUFFER_ALLOCSZ"
  have u: "unat (b_alloc b + len) = unat (b_alloc b) + unat len"
    using inv l by (subst unat_plus_u32) (simp_all add: buffer_inv_nat)
  have "unat (b_alloc b + len) \<le> 0xb00000" using u inv l by (simp add: buffer_inv_nat)
  then have nl: "unat (b_alloc b) + unat len \<le> unat newlen"
      "unat newlen \<le> unat (b_alloc b) + unat len + 0x7fff"
    unfolding newlen_def using roundup_bounds u by metis+
  have le: "newlen > BUFFER_MAX_LEN \<longleftrightarrow> \<not> may_grow b len"
    by (auto simp: may_grow_def newlen_def word_less_nat_alt buffer_consts)
  have step: "append_space_restart (Suc (Suc k)) b len =
      (if newlen > BUFFER_MAX_LEN then Inl (Fatal ''buffer_append_space: alloc'')
       else append_space_restart (Suc k) (grown b newlen) len)"
    if "\<not> fits b len" and "may_grow b len \<Longrightarrow> xrealloc (b_buf b) (unat newlen) = Inr (b_buf (grown b newlen))"
    using that fits_word [OF inv l] c le
    by (simp only: append_space_restart.simps(2) if_False bindR_simps prod.case newlen_def [symmetric] Let_def)
       (simp add: grown_def)
  show "\<exists>r. append_space_restart (Suc (Suc k)) b len = Inr r \<and> space_for b len r"
    if a: "fits b len \<or> may_grow b len"
  proof (cases "fits b len")
    case True
    then show ?thesis using append_space_fits [OF inv, of len] unfolding fits_def by blast
  next
    case False
    with a have g: "may_grow b len" by simp
    have "unat newlen \<le> 0xa00000" using g by (simp add: may_grow_def newlen_def)
    note gs = grown_spec [OF inv _ this, simplified]
    have gi: "buffer_inv (grown b newlen)" "bytes (grown b newlen) = bytes b" using gs nl by simp_all
    have "unat (b_end (grown b newlen)) + unat len < unat (b_alloc (grown b newlen))"
      using nl inv by (simp add: grown_def buffer_inv_nat)
    note fit = append_space_fits [OF gi(1) this]
    have "append_space_restart (Suc (Suc k)) b len = append_space_restart (Suc k) (grown b newlen) len"
      using step [OF False] gs(1) nl le g by simp
    moreover have "space_for b len (unat (b_end (grown b newlen)),
        (grown b newlen)\<lparr>b_end := b_end (grown b newlen) + len\<rparr>)"
      using fit(2) gi(2) nl by (simp add: space_for_def) (simp add: grown_def)
    ultimately show ?thesis using fit(1) by metis
  qed
  show "append_space_restart (Suc (Suc k)) b len = Inl (Fatal ''buffer_append_space: alloc'')"
    if "\<not> fits b len" "\<not> may_grow b len"
    using step [OF that(1)] that(2) le by simp
qed

lemma check_alloc_settled:
  assumes "buffer_inv b" "buffer_compact b = Inr (False, b)" "unat len \<le> 0x100000"
  shows "check_alloc_restart (Suc k) b len = Inr (fits b len \<or> may_grow b len, b)"
  using assms fits_word [OF assms(1,3)]
  by (simp add: may_grow_def word_le_nat_alt buffer_consts)

lemma append_space_spec:
  assumes inv: "buffer_inv b" and l: "unat len \<le> 0x100000"
  obtains ok b' where "buffer_check_alloc b len = Inr (ok, b')" "buffer_inv b'" "bytes b' = bytes b"
    "ok \<Longrightarrow> \<exists>r. buffer_append_space b len = Inr r \<and> space_for b len r"
    "\<not> ok \<Longrightarrow> buffer_append_space b len = Inl (Fatal ''buffer_append_space: alloc'')"
    "unat (b_alloc b) + unat len + 0x7fff \<le> 0xa00000 \<Longrightarrow> ok"
proof -
  let ?b = "reset_empty b"
  have i: "buffer_inv ?b" using inv by (rule reset_empty_inv)
  have sp: "buffer_append_space b len = append_space_restart (Suc (Suc (Suc 0))) ?b len"
    using l by (simp add: buffer_append_space_def buffer_consts word_less_nat_alt numeral_3_eq_3)
  have ca: "buffer_check_alloc b len = check_alloc_restart (Suc (Suc 0)) ?b len"
    by (simp add: buffer_check_alloc_def numeral_2_eq_2)
  obtain moved b' where c: "buffer_compact ?b = Inr (moved, b')" "buffer_inv b'" "bytes b' = bytes ?b"
      "b_alloc b' = b_alloc ?b" "moved \<Longrightarrow> b_offset b' = 0" "\<not> moved \<Longrightarrow> b' = ?b"
    using buffer_compact_spec [OF i] by blast
  have sf: "space_for b len r" if "space_for c len r" "bytes c = bytes b" "b_alloc c = b_alloc b" for c r
    using that by (simp add: space_for_def)
  show ?thesis
  proof (cases "moved \<and> \<not> fits ?b len")
    case False
    show ?thesis
    proof (cases "fits ?b len")
      case True
      then have "append_space_restart (Suc (Suc (Suc 0))) ?b len =
          Inr (unat (b_end ?b), ?b\<lparr>b_end := b_end ?b + len\<rparr>)"
        using append_space_fits(1) [OF i] by (simp only: fits_def)
      moreover have "check_alloc_restart (Suc (Suc 0)) ?b len = Inr (True, ?b)"
        using True fits_word [OF i l] by simp
      moreover have "space_for ?b len (unat (b_end ?b), ?b\<lparr>b_end := b_end ?b + len\<rparr>)"
        using True append_space_fits(2) [OF i] by (simp only: fits_def)
      ultimately show ?thesis
        using that [of True ?b] i sp ca sf [of ?b] by simp
    next
      case nf: False
      then have c': "buffer_compact ?b = Inr (False, ?b)" using c False by simp
      show ?thesis
        using that [of "fits ?b len \<or> may_grow ?b len" ?b] i sp ca sf [of ?b]
          restart_settled [OF i c' l, of "Suc 0"] check_alloc_settled [OF i c' l, of "Suc 0"]
          may_grow_if [OF i l] by auto
    qed
  next
    case True
    then have c': "buffer_compact b' = Inr (False, b')" using c by (simp add: buffer_compact_at_zero)
    have "append_space_restart (Suc (Suc (Suc 0))) ?b len = append_space_restart (Suc (Suc 0)) b' len"
      "check_alloc_restart (Suc (Suc 0)) ?b len = check_alloc_restart (Suc 0) b' len"
      using True c(1) fits_word [OF i l] by simp_all
    then show ?thesis
      using that [of "fits b' len \<or> may_grow b' len" b'] c sp ca sf [of b']
        restart_settled [OF c(2) c' l, of 0] check_alloc_settled [OF c(2) c' l, of 0]
        may_grow_if [OF c(2) l] by auto
  qed
qed

lemma write_space:
  assumes "space_for b len (p, b')" and "unat len = length d"
  obtains m where "mem_write (b_buf b') p d = Inr m" "buffer_inv (b'\<lparr>b_buf := m\<rparr>)"
    "bytes (b'\<lparr>b_buf := m\<rparr>) = bytes b @ d"
proof -
  let ?m = "take p (b_buf b') @ d @ drop (p + length d) (b_buf b')"
  have i: "buffer_inv b'" "p = unat (b_offset b') + length (bytes b)"
      "unat (b_end b') = p + length d" "take (length (bytes b)) (bytes b') = bytes b"
    using assms by (simp_all add: space_for_def)
  then have fit: "p + length d \<le> length (b_buf b')" by (simp add: buffer_inv_nat)
  have "take (length (bytes b)) (drop (unat (b_offset b')) (b_buf b')) = bytes b"
    using i(2-4) by (simp add: bytes_def [of b'] min_def)
  moreover have "bytes (b'\<lparr>b_buf := ?m\<rparr>) =
      take (p + length d - unat (b_offset b')) (drop (unat (b_offset b')) ?m)"
    using i(3) by (simp add: bytes_def)
  ultimately have "bytes (b'\<lparr>b_buf := ?m\<rparr>) = bytes b @ d"
    using i(2) fit by (simp only: take_drop_append_mid) simp
  moreover have "buffer_inv (b'\<lparr>b_buf := ?m\<rparr>)" using i(1) fit by (simp add: buffer_inv_nat)
  ultimately show ?thesis using that [of ?m] fit by (simp add: mem_write_def)
qed

lemma buffer_append_spec:
  assumes inv: "buffer_inv b" and l: "length d \<le> 0x100000"
  obtains ok b' where "buffer_check_alloc b (of_nat (length d)) = Inr (ok, b')"
    "ok \<Longrightarrow> \<exists>b'. buffer_append b d = Inr b' \<and> buffer_inv b' \<and> bytes b' = bytes b @ d \<and>
       unat (b_alloc b') \<le> unat (b_alloc b) + length d + 0x7fff"
    "\<not> ok \<Longrightarrow> buffer_append b d = Inl (Fatal ''buffer_append_space: alloc'')"
    "unat (b_alloc b) + length d + 0x7fff \<le> 0xa00000 \<Longrightarrow> ok"
proof -
  let ?len = "of_nat (length d) :: u32"
  have u: "unat ?len = length d" using l by simp
  then have ul: "unat ?len \<le> 0x100000" using l by simp
  obtain ok b' where a: "buffer_check_alloc b ?len = Inr (ok, b')"
      "ok \<Longrightarrow> \<exists>r. buffer_append_space b ?len = Inr r \<and> space_for b ?len r"
      "\<not> ok \<Longrightarrow> buffer_append_space b ?len = Inl (Fatal ''buffer_append_space: alloc'')"
      "unat (b_alloc b) + unat ?len + 0x7fff \<le> 0xa00000 \<Longrightarrow> ok"
    by (rule append_space_spec [OF inv ul]) blast
  have "\<exists>b'. buffer_append b d = Inr b' \<and> buffer_inv b' \<and> bytes b' = bytes b @ d \<and>
       unat (b_alloc b') \<le> unat (b_alloc b) + length d + 0x7fff" if o: ok
  proof -
    obtain p c where s: "buffer_append_space b ?len = Inr (p, c)" "space_for b ?len (p, c)"
      using a(2) [OF o] by auto
    obtain m where "mem_write (b_buf c) p d = Inr m" "buffer_inv (c\<lparr>b_buf := m\<rparr>)"
        "bytes (c\<lparr>b_buf := m\<rparr>) = bytes b @ d"
      using write_space [OF s(2) u] by blast
    moreover have "unat (b_alloc c) \<le> unat (b_alloc b) + length d + 0x7fff"
      using s(2) u by (simp add: space_for_def)
    ultimately show ?thesis using s(1) by (simp add: buffer_append_def)
  qed
  then show ?thesis using that [OF a(1)] a(3,4) u by (simp add: buffer_append_def)
qed

lemma buffer_append_too_long:
  assumes "0x100000 < length d" "length d < 4294967296"
  shows "buffer_append b d = Inl (Fatal ''buffer_append_space: len'')"
  using assms by (simp add: buffer_append_def buffer_append_space_def buffer_consts word_less_nat_alt)

lemma buffer_append_Inr:
  assumes "buffer_append b d = Inr b'" "buffer_inv b"
  shows "buffer_inv b'" "bytes b' = bytes b @ d"
    "unat (b_alloc b') \<le> unat (b_alloc b) + length d + 0x7fff"
proof -
  have "length d \<le> 0x100000"
  proof (rule ccontr)
    assume long: "\<not> length d \<le> 0x100000"
    then have big: "\<not> length d < 4294967296" using assms(1) buffer_append_too_long [of d b] by auto
    let ?len = "of_nat (length d) :: u32"
    obtain p c where s: "buffer_append_space b ?len = Inr (p, c)" "p + length d \<le> length (b_buf c)"
      using assms(1) by (auto simp: buffer_append_def res_simps)
    have "unat ?len \<le> 0x100000"
      using s(1) by (auto simp: buffer_append_space_def buffer_consts word_le_nat_alt word_less_nat_alt split: if_splits)
    then have "buffer_inv c"
      by (rule append_space_spec [OF assms(2)]) (use s(1) in \<open>auto simp: space_for_def split: prod.splits\<close>)
    with s(2) big show False by (simp add: buffer_inv_nat)
  qed
  then have "buffer_inv b' \<and> bytes b' = bytes b @ d \<and>
      unat (b_alloc b') \<le> unat (b_alloc b) + length d + 0x7fff"
    by (rule buffer_append_spec [OF assms(2)]) (use assms(1) in auto)
  then show "buffer_inv b'" "bytes b' = bytes b @ d"
    "unat (b_alloc b') \<le> unat (b_alloc b) + length d + 0x7fff" by auto
qed

lemma buffer_append_small:
  assumes "buffer_inv b" "length d \<le> 0x100000" "unat (b_alloc b) + length d + 0x7fff \<le> 0xa00000"
  shows "\<exists>b'. buffer_append b d = Inr b'"
  by (rule buffer_append_spec [OF assms(1,2)]) (use assms(3) in auto)

lemma buffer_append_safe:
  assumes "buffer_inv b" "length d < 4294967296"
  shows "(\<exists>b'. buffer_append b d = Inr b') \<or> (\<exists>m. buffer_append b d = Inl (Fatal m))"
proof (cases "length d \<le> 0x100000")
  case True
  show ?thesis by (rule buffer_append_spec [OF assms(1) True]) auto
next
  case False
  then show ?thesis using buffer_append_too_long [OF _ assms(2)] by auto
qed

text \<open>\<open>room b n\<close>: allocations of \<open>n\<close> more bytes in total are within the limit. It makes a sequence of
  appends succeed by adding up their sizes.\<close>

definition room :: "Buffer \<Rightarrow> nat \<Rightarrow> bool" where
  "room b n \<longleftrightarrow> buffer_inv b \<and> unat (b_alloc b) + n \<le> 0xa00000"

lemma room_init: "n \<le> 0x9ff000 \<Longrightarrow> room buffer_init n"
  by (simp add: room_def)

lemma room_mono: "room b n \<Longrightarrow> m \<le> n \<Longrightarrow> room b m"
  by (simp add: room_def)

lemma room_inv: "room b n \<Longrightarrow> buffer_inv b"
  by (simp add: room_def)

lemma append_room:
  assumes "room b (length d + 0x7fff + n)" "length d \<le> 0x100000"
  shows "\<exists>b'. buffer_append b d = Inr b' \<and> room b' n \<and> bytes b' = bytes b @ d"
proof -
  obtain b' where a: "buffer_append b d = Inr b'"
    using buffer_append_small [of b d] assms by (auto simp: room_def)
  then show ?thesis using buffer_append_Inr [OF a] assms(1) by (auto simp: room_def)
qed

lemma advance_offset:
  assumes "buffer_inv b" "unat n \<le> length (bytes b)"
  shows "buffer_inv (b\<lparr>b_offset := b_offset b + n\<rparr>)"
    and "bytes (b\<lparr>b_offset := b_offset b + n\<rparr>) = drop (unat n) (bytes b)"
proof -
  have u: "unat (b_offset b + n) = unat (b_offset b) + unat n"
    using assms length_bytes [OF assms(1)] by (subst unat_plus_u32) (auto simp: buffer_inv_nat)
  show "buffer_inv (b\<lparr>b_offset := b_offset b + n\<rparr>)"
    using assms u length_bytes [OF assms(1)] by (auto simp: buffer_inv_nat)
  show "bytes (b\<lparr>b_offset := b_offset b + n\<rparr>) = drop (unat n) (bytes b)"
    using u by (simp add: bytes_def drop_take) (simp add: add.commute)
qed

lemma buffer_get_ret_spec:
  assumes "buffer_inv b"
  shows "length (bytes b) < unat n \<Longrightarrow> buffer_get_ret b n = Inr (None, b)"
    and "unat n \<le> length (bytes b) \<Longrightarrow>
      buffer_get_ret b n = Inr (Some (take (unat n) (bytes b)), b\<lparr>b_offset := b_offset b + n\<rparr>)"
proof -
  note e = unat_end_minus_offset [OF assms]
  show "buffer_get_ret b n = Inr (None, b)" if "length (bytes b) < unat n"
    using that e by (simp add: buffer_get_ret_def word_less_nat_alt)
  show "buffer_get_ret b n = Inr (Some (take (unat n) (bytes b)), b\<lparr>b_offset := b_offset b + n\<rparr>)"
    if "unat n \<le> length (bytes b)"
  proof -
    have le: "unat n \<le> unat (b_end b) - unat (b_offset b)" using that length_bytes [OF assms] by simp
    then have "unat (b_offset b) + unat n \<le> length (b_buf b)" using assms by (auto simp: buffer_inv_nat)
    moreover have "take (unat n) (bytes b) = take (unat n) (drop (unat (b_offset b)) (b_buf b))"
      using le by (simp add: bytes_def min_def)
    ultimately show ?thesis using that e by (simp add: buffer_get_ret_def word_less_nat_alt mem_read_def)
  qed
qed

lemma buffer_get_spec:
  assumes "buffer_inv b"
  shows "length (bytes b) < unat n \<Longrightarrow> buffer_get b n = Inl (Fatal ''buffer_get: buffer error'')"
    and "unat n \<le> length (bytes b) \<Longrightarrow>
      buffer_get b n = Inr (take (unat n) (bytes b), b\<lparr>b_offset := b_offset b + n\<rparr>)"
  using buffer_get_ret_spec [OF assms, of n] by (simp_all add: buffer_get_def)

lemma buffer_get_Inr:
  assumes "buffer_inv b" "buffer_get b n = Inr (d, b')"
  shows "buffer_inv b'" "bytes b = d @ bytes b'" "length d = unat n"
proof -
  have "unat n \<le> length (bytes b)"
    using buffer_get_spec(1) [OF assms(1), of n] assms(2) by (cases "length (bytes b) < unat n") auto
  with buffer_get_spec(2) [OF assms(1) this] advance_offset [OF assms(1) this] assms(2)
  show "buffer_inv b'" "bytes b = d @ bytes b'" "length d = unat n" by auto
qed

lemma buffer_get_append:
  assumes "buffer_inv b" "bytes b = d @ r" "unat n = length d"
  shows "\<exists>b'. buffer_get b n = Inr (d, b') \<and> buffer_inv b' \<and> bytes b' = r"
  using buffer_get_spec(2) [OF assms(1), of n] advance_offset [OF assms(1), of n] assms by simp

lemma buffer_consume_spec:
  assumes "buffer_inv b"
  shows "length (bytes b) < unat n \<Longrightarrow> buffer_consume b n = Inl (Fatal ''buffer_consume: buffer error'')"
    and "unat n \<le> length (bytes b) \<Longrightarrow> \<exists>b'. buffer_consume b n = Inr b' \<and> buffer_inv b' \<and>
      bytes b' = drop (unat n) (bytes b)"
  using unat_end_minus_offset [OF assms] advance_offset [OF assms, of n]
  by (simp_all add: buffer_consume_def buffer_consume_ret_def word_less_nat_alt)

lemma consume_inv: "buffer_inv b \<Longrightarrow> buffer_consume b n = Inr c \<Longrightarrow>
    buffer_inv c \<and> unat n \<le> length (bytes b) \<and> bytes c = drop (unat n) (bytes b)"
  using buffer_consume_spec [of b n] advance_offset [of b n] by (cases "length (bytes b) < unat n") auto

lemma buffer_consume_end_spec:
  assumes "buffer_inv b"
  shows "length (bytes b) < unat n \<Longrightarrow>
      buffer_consume_end b n = Inl (Fatal ''buffer_consume_end: trying to get more bytes than in buffer'')"
    and "unat n \<le> length (bytes b) \<Longrightarrow> \<exists>b'. buffer_consume_end b n = Inr b' \<and> buffer_inv b' \<and>
      bytes b' = take (length (bytes b) - unat n) (bytes b)"
proof -
  note e = unat_end_minus_offset [OF assms] and l = length_bytes [OF assms]
  show "buffer_consume_end b n = Inl (Fatal ''buffer_consume_end: trying to get more bytes than in buffer'')"
    if "length (bytes b) < unat n"
    using that e by (simp add: buffer_consume_end_def buffer_consume_end_ret_def word_less_nat_alt)
  show "\<exists>b'. buffer_consume_end b n = Inr b' \<and> buffer_inv b' \<and>
      bytes b' = take (length (bytes b) - unat n) (bytes b)" if le: "unat n \<le> length (bytes b)"
  proof -
    have u: "unat (b_end b - n) = unat (b_end b) - unat n"
      using le l by (subst unat_minus_u32) (auto simp: word_le_nat_alt)
    have "buffer_inv (b\<lparr>b_end := b_end b - n\<rparr>)"
      using assms u le l by (auto simp: buffer_inv_nat)
    moreover have "bytes (b\<lparr>b_end := b_end b - n\<rparr>) = take (length (bytes b) - unat n) (bytes b)"
      using u by (simp add: l) (simp add: bytes_def min_def add.commute)
    ultimately show ?thesis
      using le e by (simp add: buffer_consume_end_def buffer_consume_end_ret_def word_less_nat_alt)
  qed
qed

lemma consume_end_inv: "buffer_inv b \<Longrightarrow> buffer_consume_end b n = Inr c \<Longrightarrow>
    buffer_inv c \<and> unat n \<le> length (bytes b) \<and> bytes c = take (length (bytes b) - unat n) (bytes b)"
  using buffer_consume_end_spec [of b n] by (cases "length (bytes b) < unat n") auto

section \<open>The interface: a byte queue\<close>

text \<open>What the clients of \<open>buffer.h\<close> rely on: appending adds at the back, getting takes from the
  front, and the invariant is kept; whether an append succeeds is up to the provider.\<close>

primrec app_all :: "('q \<Rightarrow> byte list \<Rightarrow> 'q res) \<Rightarrow> 'q \<Rightarrow> byte list list \<Rightarrow> 'q res" where
  "app_all app q [] = Inr q"
| "app_all app q (d # ds) = bindR (app q d) (\<lambda>q. app_all app q ds)"

primrec get_all :: "('q \<Rightarrow> u32 \<Rightarrow> (byte list \<times> 'q) res) \<Rightarrow> 'q \<Rightarrow> u32 list \<Rightarrow> (byte list list \<times> 'q) res" where
  "get_all get q [] = Inr ([], q)"
| "get_all get q (n # ns) =
     bindR (get q n) (\<lambda>(d, q). bindR (get_all get q ns) (\<lambda>(ds, q). Inr (d # ds, q)))"

locale byte_queue =
  fixes inv :: "'q \<Rightarrow> bool" and content :: "'q \<Rightarrow> byte list" and start :: 'q
    and app :: "'q \<Rightarrow> byte list \<Rightarrow> 'q res" and get :: "'q \<Rightarrow> u32 \<Rightarrow> (byte list \<times> 'q) res"
  assumes inv_start: "inv start" and content_start: "content start = []"
    and app_ok: "inv q \<Longrightarrow> app q d = Inr q' \<Longrightarrow> inv q' \<and> content q' = content q @ d"
    and get_ok: "inv q \<Longrightarrow> content q = d @ r \<Longrightarrow> unat n = length d \<Longrightarrow>
      \<exists>q'. get q n = Inr (d, q') \<and> inv q' \<and> content q' = r"
    and get_Inr: "inv q \<Longrightarrow> get q n = Inr (d, q') \<Longrightarrow>
      inv q' \<and> content q = d @ content q' \<and> length d = unat n"
begin

lemma app_all_content: "inv q \<Longrightarrow> app_all app q ds = Inr q' \<Longrightarrow> inv q' \<and> content q' = content q @ concat ds"
proof (induction ds arbitrary: q)
  case (Cons d ds)
  then obtain q1 where "app q d = Inr q1" "app_all app q1 ds = Inr q'" by (auto simp: res_simps)
  with Cons.IH [of q1] app_ok [OF Cons.prems(1)] show ?case by auto
qed simp

lemma get_all_ok:
  assumes "inv q" "content q = concat ds @ r" "list_all2 (\<lambda>n d. unat n = length d) ns ds"
  shows "\<exists>q'. get_all get q ns = Inr (ds, q') \<and> inv q' \<and> content q' = r"
  using assms(3,1,2)
proof (induction ns ds arbitrary: q rule: list_all2_induct)
  case (Cons n ns d ds)
  obtain q1 where q1: "get q n = Inr (d, q1)" "inv q1" "content q1 = concat ds @ r"
    using get_ok [of q d "concat ds @ r" n] Cons.prems Cons.hyps(1) by auto
  from Cons.IH [OF q1(2,3)] q1(1) show ?case by auto
qed auto

text \<open>First in, first out: chunks come back in the order and with the boundaries they went in.\<close>

lemma fifo:
  assumes "inv q" "content q = []" "app_all app q ds = Inr q'" "list_all2 (\<lambda>n d. unat n = length d) ns ds"
  shows "\<exists>q''. get_all get q' ns = Inr (ds, q'') \<and> inv q'' \<and> content q'' = []"
  using app_all_content [OF assms(1,3)] assms(2) get_all_ok [of q' ds "[]" ns] assms(4) by simp

end

interpretation bq: byte_queue buffer_inv bytes buffer_init buffer_append buffer_get
proof
  show "\<And>q d q'. buffer_inv q \<Longrightarrow> buffer_append q d = Inr q' \<Longrightarrow> buffer_inv q' \<and> bytes q' = bytes q @ d"
    using buffer_append_Inr by blast
  show "\<And>q d r n. buffer_inv q \<Longrightarrow> bytes q = d @ r \<Longrightarrow> unat n = length d \<Longrightarrow>
      \<exists>q'. buffer_get q n = Inr (d, q') \<and> buffer_inv q' \<and> bytes q' = r"
    by (rule buffer_get_append)
  show "\<And>q n d q'. buffer_inv q \<Longrightarrow> buffer_get q n = Inr (d, q') \<Longrightarrow>
      buffer_inv q' \<and> bytes q = d @ bytes q' \<and> length d = unat n"
    using buffer_get_Inr by blast
qed simp_all

section \<open>Properties\<close>

text \<open>C19: appending at most 4 GB of data to a well-formed buffer either queues exactly these bytes behind the
  queued ones and keeps the buffer well formed, or ends the thread with \<open>fatal\<close>; it never writes outside
  of the block and its retry loop always ends.\<close>

theorem buffer_append_refines:
  assumes "buffer_inv b" "length d < 2 ^ 32"
  shows "case buffer_append b d of
      Inr b' \<Rightarrow> buffer_inv b' \<and> bytes b' = bytes b @ d
    | Inl e \<Rightarrow> \<exists>m. e = Fatal m"
  using buffer_append_safe [OF assms(1)] assms(2) buffer_append_Inr [OF _ assms(1), of d] by fastforce

theorem buffer_append_refines_witness:
  "buffer_inv buffer_init \<and> length [1, 2, 3 :: byte] < 2 ^ 32 \<and>
   (case buffer_append buffer_init [1, 2, 3] of
      Inr b' \<Rightarrow> buffer_inv b' \<and> bytes b' = bytes buffer_init @ [1, 2, 3]
    | Inl e \<Rightarrow> \<exists>m. e = Fatal m)"
proof -
  have "length [1, 2, 3 :: byte] < 2 ^ 32" by simp
  with buffer_append_refines [OF buffer_init_inv this] show ?thesis by simp
qed

text \<open>C36: for a chunk of at most \<open>BUFFER_MAX_CHUNK\<close> bytes, \<open>buffer_check_alloc\<close> predicts the outcome of
  \<open>buffer_append\<close> exactly: the answer is yes iff appending succeeds.\<close>

theorem buffer_check_alloc_exact:
  assumes "buffer_inv b" "length d \<le> unat BUFFER_MAX_CHUNK"
  shows "(\<exists>c. buffer_check_alloc b (of_nat (length d)) = Inr (True, c)) \<longleftrightarrow>
    (\<exists>b'. buffer_append b d = Inr b')"
proof (rule buffer_append_spec [OF assms(1), of d])
  show "length d \<le> 0x100000" using assms(2) by (simp add: buffer_consts)
next
  fix ok b'
  assume "buffer_check_alloc b (of_nat (length d)) = Inr (ok, b')"
    "ok \<Longrightarrow> \<exists>b'. buffer_append b d = Inr b' \<and> buffer_inv b' \<and> bytes b' = bytes b @ d \<and>
       unat (b_alloc b') \<le> unat (b_alloc b) + length d + 0x7fff"
    "\<not> ok \<Longrightarrow> buffer_append b d = Inl (Fatal ''buffer_append_space: alloc'')"
  then show ?thesis by (cases ok) auto
qed

theorem buffer_check_alloc_exact_witness:
  "buffer_inv buffer_init \<and> length [7 :: byte] \<le> unat BUFFER_MAX_CHUNK \<and>
   ((\<exists>c. buffer_check_alloc buffer_init (of_nat (length [7 :: byte])) = Inr (True, c)) \<longleftrightarrow>
    (\<exists>b'. buffer_append buffer_init [7] = Inr b'))"
proof -
  have "length [7 :: byte] \<le> unat BUFFER_MAX_CHUNK" by (simp add: buffer_consts)
  with buffer_check_alloc_exact [OF buffer_init_inv this] show ?thesis by simp
qed

text \<open>Beyond \<open>BUFFER_MAX_CHUNK\<close> the two do not agree: \<open>buffer_check_alloc\<close> accepts a chunk of 2 MB on a
  fresh buffer, although \<open>buffer_append\<close> of any chunk above 1 MB is fatal.\<close>

theorem buffer_check_alloc_misses_chunk_limit:
  "(\<exists>c. buffer_check_alloc buffer_init 0x200000 = Inr (True, c)) \<and>
   (\<forall>d. length d = 0x200000 \<longrightarrow>
      buffer_append buffer_init d = Inl (Fatal ''buffer_append_space: len''))"
proof
  have "check_alloc_restart (Suc (Suc 0)) buffer_init 0x200000 = Inr (True, buffer_init)"
    by (simp add: buffer_init_def buffer_compact_def buffer_consts roundup_def)
  then show "\<exists>c. buffer_check_alloc buffer_init 0x200000 = Inr (True, c)"
    by (simp add: buffer_check_alloc_def reset_empty_def numeral_2_eq_2 buffer_init_def)
  show "\<forall>d. length d = 0x200000 \<longrightarrow>
      buffer_append buffer_init d = Inl (Fatal ''buffer_append_space: len'')"
    using buffer_append_too_long by simp
qed

theorem buffer_check_alloc_misses_chunk_limit_witness:
  "buffer_append buffer_init (replicate 0x200000 1) = Inl (Fatal ''buffer_append_space: len'')"
  using buffer_check_alloc_misses_chunk_limit by simp

text \<open>C35: a buffer is a queue: chunks appended one after the other to an empty buffer are read back in the
  same order with the same boundaries, and nothing is left.\<close>

theorem buffer_fifo:
  assumes "app_all buffer_append buffer_init ds = Inr b"
    and "list_all2 (\<lambda>n d. unat n = length d) ns ds"
  shows "\<exists>b'. get_all buffer_get b ns = Inr (ds, b') \<and> buffer_inv b' \<and> bytes b' = []"
  by (rule bq.fifo [OF buffer_init_inv bytes_init assms])

theorem buffer_fifo_witness:
  "\<exists>b b'. app_all buffer_append buffer_init [[1, 2], [3]] = Inr b \<and>
     get_all buffer_get b [2, 1] = Inr ([[1, 2], [3]], b') \<and> buffer_inv b' \<and> bytes b' = []"
proof -
  obtain b1 where b1: "buffer_append buffer_init [1, 2] = Inr b1" "room b1 0x8000"
    using append_room [of buffer_init "[1, 2]" "0x8000"] room_init by auto
  obtain b where b: "buffer_append b1 [3] = Inr b"
    using append_room [of b1 "[3]" 0] b1(2) by auto
  have a: "app_all buffer_append buffer_init [[1, 2], [3]] = Inr b" using b1 b by simp
  show ?thesis using buffer_fifo [OF a, of "[2, 1]"] a by simp
qed

end
