(* ===== verification/Wire.thy ===== *)
theory Wire
  imports Buf
begin

text \<open>
  The wire format of \<open>misc.cpp\<close> (\<open>get_u16\<close> ... \<open>put_u64\<close>) and \<open>bufaux.cpp\<close>: integers with the most
  significant byte first, characters and counted strings on a \<open>Buffer\<close>. The locale \<open>codec\<close> states what a
  matching pair of put and get functions promises; it is interpreted for each wire type.
\<close>

section \<open>Byte order (misc.cpp)\<close>

definition get_u64 :: "byte list \<Rightarrow> u64" where
  "get_u64 p =
     push_bit 56 (ucast (p ! 0)) OR push_bit 48 (ucast (p ! 1)) OR push_bit 40 (ucast (p ! 2)) OR
     push_bit 32 (ucast (p ! 3)) OR push_bit 24 (ucast (p ! 4)) OR push_bit 16 (ucast (p ! 5)) OR
     push_bit 8 (ucast (p ! 6)) OR ucast (p ! 7)"

definition get_u32 :: "byte list \<Rightarrow> u32" where
  "get_u32 p =
     push_bit 24 (ucast (p ! 0)) OR push_bit 16 (ucast (p ! 1)) OR push_bit 8 (ucast (p ! 2)) OR
     ucast (p ! 3)"

definition get_u16 :: "byte list \<Rightarrow> u16" where
  "get_u16 p = push_bit 8 (ucast (p ! 0)) OR ucast (p ! 1)"

definition put_u64 :: "u64 \<Rightarrow> byte list" where
  "put_u64 v =
     [ucast (drop_bit 56 v) AND 0xff, ucast (drop_bit 48 v) AND 0xff, ucast (drop_bit 40 v) AND 0xff,
      ucast (drop_bit 32 v) AND 0xff, ucast (drop_bit 24 v) AND 0xff, ucast (drop_bit 16 v) AND 0xff,
      ucast (drop_bit 8 v) AND 0xff, ucast v AND 0xff]"

definition put_u32 :: "u32 \<Rightarrow> byte list" where
  "put_u32 v =
     [ucast (drop_bit 24 v) AND 0xff, ucast (drop_bit 16 v) AND 0xff, ucast (drop_bit 8 v) AND 0xff,
      ucast v AND 0xff]"

definition put_u16 :: "u16 \<Rightarrow> byte list" where
  "put_u16 v = [ucast (drop_bit 8 v) AND 0xff, ucast v AND 0xff]"

section \<open>Values on a buffer (bufaux.cpp)\<close>

text \<open>A \<open>_ret\<close> function gives \<open>None\<close> for -1 or \<open>NULL\<close>, together with the buffer as it was left.\<close>

definition buffer_get_short_ret :: "Buffer \<Rightarrow> (u16 option \<times> Buffer) res" where
  "buffer_get_short_ret b =
     bindR (buffer_get_ret b 2) (\<lambda>(r, b). Inr (map_option get_u16 r, b))"

definition buffer_get_short :: "Buffer \<Rightarrow> (u16 \<times> Buffer) res" where
  "buffer_get_short b =
     bindR (buffer_get_short_ret b) (\<lambda>(r, b).
       case r of None \<Rightarrow> Inl (Fatal ''buffer_get_short: buffer error'') | Some v \<Rightarrow> Inr (v, b))"

definition buffer_get_int_ret :: "Buffer \<Rightarrow> (u32 option \<times> Buffer) res" where
  "buffer_get_int_ret b =
     bindR (buffer_get_ret b 4) (\<lambda>(r, b). Inr (map_option get_u32 r, b))"

definition buffer_get_int :: "Buffer \<Rightarrow> (u32 \<times> Buffer) res" where
  "buffer_get_int b =
     bindR (buffer_get_int_ret b) (\<lambda>(r, b).
       case r of None \<Rightarrow> Inl (Fatal ''buffer_get_int: buffer error'') | Some v \<Rightarrow> Inr (v, b))"

definition buffer_get_int64_ret :: "Buffer \<Rightarrow> (u64 option \<times> Buffer) res" where
  "buffer_get_int64_ret b =
     bindR (buffer_get_ret b 8) (\<lambda>(r, b). Inr (map_option get_u64 r, b))"

definition buffer_get_int64 :: "Buffer \<Rightarrow> (u64 \<times> Buffer) res" where
  "buffer_get_int64 b =
     bindR (buffer_get_int64_ret b) (\<lambda>(r, b).
       case r of None \<Rightarrow> Inl (Fatal ''buffer_get_int: buffer error'') | Some v \<Rightarrow> Inr (v, b))"

definition buffer_put_short :: "Buffer \<Rightarrow> u16 \<Rightarrow> Buffer res" where
  "buffer_put_short b v = buffer_append b (put_u16 v)"

definition buffer_put_int :: "Buffer \<Rightarrow> u32 \<Rightarrow> Buffer res" where
  "buffer_put_int b v = buffer_append b (put_u32 v)"

definition buffer_put_int64 :: "Buffer \<Rightarrow> u64 \<Rightarrow> Buffer res" where
  "buffer_put_int64 b v = buffer_append b (put_u64 v)"

text \<open>The string is returned without the null byte that is written behind it.\<close>

definition buffer_get_string_ret :: "Buffer \<Rightarrow> (byte list option \<times> Buffer) res" where
  "buffer_get_string_ret b =
     bindR (buffer_get_int b) (\<lambda>(len, b).
       if len > 256 * 1024 then Inr (None, b)
       else bindR (xmalloc (unat (len + 1))) (\<lambda>_. buffer_get_ret b len))"

definition buffer_get_string :: "Buffer \<Rightarrow> (byte list \<times> Buffer) res" where
  "buffer_get_string b =
     bindR (buffer_get_string_ret b) (\<lambda>(r, b).
       case r of None \<Rightarrow> Inl (Fatal ''buffer_get_string: buffer error'') | Some d \<Rightarrow> Inr (d, b))"

text \<open>The pointer into the buffer is modelled by the \<open>len\<close> bytes behind it.\<close>

definition buffer_get_string_ptr :: "Buffer \<Rightarrow> (byte list \<times> Buffer) res" where
  "buffer_get_string_ptr b =
     bindR (buffer_get_int b) (\<lambda>(len, b).
       if len > 256 * 1024 then Inl (Fatal ''buffer_get_string_ptr: bad string length'')
       else bindR (buffer_consume b len) (\<lambda>b'.
            bindR (mem_read (b_buf b) (unat (b_offset b)) (unat len)) (\<lambda>d. Inr (d, b'))))"

definition buffer_put_string :: "Buffer \<Rightarrow> byte list \<Rightarrow> Buffer res" where
  "buffer_put_string b s =
     bindR (buffer_put_int b (of_nat (length s))) (\<lambda>b. buffer_append b s)"

text \<open>A C string is the list of its bytes before the null byte; \<open>None\<close> is the null pointer.\<close>

definition buffer_put_cstring :: "Buffer \<Rightarrow> byte list option \<Rightarrow> Buffer res" where
  "buffer_put_cstring b s =
     (case s of None \<Rightarrow> Inl (Fatal ''buffer_put_cstring: s == NULL'')
      | Some s \<Rightarrow> buffer_put_string b (takeWhile (\<lambda>c. c \<noteq> 0) s))"

definition buffer_get_char_ret :: "Buffer \<Rightarrow> (byte option \<times> Buffer) res" where
  "buffer_get_char_ret b =
     bindR (buffer_get_ret b 1) (\<lambda>(r, b). Inr (map_option (\<lambda>d. d ! 0) r, b))"

definition buffer_get_char :: "Buffer \<Rightarrow> (byte \<times> Buffer) res" where
  "buffer_get_char b =
     bindR (buffer_get_char_ret b) (\<lambda>(r, b).
       case r of None \<Rightarrow> Inl (Fatal ''buffer_get_char: buffer error'') | Some c \<Rightarrow> Inr (c, b))"

definition buffer_put_char :: "Buffer \<Rightarrow> byte \<Rightarrow> Buffer res" where
  "buffer_put_char b v = buffer_append b [v]"

section \<open>Round trips of the byte order functions\<close>

lemma byte_and_ff [simp]: "(x :: byte) AND 0xff = x"
proof -
  have "(0xff :: byte) = - 1" by simp
  then show ?thesis by (simp only: and.right_neutral)
qed

lemma bit_push_byte:
  "bit (push_bit k (ucast (ucast (drop_bit k v :: 'a::len word) :: byte)) :: 'a word) n \<longleftrightarrow>
     k \<le> n \<and> n < k + 8 \<and> bit v n"
  by (auto simp: bit_simps dest: bit_imp_le_length)

lemma bit_low_byte: "bit (ucast (ucast (v :: 'a::len word) :: byte) :: 'a word) n \<longleftrightarrow> n < 8 \<and> bit v n"
  by (auto simp: bit_simps dest: bit_imp_le_length)

lemma put_u16_nth: "put_u16 v ! 0 = ucast (drop_bit 8 v)" "put_u16 v ! 1 = ucast v"
  by (simp_all add: put_u16_def)

lemma put_u32_nth:
  "put_u32 v ! 0 = ucast (drop_bit 24 v)" "put_u32 v ! 1 = ucast (drop_bit 16 v)"
  "put_u32 v ! 2 = ucast (drop_bit 8 v)" "put_u32 v ! 3 = ucast v"
  by (simp_all add: put_u32_def)

lemma put_u64_nth:
  "put_u64 v ! 0 = ucast (drop_bit 56 v)" "put_u64 v ! 1 = ucast (drop_bit 48 v)"
  "put_u64 v ! 2 = ucast (drop_bit 40 v)" "put_u64 v ! 3 = ucast (drop_bit 32 v)"
  "put_u64 v ! 4 = ucast (drop_bit 24 v)" "put_u64 v ! 5 = ucast (drop_bit 16 v)"
  "put_u64 v ! 6 = ucast (drop_bit 8 v)" "put_u64 v ! 7 = ucast v"
  by (simp_all add: put_u64_def)

lemmas byte_order = put_u16_nth put_u32_nth put_u64_nth bit_or_iff bit_push_byte bit_low_byte
  disj_assoc numeral_plus_numeral add_num_simps

lemma get_put_u16: "get_u16 (put_u16 v) = v"
proof (rule bit_word_eqI)
  fix n assume "n < LENGTH(16)"
  then have n: "n < 16" by simp
  have "bit (get_u16 (put_u16 v)) n \<longleftrightarrow>
      8 \<le> n \<and> n < 16 \<and> bit v n \<or>
      n < 8 \<and> bit v n"
    by (simp only: get_u16_def byte_order)
  then show "bit (get_u16 (put_u16 v)) n = bit v n" using n unfolding not_less [symmetric] by blast
qed

lemma get_put_u32: "get_u32 (put_u32 v) = v"
proof (rule bit_word_eqI)
  fix n assume "n < LENGTH(32)"
  then have n: "n < 32" by simp
  have "bit (get_u32 (put_u32 v)) n \<longleftrightarrow>
      24 \<le> n \<and> n < 32 \<and> bit v n \<or>
      16 \<le> n \<and> n < 24 \<and> bit v n \<or>
      8 \<le> n \<and> n < 16 \<and> bit v n \<or>
      n < 8 \<and> bit v n"
    by (simp only: get_u32_def byte_order)
  then show "bit (get_u32 (put_u32 v)) n = bit v n" using n unfolding not_less [symmetric] by blast
qed

lemma get_put_u64: "get_u64 (put_u64 v) = v"
proof (rule bit_word_eqI)
  fix n assume "n < LENGTH(64)"
  then have n: "n < 64" by simp
  have "bit (get_u64 (put_u64 v)) n \<longleftrightarrow>
      56 \<le> n \<and> n < 64 \<and> bit v n \<or>
      48 \<le> n \<and> n < 56 \<and> bit v n \<or>
      40 \<le> n \<and> n < 48 \<and> bit v n \<or>
      32 \<le> n \<and> n < 40 \<and> bit v n \<or>
      24 \<le> n \<and> n < 32 \<and> bit v n \<or>
      16 \<le> n \<and> n < 24 \<and> bit v n \<or>
      8 \<le> n \<and> n < 16 \<and> bit v n \<or>
      n < 8 \<and> bit v n"
    by (simp only: get_u64_def byte_order)
  then show "bit (get_u64 (put_u64 v)) n = bit v n" using n unfolding not_less [symmetric] by blast
qed

lemma length_put_u [simp]: "length (put_u16 x) = 2" "length (put_u32 y) = 4" "length (put_u64 z) = 8"
  by (simp_all add: put_u16_def put_u32_def put_u64_def)

lemma enc_dec_onto:
  fixes enc :: "'a::finite \<Rightarrow> byte list"
  assumes "\<And>v. dec (enc v) = v" "\<And>v. length (enc v) = n" "CARD('a) = 256 ^ n" "length p = n"
  shows "enc (dec p) = p"
proof -
  let ?L = "{p :: byte list. set p \<subseteq> UNIV \<and> length p = n}"
  have "card (range enc) = card ?L"
    using assms(1,3) card_lists_length_eq [of "UNIV :: byte set" n]
    by (simp add: card_word card_image inj_on_inverseI [of UNIV dec enc])
  moreover have "finite ?L" by (rule finite_lists_length_eq) simp
  ultimately have "range enc = ?L" using assms(2) by (intro card_subset_eq) auto
  then obtain v where "p = enc v" using assms(4) by auto
  then show ?thesis using assms(1) by simp
qed

lemma card_u: "CARD(u16) = 256 ^ 2" "CARD(u32) = 256 ^ 4" "CARD(u64) = 256 ^ 8"
  by (simp_all add: card_word)

lemma put_get_u16: "length p = 2 \<Longrightarrow> put_u16 (get_u16 p) = p"
  by (rule enc_dec_onto [OF get_put_u16 length_put_u(1) card_u(1)])

lemma put_get_u32: "length p = 4 \<Longrightarrow> put_u32 (get_u32 p) = p"
  by (rule enc_dec_onto [OF get_put_u32 length_put_u(2) card_u(2)])

lemma put_get_u64: "length p = 8 \<Longrightarrow> put_u64 (get_u64 p) = p"
  by (rule enc_dec_onto [OF get_put_u64 length_put_u(3) card_u(3)])

section \<open>The interface: matching put and get functions\<close>

text \<open>
  \<open>enc v\<close> is the wire image of \<open>v\<close> and \<open>ok v\<close> the values \<open>get\<close> accepts. \<open>put\<close> may fail for lack
  of space; \<open>get\<close> succeeds on a buffer that starts with the image of an accepted value. In a \<open>codec\<close> it
  succeeds on no other buffer.
\<close>

primrec put_seq :: "(Buffer \<Rightarrow> 'v \<Rightarrow> Buffer res) \<Rightarrow> Buffer \<Rightarrow> 'v list \<Rightarrow> Buffer res" where
  "put_seq put b [] = Inr b"
| "put_seq put b (v # vs) = bindR (put b v) (\<lambda>b. put_seq put b vs)"

primrec get_seq :: "(Buffer \<Rightarrow> ('v \<times> Buffer) res) \<Rightarrow> nat \<Rightarrow> Buffer \<Rightarrow> ('v list \<times> Buffer) res" where
  "get_seq get 0 b = Inr ([], b)"
| "get_seq get (Suc n) b =
     bindR (get b) (\<lambda>(v, b). bindR (get_seq get n b) (\<lambda>(vs, b). Inr (v # vs, b)))"

locale wire_type =
  fixes enc :: "'v \<Rightarrow> byte list" and ok :: "'v \<Rightarrow> bool"
    and put :: "Buffer \<Rightarrow> 'v \<Rightarrow> Buffer res" and get :: "Buffer \<Rightarrow> ('v \<times> Buffer) res"
  assumes put_Inr: "buffer_inv b \<Longrightarrow> put b v = Inr b' \<Longrightarrow> buffer_inv b' \<and> bytes b' = bytes b @ enc v"
    and get_ok: "buffer_inv b \<Longrightarrow> ok v \<Longrightarrow> bytes b = enc v @ r \<Longrightarrow>
      \<exists>b'. get b = Inr (v, b') \<and> buffer_inv b' \<and> bytes b' = r"
begin

lemma unambiguous:
  assumes "buffer_inv b" "ok v" "ok w" "bytes b = enc v @ r" "enc v @ r = enc w @ s"
  shows "v = w \<and> r = s"
proof -
  have "bytes b = enc w @ s" using assms(4,5) by (rule trans)
  then obtain c where "get b = Inr (w, c)" "bytes c = s" using get_ok [OF assms(1,3)] by blast
  moreover obtain d where "get b = Inr (v, d)" "bytes d = r" using get_ok [OF assms(1,2,4)] by blast
  ultimately show ?thesis by simp
qed

lemma put_seq_Inr:
  "buffer_inv b \<Longrightarrow> put_seq put b vs = Inr b' \<Longrightarrow>
     buffer_inv b' \<and> bytes b' = bytes b @ concat (map enc vs)"
proof (induction vs arbitrary: b)
  case (Cons v vs)
  then obtain c where "put b v = Inr c" "put_seq put c vs = Inr b'" by (auto simp: res_simps)
  with Cons.IH [of c] put_Inr [OF Cons.prems(1)] show ?case by auto
qed simp

lemma get_seq_ok:
  "buffer_inv b \<Longrightarrow> list_all ok vs \<Longrightarrow> bytes b = concat (map enc vs) @ r \<Longrightarrow>
     \<exists>b'. get_seq get (length vs) b = Inr (vs, b') \<and> buffer_inv b' \<and> bytes b' = r"
proof (induction vs arbitrary: b)
  case (Cons v vs)
  then obtain c where c: "get b = Inr (v, c)" "buffer_inv c" "bytes c = concat (map enc vs) @ r"
    using get_ok [of b v "concat (map enc vs) @ r"] by auto
  from Cons.IH [OF c(2) _ c(3)] Cons.prems(2) c(1) show ?case by auto
qed simp

lemma put_get_seq:
  assumes "buffer_inv b" "bytes b = []" "list_all ok vs" "put_seq put b vs = Inr b'"
  shows "\<exists>b''. get_seq get (length vs) b' = Inr (vs, b'') \<and> buffer_inv b'' \<and> bytes b'' = []"
  using put_seq_Inr [OF assms(1,4)] get_seq_ok [of b' vs "[]"] assms(2,3) by simp

end

locale codec = wire_type +
  assumes get_Inr: "buffer_inv b \<Longrightarrow> get b = Inr (v, b') \<Longrightarrow>
      buffer_inv b' \<and> ok v \<and> bytes b = enc v @ bytes b'"
begin

lemma get_iff:
  assumes "buffer_inv b"
  shows "(\<exists>b'. get b = Inr (v, b')) \<longleftrightarrow> ok v \<and> (\<exists>r. bytes b = enc v @ r)"
  using get_ok [OF assms, of v] get_Inr [OF assms, of v] by blast

end

section \<open>The wire types implement the interface\<close>

lemma fixed_width_codec:
  assumes "\<And>v. dec (enc v) = v" "\<And>v. length (enc v) = unat k" "\<And>p. length p = unat k \<Longrightarrow> enc (dec p) = p"
    and put: "\<And>b v. put b v = buffer_append b (enc v)"
    and get: "\<And>b. get b = bindR (buffer_get_ret b k) (\<lambda>(r, b).
      case r of None \<Rightarrow> Inl e | Some d \<Rightarrow> Inr (dec d, b))"
  shows "codec enc (\<lambda>_. True) put get"
proof
  show "buffer_inv b' \<and> bytes b' = bytes b @ enc v" if "buffer_inv b" "put b v = Inr b'" for b v b'
    using that buffer_append_Inr [of b "enc v" b'] by (simp add: put)
  show "\<exists>b'. get b = Inr (v, b') \<and> buffer_inv b' \<and> bytes b' = r"
    if "buffer_inv b" "bytes b = enc v @ r" for b v r
    using that buffer_get_ret_spec(2) [OF that(1), of k] advance_offset [OF that(1), of k]
    by (simp add: get assms(1,2))
  show "buffer_inv b' \<and> True \<and> bytes b = enc v @ bytes b'"
    if "buffer_inv b" "get b = Inr (v, b')" for b v b'
  proof -
    have le: "unat k \<le> length (bytes b)"
      using that buffer_get_ret_spec(1) [OF that(1), of k] by (cases "length (bytes b) < unat k") (auto simp: get)
    then have "v = dec (take (unat k) (bytes b))" "b' = b\<lparr>b_offset := b_offset b + k\<rparr>"
      using that(2) buffer_get_ret_spec(2) [OF that(1) le] by (simp_all add: get)
    then show ?thesis using advance_offset [OF that(1) le] assms(3) [of "take (unat k) (bytes b)"] le by simp
  qed
qed

lemma codec_short: "codec put_u16 (\<lambda>_. True) buffer_put_short buffer_get_short"
  by (rule fixed_width_codec [where k = 2 and dec = get_u16 and e = "Fatal ''buffer_get_short: buffer error''"])
     (auto simp: get_put_u16 put_get_u16 buffer_put_short_def buffer_get_short_def
        buffer_get_short_ret_def bindR_assoc intro!: bindR_cong split: option.split)

lemma codec_int: "codec put_u32 (\<lambda>_. True) buffer_put_int buffer_get_int"
  by (rule fixed_width_codec [where k = 4 and dec = get_u32 and e = "Fatal ''buffer_get_int: buffer error''"])
     (auto simp: get_put_u32 put_get_u32 buffer_put_int_def buffer_get_int_def
        buffer_get_int_ret_def bindR_assoc intro!: bindR_cong split: option.split)

lemma codec_int64: "codec put_u64 (\<lambda>_. True) buffer_put_int64 buffer_get_int64"
  by (rule fixed_width_codec [where k = 8 and dec = get_u64 and e = "Fatal ''buffer_get_int: buffer error''"])
     (auto simp: get_put_u64 put_get_u64 buffer_put_int64_def buffer_get_int64_def
        buffer_get_int64_ret_def bindR_assoc intro!: bindR_cong split: option.split)

lemma codec_char: "codec (\<lambda>c. [c]) (\<lambda>_. True) buffer_put_char buffer_get_char"
  by (rule fixed_width_codec [where k = 1 and dec = "\<lambda>d. d ! 0" and e = "Fatal ''buffer_get_char: buffer error''"])
     (auto simp: buffer_put_char_def buffer_get_char_def length_Suc_conv
        buffer_get_char_ret_def bindR_assoc intro!: bindR_cong split: option.split)

interpretation wshort: codec put_u16 "\<lambda>_. True" buffer_put_short buffer_get_short by (rule codec_short)
interpretation wint: codec put_u32 "\<lambda>_. True" buffer_put_int buffer_get_int by (rule codec_int)
interpretation wint64: codec put_u64 "\<lambda>_. True" buffer_put_int64 buffer_get_int64 by (rule codec_int64)
interpretation wchar: codec "\<lambda>c. [c]" "\<lambda>_. True" buffer_put_char buffer_get_char by (rule codec_char)

text \<open>Counted strings: \<open>buffer_put_string\<close> writes any string that fits, the getters accept at most
  256 kB.\<close>

definition enc_string :: "byte list \<Rightarrow> byte list" where
  "enc_string s = put_u32 (of_nat (length s)) @ s"

definition ok_string :: "byte list \<Rightarrow> bool" where
  "ok_string s \<longleftrightarrow> length s \<le> 256 * 1024"

lemma put_string_Inr:
  assumes "buffer_inv b" "buffer_put_string b s = Inr b'"
  shows "buffer_inv b' \<and> bytes b' = bytes b @ enc_string s"
proof -
  obtain c where c: "buffer_put_int b (of_nat (length s)) = Inr c" "buffer_append c s = Inr b'"
    using assms(2) by (auto simp: buffer_put_string_def res_simps)
  from wint.put_Inr [OF assms(1) c(1)] buffer_append_Inr [OF c(2)]
  show ?thesis by (simp add: enc_string_def)
qed

lemma get_string_ret_ok:
  assumes "buffer_inv b" "ok_string s" "bytes b = enc_string s @ r"
  shows "\<exists>b'. buffer_get_string_ret b = Inr (Some s, b') \<and> buffer_inv b' \<and> bytes b' = r"
proof -
  let ?n = "of_nat (length s) :: u32"
  have u: "unat ?n = length s" using assms(2) by (simp add: ok_string_def)
  obtain c where c: "buffer_get_int b = Inr (?n, c)" "buffer_inv c" "bytes c = s @ r"
    using wint.get_ok [OF assms(1), of ?n "s @ r"] assms(3) by (auto simp: enc_string_def)
  have "unat (?n + 1) = length s + 1"
    using u assms(2) by (subst unat_plus_u32) (simp_all add: ok_string_def)
  moreover have "\<not> ?n > 256 * 1024" using u assms(2) by (simp add: word_less_nat_alt ok_string_def)
  ultimately show ?thesis
    using c u buffer_get_ret_spec(2) [OF c(2), of ?n] advance_offset [OF c(2), of ?n]
    by (simp add: buffer_get_string_ret_def xmalloc_def)
qed

lemma get_string_ret_Inr:
  assumes "buffer_inv b" "buffer_get_string_ret b = Inr (Some s, b')"
  shows "buffer_inv b' \<and> ok_string s \<and> bytes b = enc_string s @ bytes b'"
proof -
  obtain n c where c: "buffer_get_int b = Inr (n, c)" "\<not> n > 256 * 1024" "buffer_get_ret c n = Inr (Some s, b')"
    using assms(2) by (auto simp: buffer_get_string_ret_def res_simps split: if_splits)
  have i: "buffer_inv c" "bytes b = put_u32 n @ bytes c" using wint.get_Inr [OF assms(1) c(1)] by simp_all
  have g: "buffer_get c n = Inr (s, b')" using c(3) by (simp add: buffer_get_def)
  note gi = buffer_get_Inr [OF i(1) g]
  have "n = of_nat (length s)" using gi(3) by simp
  moreover have "length s \<le> 256 * 1024" using gi(3) c(2) by (simp add: word_less_nat_alt)
  ultimately show ?thesis using gi i(2) by (simp add: enc_string_def ok_string_def)
qed

lemma codec_string: "codec enc_string ok_string buffer_put_string buffer_get_string"
proof
  show "buffer_inv b' \<and> bytes b' = bytes b @ enc_string v"
    if "buffer_inv b" "buffer_put_string b v = Inr b'" for b v b'
    using that by (rule put_string_Inr)
  show "\<exists>b'. buffer_get_string b = Inr (v, b') \<and> buffer_inv b' \<and> bytes b' = r"
    if "buffer_inv b" "ok_string v" "bytes b = enc_string v @ r" for b v r
    using get_string_ret_ok [OF that] by (auto simp: buffer_get_string_def)
  show "buffer_inv b' \<and> ok_string v \<and> bytes b = enc_string v @ bytes b'"
    if "buffer_inv b" "buffer_get_string b = Inr (v, b')" for b v b'
    using that get_string_ret_Inr [OF that(1)]
    by (auto simp: buffer_get_string_def res_simps split: option.splits)
qed

interpretation wstring: codec enc_string ok_string buffer_put_string buffer_get_string
  by (rule codec_string)

lemma put_int_room:
  "room b (0x8003 + n) \<Longrightarrow> \<exists>b'. buffer_put_int b v = Inr b' \<and> room b' n \<and> bytes b' = bytes b @ put_u32 v"
  using append_room [of b "put_u32 v" n] by (simp add: buffer_put_int_def)

lemma put_int64_room:
  "room b (0x8007 + n) \<Longrightarrow> \<exists>b'. buffer_put_int64 b v = Inr b' \<and> room b' n \<and> bytes b' = bytes b @ put_u64 v"
  using append_room [of b "put_u64 v" n] by (simp add: buffer_put_int64_def)

lemma put_char_room:
  "room b (0x8000 + n) \<Longrightarrow> \<exists>b'. buffer_put_char b v = Inr b' \<and> room b' n \<and> bytes b' = bytes b @ [v]"
  using append_room [of b "[v]" n] by (simp add: buffer_put_char_def)

lemma put_string_room:
  assumes "room b (length s + 0x10002 + n)" "length s \<le> 0x100000"
  shows "\<exists>b'. buffer_put_string b s = Inr b' \<and> room b' n \<and> bytes b' = bytes b @ enc_string s"
proof -
  have "room b (0x8003 + (length s + 0x7fff + n))" using assms(1) by (simp add: room_def)
  then obtain c where "buffer_put_int b (of_nat (length s)) = Inr c" "room c (length s + 0x7fff + n)"
      "bytes c = bytes b @ put_u32 (of_nat (length s))" using put_int_room by blast
  with append_room [OF this(2) assms(2)] show ?thesis
    by (auto simp: buffer_put_string_def enc_string_def)
qed

section \<open>Properties\<close>

text \<open>The big-endian readers and writers of \<open>misc.cpp\<close> are inverse to each other at every width, in both
  directions.\<close>

theorem byte_order_round_trips:
  "get_u16 (put_u16 x) = x \<and> get_u32 (put_u32 y) = y \<and> get_u64 (put_u64 z) = z \<and>
   (length p = 2 \<longrightarrow> put_u16 (get_u16 p) = p) \<and> (length p = 4 \<longrightarrow> put_u32 (get_u32 p) = p) \<and>
   (length p = 8 \<longrightarrow> put_u64 (get_u64 p) = p)"
  by (simp add: get_put_u16 get_put_u32 get_put_u64 put_get_u16 put_get_u32 put_get_u64)

theorem byte_order_round_trips_witness: "put_u32 (get_u32 [0xde, 0xad, 0xbe, 0xef]) = [0xde, 0xad, 0xbe, 0xef]"
  using byte_order_round_trips [where p = "[0xde, 0xad, 0xbe, 0xef]"] by simp

text \<open>C37: any sequence of strings of at most 256 kB written with \<open>buffer_put_string\<close> to an empty buffer is read
  back by \<open>buffer_get_string\<close> in order and without remainder.\<close>

theorem string_round_trip:
  assumes "list_all ok_string ss" "put_seq buffer_put_string buffer_init ss = Inr b"
  shows "\<exists>b'. get_seq buffer_get_string (length ss) b = Inr (ss, b') \<and> buffer_inv b' \<and> bytes b' = []"
  by (rule wstring.put_get_seq [OF buffer_init_inv bytes_init assms])

theorem string_round_trip_witness:
  "\<exists>b b'. list_all ok_string [[104, 105], []] \<and> put_seq buffer_put_string buffer_init [[104, 105], []] = Inr b \<and>
     get_seq buffer_get_string 2 b = Inr ([[104, 105], []], b') \<and> buffer_inv b' \<and> bytes b' = []"
proof -
  obtain b1 where b1: "buffer_put_string buffer_init [104, 105] = Inr b1" "room b1 0x10002"
    using put_string_room [of buffer_init "[104, 105]" "0x10002"] room_init by auto
  obtain b where b: "buffer_put_string b1 [] = Inr b"
    using put_string_room [of b1 "[]" 0] b1(2) by auto
  have a: "put_seq buffer_put_string buffer_init [[104, 105], []] = Inr b" using b1 b by simp
  have "list_all ok_string [[104, 105], []]" by (simp add: ok_string_def)
  with string_round_trip [OF this a] a show ?thesis by (auto simp: numeral_2_eq_2)
qed

end
