(* ===== verification/Bignum.thy ===== *)
theory Bignum
  imports Wire
begin

text \<open>
  \<open>bufbn.cpp\<close>: multiprecision integers on a \<open>Buffer\<close>, in the format of SSH 1 (bit count) and of SSH 2
  (counted two's complement string). A \<open>BIGNUM\<close> of OpenSSL is its integer value; the functions of OpenSSL
  are parameters, and the locale \<open>openssl_bn\<close> states what their manual promises: the length in bits, and
  the conversion to and from bytes, most significant first.
\<close>

record bn_lib =
  BN_num_bits :: "int \<Rightarrow> int"
  BN_bn2bin :: "int \<Rightarrow> byte list"
  BN_bin2bn :: "byte list \<Rightarrow> int option"

definition BN_num_bytes :: "bn_lib \<Rightarrow> int \<Rightarrow> int" where
  "BN_num_bytes L v = (BN_num_bits L v + 7) div 8"

section \<open>Operations\<close>

definition buffer_put_bignum_ret :: "bn_lib \<Rightarrow> Buffer \<Rightarrow> int \<Rightarrow> (bool \<times> Buffer) res" where
  "buffer_put_bignum_ret L b v =
     (let bits = BN_num_bits L v; bin_size = (bits + 7) div 8; bin = BN_bn2bin L v in
      bindR (xmalloc (nat bin_size)) (\<lambda>m.
      bindR (mem_write m 0 bin) (\<lambda>m.
        if int (length bin) \<noteq> bin_size then Inr (False, b)
        else bindR (buffer_append b (put_u16 (word_of_int bits))) (\<lambda>b.
             bindR (buffer_append b (take (length bin) m)) (\<lambda>b. Inr (True, b))))))"

definition buffer_put_bignum :: "bn_lib \<Rightarrow> Buffer \<Rightarrow> int \<Rightarrow> Buffer res" where
  "buffer_put_bignum L b v =
     bindR (buffer_put_bignum_ret L b v) (\<lambda>(ok, b).
       if ok then Inr b else Inl (Fatal ''buffer_put_bignum: buffer error''))"

definition buffer_get_bignum_ret :: "bn_lib \<Rightarrow> Buffer \<Rightarrow> (int option \<times> Buffer) res" where
  "buffer_get_bignum_ret L b =
     bindR (buffer_get_ret b 2) (\<lambda>(r, b).
       case r of None \<Rightarrow> Inr (None, b)
       | Some d \<Rightarrow>
           let bits = ucast (get_u16 d) :: u32; n = (bits + 7) div 8 in
           if n > 8 * 1024 then Inr (None, b)
           else if buffer_len b < n then Inr (None, b)
           else bindR (mem_read (b_buf b) (unat (b_offset b)) (unat n)) (\<lambda>bin.
             case BN_bin2bn L bin of None \<Rightarrow> Inr (None, b)
             | Some v \<Rightarrow> (let (ok, b) = buffer_consume_ret b n in
                 Inr (if ok then Some v else None, b))))"

definition buffer_get_bignum :: "bn_lib \<Rightarrow> Buffer \<Rightarrow> (int \<times> Buffer) res" where
  "buffer_get_bignum L b =
     bindR (buffer_get_bignum_ret L b) (\<lambda>(r, b).
       case r of None \<Rightarrow> Inl (Fatal ''buffer_get_bignum: buffer error'') | Some v \<Rightarrow> Inr (v, b))"

definition buffer_put_bignum2_ret :: "bn_lib \<Rightarrow> Buffer \<Rightarrow> int \<Rightarrow> (bool \<times> Buffer) res" where
  "buffer_put_bignum2_ret L b v =
     (if v = 0 then bindR (buffer_put_int b 0) (\<lambda>b. Inr (True, b))
      else if v < 0 then Inr (False, b)
      else
        let n = word_of_int (BN_num_bytes L v) + 1 :: u32; bin = BN_bn2bin L v in
        if n < 2 then Inr (False, b)
        else bindR (xmalloc (unat n)) (\<lambda>m.
             bindR (mem_write m 0 [0]) (\<lambda>m.
             bindR (mem_write m 1 bin) (\<lambda>m.
               if length bin \<noteq> unat (n - 1) then Inr (False, b)
               else
                 let hasnohigh = (if (m ! 1) AND 0x80 \<noteq> 0 then 0 else 1) in
                 bindR (buffer_put_string b (drop hasnohigh m)) (\<lambda>b. Inr (True, b))))))"

definition buffer_put_bignum2 :: "bn_lib \<Rightarrow> Buffer \<Rightarrow> int \<Rightarrow> Buffer res" where
  "buffer_put_bignum2 L b v =
     bindR (buffer_put_bignum2_ret L b v) (\<lambda>(ok, b).
       if ok then Inr b else Inl (Fatal ''buffer_put_bignum2: buffer error''))"

definition buffer_get_bignum2_ret :: "bn_lib \<Rightarrow> Buffer \<Rightarrow> (int option \<times> Buffer) res" where
  "buffer_get_bignum2_ret L b =
     bindR (buffer_get_string_ret b) (\<lambda>(r, b).
       case r of None \<Rightarrow> Inr (None, b)
       | Some bin \<Rightarrow>
           if length bin > 0 \<and> (bin ! 0) AND 0x80 \<noteq> 0 then Inr (None, b)
           else if length bin > 8 * 1024 then Inr (None, b)
           else Inr (BN_bin2bn L bin, b))"

definition buffer_get_bignum2 :: "bn_lib \<Rightarrow> Buffer \<Rightarrow> (int \<times> Buffer) res" where
  "buffer_get_bignum2 L b =
     bindR (buffer_get_bignum2_ret L b) (\<lambda>(r, b).
       case r of None \<Rightarrow> Inl (Fatal ''buffer_get_bignum2: buffer error'') | Some v \<Rightarrow> Inr (v, b))"

section \<open>Big-endian numbers and the contract of OpenSSL\<close>

definition be_val :: "byte list \<Rightarrow> nat" where
  "be_val bs = foldl (\<lambda>a b. a * 256 + unat b) 0 bs"

lemma be_val_Nil [simp]: "be_val [] = 0"
  by (simp add: be_val_def)

lemma be_val_snoc [simp]: "be_val (bs @ [b]) = be_val bs * 256 + unat b"
  by (simp add: be_val_def)

lemma be_val_zero [simp]: "be_val (0 # bs) = be_val bs"
  by (simp add: be_val_def)

locale openssl_bn =
  fixes L :: bn_lib
  assumes bits_zero: "BN_num_bits L 0 = 0"
    and bits_pos: "0 < v \<Longrightarrow> 0 < BN_num_bits L v"
    and bin_length: "0 \<le> v \<Longrightarrow> int (length (BN_bn2bin L v)) = BN_num_bytes L v"
    and bin_value: "0 \<le> v \<Longrightarrow> be_val (BN_bn2bin L v) = nat v"
    and bin2bn_value: "BN_bin2bn L bs = Some (int (be_val bs))"
begin

lemma bin2bn_bn2bin: "0 \<le> v \<Longrightarrow> BN_bin2bn L (BN_bn2bin L v) = Some v"
  by (simp add: bin2bn_value bin_value)

lemma bin2bn_padded: "0 \<le> v \<Longrightarrow> BN_bin2bn L (0 # BN_bn2bin L v) = Some v"
  by (simp add: bin2bn_value bin_value)

lemma bin_not_Nil: "0 < v \<Longrightarrow> BN_bn2bin L v \<noteq> []"
  using bin_value [of v] by auto

end

section \<open>SSH 2 integers\<close>

definition high_bit :: "byte \<Rightarrow> bool" where
  "high_bit x \<longleftrightarrow> x AND 0x80 \<noteq> 0"

text \<open>The bytes of the string that carries a number: padded with a zero byte if the first bit is set.\<close>

definition mpint :: "bn_lib \<Rightarrow> int \<Rightarrow> byte list" where
  "mpint L v =
     (if v = 0 then [] else let d = BN_bn2bin L v in if high_bit (d ! 0) then 0 # d else d)"

definition enc_bignum2 :: "bn_lib \<Rightarrow> int \<Rightarrow> byte list" where
  "enc_bignum2 L v = enc_string (mpint L v)"

definition ok_bignum2 :: "bn_lib \<Rightarrow> int \<Rightarrow> bool" where
  "ok_bignum2 L v \<longleftrightarrow> 0 \<le> v \<and> BN_num_bits L v \<le> 65528"

context openssl_bn
begin

lemma length_mpint:
  assumes "ok_bignum2 L v"
  shows "length (mpint L v) \<le> 8192" and "length (BN_bn2bin L v) \<le> 8191"
proof -
  have "BN_num_bytes L v \<le> 8191"
    using assms zdiv_mono1 [of "BN_num_bits L v + 7" 65535 8] by (simp add: ok_bignum2_def BN_num_bytes_def)
  then show l: "length (BN_bn2bin L v) \<le> 8191" using bin_length [of v] assms by (simp add: ok_bignum2_def)
  show "length (mpint L v) \<le> 8192" using l by (simp add: mpint_def Let_def)
qed

lemma put_bignum2_eq:
  assumes "ok_bignum2 L v"
  shows "buffer_put_bignum2 L b v = (if v = 0 then buffer_put_int b 0 else buffer_put_string b (mpint L v))"
proof (cases "v = 0")
  case True
  then show ?thesis
    by (cases "buffer_put_int b 0") (simp_all add: buffer_put_bignum2_def buffer_put_bignum2_ret_def)
next
  case False
  then have v: "0 < v" using assms by (simp add: ok_bignum2_def)
  let ?bin = "BN_bn2bin L v"
  define n where "n = (word_of_int (BN_num_bytes L v) + 1 :: u32)"
  have len: "int (length ?bin) = BN_num_bytes L v" using bin_length v by simp
  have "n = of_nat (length ?bin + 1)" by (simp add: n_def len [symmetric] add.commute)
  then have un: "unat n = length ?bin + 1" using length_mpint(2) [OF assms] by (simp del: of_nat_add of_nat_Suc)
  have un1: "unat (n - 1) = length ?bin"
    using un by (subst unat_minus_u32) (simp_all add: word_le_nat_alt)
  have ne: "?bin \<noteq> []" by (rule bin_not_Nil [OF v])
  then have "\<not> n < 2" using un by (cases ?bin) (simp_all add: word_less_nat_alt)
  moreover have "mem_write (replicate (unat n) 0) 0 [0] = Inr (0 # replicate (length ?bin) 0)"
    by (simp add: mem_write_def un)
  moreover have "mem_write (0 # replicate (length ?bin) 0) 1 ?bin = Inr (0 # ?bin)"
    by (simp add: mem_write_def)
  moreover have "drop (if ((0 # ?bin) ! 1) AND 0x80 \<noteq> 0 then 0 else 1) (0 # ?bin) = mpint L v"
    using False by (simp add: mpint_def high_bit_def)
  ultimately have "buffer_put_bignum2_ret L b v =
      bindR (buffer_put_string b (mpint L v)) (\<lambda>b. Inr (True, b))"
    using v un un1 by (simp add: buffer_put_bignum2_ret_def n_def [symmetric] xmalloc_def Let_def)
  then show ?thesis using False
    by (cases "buffer_put_string b (mpint L v)") (simp_all add: buffer_put_bignum2_def)
qed

lemma bignum2_wire_type:
  "wire_type (enc_bignum2 L) (ok_bignum2 L) (\<lambda>b v. if ok_bignum2 L v then buffer_put_bignum2 L b v else Inl Diverge)
     (buffer_get_bignum2 L)"
proof
  show "buffer_inv b' \<and> bytes b' = bytes b @ enc_bignum2 L v"
    if "buffer_inv b" "(if ok_bignum2 L v then buffer_put_bignum2 L b v else Inl Diverge) = Inr b'" for b v b'
  proof -
    have ok: "ok_bignum2 L v" and "buffer_put_bignum2 L b v = Inr b'" using that(2) by (auto split: if_splits)
    then show ?thesis
      using wint.put_Inr [OF that(1), of 0 b'] put_string_Inr [OF that(1), of "mpint L v" b']
      by (auto simp: put_bignum2_eq enc_bignum2_def mpint_def enc_string_def split: if_splits)
  qed
  show "\<exists>b'. buffer_get_bignum2 L b = Inr (v, b') \<and> buffer_inv b' \<and> bytes b' = r"
    if a: "buffer_inv b" "ok_bignum2 L v" "bytes b = enc_bignum2 L v @ r" for b v r
  proof -
    have l: "length (mpint L v) \<le> 8192" using length_mpint [OF a(2)] by simp
    then have "ok_string (mpint L v)" by (simp add: ok_string_def)
    then obtain b' where g: "buffer_get_string_ret b = Inr (Some (mpint L v), b')" "buffer_inv b'" "bytes b' = r"
      using get_string_ret_ok [OF a(1), of "mpint L v" r] a(3) by (auto simp: enc_bignum2_def)
    have nh: "\<not> (length (mpint L v) > 0 \<and> (mpint L v ! 0) AND 0x80 \<noteq> 0)"
      by (auto simp: mpint_def high_bit_def Let_def)
    have "BN_bin2bn L (mpint L v) = Some v"
      using a(2) bin2bn_bn2bin [of v] bin2bn_padded [of v] by (simp add: mpint_def ok_bignum2_def Let_def bin2bn_value)
    then show ?thesis using g l nh by (simp add: buffer_get_bignum2_def buffer_get_bignum2_ret_def)
  qed
qed

lemma bignum2_round_trip_lib:
  assumes "ok_bignum2 L v" "buffer_put_bignum2 L buffer_init v = Inr b"
  shows "\<exists>b'. buffer_get_bignum2 L b = Inr (v, b') \<and> bytes b' = []"
proof -
  let ?put = "\<lambda>b v. if ok_bignum2 L v then buffer_put_bignum2 L b v else Inl Diverge"
  have "put_seq ?put buffer_init [v] = Inr b" using assms by simp
  from wire_type.put_get_seq [OF bignum2_wire_type buffer_init_inv bytes_init _ this] assms(1)
  show ?thesis by (auto simp: res_simps)
qed

lemma put_bignum2_room:
  assumes "ok_bignum2 L v" "room b (0x12002 + n)"
  shows "\<exists>b'. buffer_put_bignum2 L b v = Inr b' \<and> room b' n \<and> bytes b' = bytes b @ enc_bignum2 L v"
proof (cases "v = 0")
  case True
  have "room b (0x8003 + n)" using assms(2) by (rule room_mono) simp
  then show ?thesis using put_int_room [of b n 0]
    unfolding put_bignum2_eq [OF assms(1)] by (simp add: True enc_bignum2_def mpint_def enc_string_def)
next
  case False
  have l: "length (mpint L v) \<le> 8192" by (rule length_mpint(1) [OF assms(1)])
  have "room b (length (mpint L v) + 0x10002 + n)" using assms(2) by (rule room_mono) (use l in simp)
  then show ?thesis using put_string_room [of b "mpint L v" n] l False
    by (simp add: put_bignum2_eq [OF assms(1)] enc_bignum2_def)
qed

lemma put_bignum2_negative: "v < 0 \<Longrightarrow> buffer_put_bignum2 L b v = Inl (Fatal ''buffer_put_bignum2: buffer error'')"
  by (simp add: buffer_put_bignum2_def buffer_put_bignum2_ret_def)

end

section \<open>The contract is that of the integers\<close>

text \<open>The mathematical functions the manual describes satisfy the contract.\<close>

fun nbits :: "nat \<Rightarrow> nat" where
  "nbits n = (if n = 0 then 0 else Suc (nbits (n div 2)))"

fun be_bytes :: "nat \<Rightarrow> nat \<Rightarrow> byte list" where
  "be_bytes 0 n = []"
| "be_bytes (Suc k) n = be_bytes k (n div 256) @ [of_nat (n mod 256)]"

declare nbits.simps [simp del]

definition int_bn :: bn_lib where
  "int_bn = \<lparr>BN_num_bits = (\<lambda>v. int (nbits (nat v))),
     BN_bn2bin = (\<lambda>v. be_bytes ((nbits (nat v) + 7) div 8) (nat v)),
     BN_bin2bn = (\<lambda>bs. Some (int (be_val bs)))\<rparr>"

lemma nbits_0: "nbits 0 = 0"
  by (subst nbits.simps) simp

lemma less_nbits: "n < 2 ^ nbits n"
proof (induction n rule: nbits.induct)
  case (1 n)
  show ?case
  proof (cases "n = 0")
    case False
    then have "n div 2 < 2 ^ nbits (n div 2)" by (rule 1)
    then show ?thesis using False by (simp add: nbits.simps [of n])
  qed simp
qed

lemma length_be_bytes [simp]: "length (be_bytes k n) = k"
  by (induction k arbitrary: n) simp_all

lemma be_val_be_bytes: "n < 256 ^ k \<Longrightarrow> be_val (be_bytes k n) = n"
proof (induction k arbitrary: n)
  case (Suc k)
  have "n div 256 < 256 ^ k" using Suc.prems by (simp add: less_mult_imp_div_less mult.commute)
  then have "be_val (be_bytes k (n div 256)) = n div 256" by (rule Suc.IH)
  moreover have "unat (of_nat (n mod 256) :: byte) = n mod 256"
    by (simp add: unat_of_nat take_bit_nat_eq_self)
  ultimately show ?case by simp
qed simp

interpretation ibn: openssl_bn int_bn
proof
  show "BN_num_bits int_bn 0 = 0" by (simp add: int_bn_def nbits_0)
  show "0 < BN_num_bits int_bn v" if "0 < v" for v
    using that by (simp add: int_bn_def nbits.simps [of "nat v"])
  show "int (length (BN_bn2bin int_bn v)) = BN_num_bytes int_bn v" if "0 \<le> v" for v
    by (simp add: int_bn_def BN_num_bytes_def zdiv_int)
  show "be_val (BN_bn2bin int_bn v) = nat v" if "0 \<le> v" for v
  proof -
    let ?b = "nbits (nat v)"
    have "nat v < 2 ^ ?b" by (rule less_nbits)
    also have "\<dots> \<le> 2 ^ (8 * ((?b + 7) div 8))" by (rule power_increasing) (presburger, simp)
    also have "\<dots> = 256 ^ ((?b + 7) div 8)" by (simp add: power_mult)
    finally show ?thesis by (simp add: int_bn_def be_val_be_bytes)
  qed
qed (simp add: int_bn_def)

section \<open>Properties\<close>

text \<open>C34: a non-negative number of at most 65528 bits written with \<open>buffer_put_bignum2\<close> is read back by
  \<open>buffer_get_bignum2\<close>, for any implementation of the OpenSSL functions that honours their manual.\<close>

theorem bignum2_round_trip:
  assumes "openssl_bn L" "ok_bignum2 L v" "buffer_put_bignum2 L buffer_init v = Inr b"
  shows "\<exists>b'. buffer_get_bignum2 L b = Inr (v, b') \<and> bytes b' = []"
  by (rule openssl_bn.bignum2_round_trip_lib [OF assms])

theorem bignum2_round_trip_witness:
  "openssl_bn int_bn \<and> ok_bignum2 int_bn 128 \<and>
   (\<exists>b b'. buffer_put_bignum2 int_bn buffer_init 128 = Inr b \<and>
      buffer_get_bignum2 int_bn b = Inr (128, b') \<and> bytes b' = [])"
proof -
  have o: "openssl_bn int_bn" by (rule ibn.openssl_bn_axioms)
  have ok: "ok_bignum2 int_bn 128" by code_simp
  obtain b where b: "buffer_put_bignum2 int_bn buffer_init 128 = Inr b"
    using ibn.put_bignum2_room [OF ok room_init, of 0] by auto
  from bignum2_round_trip [OF o ok b] o ok b show ?thesis by blast
qed

end
