(* ===== verification/Match.thy ===== *)
theory Match
  imports Ssh_Prelude
begin

text \<open>
  \<open>match.cpp\<close>: wildcard patterns, lists of patterns and the choice of an algorithm from two proposals
  (\<open>match_list\<close>). A C string is the list of its characters before the null character. The lemmas relate
  the matcher to the declarative reading of a wildcard pattern and \<open>match_list\<close> to the rule of the key
  exchange: the first name of the client that the server supports.
\<close>

section \<open>Wildcard patterns\<close>

text \<open>The two inner loops of \<open>match_pattern\<close> over the positions of the string are \<open>match_scan\<close> (next character
  of the pattern known) and \<open>match_try\<close>.\<close>

function match_pattern :: "string \<Rightarrow> string \<Rightarrow> bool"
  and match_scan :: "string \<Rightarrow> char \<Rightarrow> string \<Rightarrow> bool"
  and match_try :: "string \<Rightarrow> string \<Rightarrow> bool" where
  "match_pattern s [] = (s = [])"
| "match_pattern s (c # p) =
     (if c = CHR ''*'' then
        (case p of [] \<Rightarrow> True
         | d # q \<Rightarrow> if d \<noteq> CHR ''?'' \<and> d \<noteq> CHR ''*'' then match_scan s d q else match_try s p)
      else (case s of [] \<Rightarrow> False
         | x # s' \<Rightarrow> if c \<noteq> CHR ''?'' \<and> c \<noteq> x then False else match_pattern s' p))"
| "match_scan [] d q = False"
| "match_scan (x # s) d q = (x = d \<and> match_pattern s q \<or> match_scan s d q)"
| "match_try [] p = False"
| "match_try (x # s) p = (match_pattern (x # s) p \<or> match_try s p)"
  by pat_completeness auto
termination
  by (relation "measures [\<lambda>a. case a of Inl (s, p) \<Rightarrow> length p | Inr (Inl (s, d, q)) \<Rightarrow> length q | Inr (Inr (s, p)) \<Rightarrow> length p,
        \<lambda>a. case a of Inl (s, p) \<Rightarrow> length s | Inr (Inl (s, d, q)) \<Rightarrow> length s | Inr (Inr (s, p)) \<Rightarrow> length s,
        \<lambda>a. case a of Inl (s, p) \<Rightarrow> 0 | Inr (Inl (s, d, q)) \<Rightarrow> 1 | Inr (Inr (s, p)) \<Rightarrow> 1]") auto

text \<open>\<open>tolower\<close> and \<open>isupper\<close> of the C locale.\<close>

definition is_upper :: "char \<Rightarrow> bool" where
  "is_upper c \<longleftrightarrow> 65 \<le> (of_char c :: nat) \<and> (of_char c :: nat) \<le> 90"

definition to_lower :: "char \<Rightarrow> char" where
  "to_lower c = (if is_upper c then char_of ((of_char c :: nat) + 32) else c)"

text \<open>One subpattern, up to a comma or the end and at most 1023 characters, and what follows it.\<close>

definition next_sub :: "string \<Rightarrow> string \<times> string" where
  "next_sub r1 =
     (let sub = takeWhile (\<lambda>c. c \<noteq> CHR '','') (take 1023 r1);
          r2 = drop (length sub) r1
      in (sub, if r2 \<noteq> [] \<and> hd r2 = CHR '','' then tl r2 else r2))"

definition skip_bang :: "string \<Rightarrow> string" where
  "skip_bang rest = (if hd rest = CHR ''!'' then tl rest else rest)"

lemma snd_next_sub_le: "length (snd (next_sub r)) \<le> length r"
  by (simp add: next_sub_def Let_def)

lemma next_sub_shorter:
  assumes "rest \<noteq> []" "next_sub (skip_bang rest) = (sub, r)"
  shows "length r < length rest"
proof (cases "hd rest = CHR ''!''")
  case True
  then have "length (skip_bang rest) < length rest" using assms by (cases rest) (simp_all add: skip_bang_def)
  then show ?thesis using snd_next_sub_le [of "skip_bang rest"] assms(2) by simp
next
  case False
  then obtain x t where r: "rest = x # t" "skip_bang rest = x # t"
    using assms(1) by (cases rest) (auto simp: skip_bang_def)
  have tk: "take 1023 (x # t) = x # take 1022 t" by (simp add: take_Cons')
  have "r = snd (next_sub (x # t))" using assms(2) r by simp
  then show ?thesis
    by (cases "x = CHR '',''") (simp_all only: r next_sub_def Let_def tk, auto)
qed

text \<open>The loop of \<open>match_pattern_list\<close> on the rest of the pattern. The arguments \<open>pattern\<close> and \<open>len\<close> of the
  source are one list here.\<close>

function pattern_list_loop :: "string \<Rightarrow> string \<Rightarrow> bool \<Rightarrow> int \<Rightarrow> int" where
  "pattern_list_loop str rest dolower got_positive =
     (if rest = [] then got_positive
      else case next_sub (skip_bang rest) of (sub, r) \<Rightarrow>
        if length sub \<ge> 1023 then 0
        else if match_pattern str (map (\<lambda>c. if dolower \<and> is_upper c then to_lower c else c) sub) then
          (if hd rest = CHR ''!'' then - 1 else pattern_list_loop str r dolower 1)
        else pattern_list_loop str r dolower got_positive)"
  by pat_completeness auto
termination
  by (relation "measure (\<lambda>(_, rest, _). length rest)") (auto intro: next_sub_shorter [OF _ sym])

declare pattern_list_loop.simps [simp del]

definition match_pattern_list :: "string \<Rightarrow> string \<Rightarrow> bool \<Rightarrow> int" where
  "match_pattern_list str pattern dolower = pattern_list_loop str pattern dolower 0"

definition match_hostname :: "string \<Rightarrow> string \<Rightarrow> int" where
  "match_hostname host pattern = match_pattern_list host pattern True"

section \<open>Lists of names\<close>

text \<open>\<open>strsep\<close> of the C library at a comma, on the pointer it updates.\<close>

fun strsep :: "string option \<Rightarrow> string option \<times> string option" where
  "strsep None = (None, None)"
| "strsep (Some s) =
     (Some (takeWhile (\<lambda>c. c \<noteq> CHR '','') s),
      case dropWhile (\<lambda>c. c \<noteq> CHR '','') s of [] \<Rightarrow> None | _ # r \<Rightarrow> Some r)"

definition left :: "string option \<Rightarrow> nat" where
  "left sp = (case sp of None \<Rightarrow> 0 | Some s \<Rightarrow> Suc (length s))"

lemma strsep_left: "strsep sp = (Some p, sp') \<Longrightarrow> left sp' < left sp"
proof (cases sp)
  case (Some s)
  assume "strsep sp = (Some p, sp')"
  moreover have "length (dropWhile (\<lambda>c. c \<noteq> CHR '','') s) \<le> length s" by (rule length_dropWhile_le)
  ultimately show ?thesis using Some by (auto simp: left_def split: list.splits)
qed simp

definition MAX_PROP :: nat where "MAX_PROP = 40"

function server_proposals :: "string option \<Rightarrow> nat \<Rightarrow> string list" where
  "server_proposals sp i =
     (case strsep sp of
        (None, _) \<Rightarrow> []
      | (Some p, sp') \<Rightarrow>
          if p = [] then [] else if i < MAX_PROP then p # server_proposals sp' (i + 1) else [])"
  by pat_completeness auto
termination by (relation "measure (\<lambda>(sp, _). left sp)") (auto intro: strsep_left [OF sym])

function client_loop :: "string list \<Rightarrow> string \<Rightarrow> string option \<Rightarrow> string option \<times> nat" where
  "client_loop sproposals c cp =
     (case strsep cp of
        (None, _) \<Rightarrow> (None, length c)
      | (Some p, cp') \<Rightarrow>
          if p = [] then (None, length c)
          else if p \<in> set sproposals then
            (Some p, case cp' of None \<Rightarrow> length c | Some r \<Rightarrow> length c - length r)
          else client_loop sproposals c cp')"
  by pat_completeness auto
termination by (relation "measure (\<lambda>(_, _, cp). left cp)") (auto intro: strsep_left [OF sym])

declare server_proposals.simps [simp del] client_loop.simps [simp del]

text \<open>The result with the value stored through \<open>next\<close>, the index in \<open>client\<close> behind the chosen name.\<close>

definition match_list :: "string \<Rightarrow> string \<Rightarrow> string option \<times> nat" where
  "match_list client server = client_loop (server_proposals (Some server) 0) client (Some client)"

section \<open>The meaning of a pattern\<close>

text \<open>The usual reading: a star stands for any string, a question mark for any character.\<close>

fun glob :: "string \<Rightarrow> string \<Rightarrow> bool" where
  "glob [] s \<longleftrightarrow> s = []"
| "glob (c # p) s \<longleftrightarrow>
     (if c = CHR ''*'' then (\<exists>n \<le> length s. glob p (drop n s))
      else (case s of [] \<Rightarrow> False | x # s' \<Rightarrow> (c = CHR ''?'' \<or> c = x) \<and> glob p s'))"

fun no_double_star :: "string \<Rightarrow> bool" where
  "no_double_star (c # d # p) \<longleftrightarrow> \<not> (c = CHR ''*'' \<and> d = CHR ''*'') \<and> no_double_star (d # p)"
| "no_double_star _ \<longleftrightarrow> True"

lemma no_double_star_tl: "no_double_star (c # p) \<Longrightarrow> no_double_star p"
  by (cases p) auto

lemma drop_ex_Suc: "(\<exists>n \<le> Suc k. P n) \<longleftrightarrow> P 0 \<or> (\<exists>n \<le> k. P (Suc n))"
proof
  assume "\<exists>n \<le> Suc k. P n"
  then obtain n where n: "n \<le> Suc k" "P n" by blast
  then show "P 0 \<or> (\<exists>n \<le> k. P (Suc n))" by (cases n) auto
qed auto

lemma match_loops:
  "no_double_star p \<Longrightarrow> match_pattern s p = glob p s"
  "no_double_star (d # q) \<Longrightarrow> d \<noteq> CHR ''?'' \<Longrightarrow> d \<noteq> CHR ''*'' \<Longrightarrow>
     match_scan s d q = (\<exists>n \<le> length s. glob (d # q) (drop n s))"
  "no_double_star p \<Longrightarrow> (\<exists>q. p = CHR ''?'' # q) \<Longrightarrow>
     match_try s p = (\<exists>n \<le> length s. glob p (drop n s))"
proof (induction s p and s d q and s p rule: match_pattern_match_scan_match_try.induct)
  case (2 s c p)
  show ?case
  proof (cases "c = CHR ''*''")
    case True
    show ?thesis
    proof (cases p)
      case Nil
      then show ?thesis using True by auto
    next
      case (Cons d q)
      then show ?thesis using True 2 by (cases "d = CHR ''?''") auto
    qed
  next
    case False
    then show ?thesis using 2 no_double_star_tl [of c p] by (auto split: list.split)
  qed
next
  case (4 x s d q)
  then show ?case using no_double_star_tl [of d q] by (auto simp: drop_ex_Suc)
next
  case (6 x s p)
  then show ?case by (auto simp: drop_ex_Suc)
qed auto

section \<open>The meaning of lists\<close>

fun commas :: "string \<Rightarrow> string list" where
  "commas [] = [[]]"
| "commas (c # s) =
     (if c = CHR '','' then [] # commas s else (case commas s of [] \<Rightarrow> [] | w # ws \<Rightarrow> (c # w) # ws))"

lemma commas_not_Nil [simp]: "commas s \<noteq> []"
  by (induction s) (auto split: list.split)

lemma commas_unfold:
  "commas s = takeWhile (\<lambda>c. c \<noteq> CHR '','') s #
     (case dropWhile (\<lambda>c. c \<noteq> CHR '','') s of [] \<Rightarrow> [] | _ # r \<Rightarrow> commas r)"
  by (induction s) (auto split: list.split)

text \<open>The names of a proposal: the loops stop at the first empty one.\<close>

definition names :: "string \<Rightarrow> string list" where
  "names s = takeWhile (\<lambda>p. p \<noteq> []) (commas s)"

lemma names_unfold:
  "names s = (case strsep (Some s) of
      (Some p, sp) \<Rightarrow> if p = [] then [] else p # (case sp of None \<Rightarrow> [] | Some r \<Rightarrow> names r)
    | _ \<Rightarrow> [])"
proof (cases "dropWhile (\<lambda>c. c \<noteq> CHR '','') s")
  case Nil
  then show ?thesis unfolding names_def by (subst commas_unfold) (simp only: strsep.simps, simp)
next
  case (Cons x r)
  then show ?thesis unfolding names_def by (subst commas_unfold) (simp only: strsep.simps, simp)
qed

lemma server_proposals_names:
  "server_proposals (Some s) i = take (MAX_PROP - i) (names s)"
proof (induction "length s" arbitrary: s i rule: less_induct)
  case less
  obtain p sp where sp: "strsep (Some s) = (Some p, sp)" by simp
  show ?case
  proof (cases sp)
    case None
    then have "server_proposals sp j = []" for j by (simp add: server_proposals.simps)
    then show ?thesis using sp None
      by (subst server_proposals.simps, subst names_unfold) (auto simp: Suc_diff_Suc [symmetric] take_Cons')
  next
    case (Some r)
    have "length r < length s" using strsep_left [OF sp] by (simp add: left_def Some)
    note less [OF this, of "Suc i"]
    then show ?thesis using sp Some
      by (subst server_proposals.simps, subst names_unfold) (auto simp: take_Cons')
  qed
qed

lemma client_loop_names: "fst (client_loop ps c (Some s)) = find (\<lambda>p. p \<in> set ps) (names s)"
proof (induction "length s" arbitrary: s rule: less_induct)
  case less
  obtain p sp where sp: "strsep (Some s) = (Some p, sp)" by simp
  show ?case
  proof (cases sp)
    case None
    then have "client_loop ps c sp = (None, length c)" by (simp add: client_loop.simps)
    then show ?thesis using sp None by (subst client_loop.simps, subst names_unfold) auto
  next
    case (Some r)
    have "length r < length s" using strsep_left [OF sp] by (simp add: left_def Some)
    note less [OF this]
    then show ?thesis using sp Some by (subst client_loop.simps, subst names_unfold) auto
  qed
qed

lemma fst_match_list:
  "fst (match_list client server) =
     find (\<lambda>p. p \<in> set (take MAX_PROP (names server))) (names client)"
  by (simp add: match_list_def client_loop_names server_proposals_names)

lemma match_list_in_server:
  "fst (match_list client server) = Some p \<Longrightarrow> p \<in> set (names server)"
  unfolding fst_match_list by (auto simp: find_Some_iff dest: in_set_takeD)

text \<open>The subpatterns of a pattern list; an empty one at the end does not count.\<close>

definition items :: "string \<Rightarrow> string list" where
  "items s = (let ws = commas s in if last ws = [] then butlast ws else ws)"

lemma items_Nil [simp]: "items [] = []"
  by (simp add: items_def)

lemma items_unfold:
  assumes "s \<noteq> []"
  shows "items s = takeWhile (\<lambda>c. c \<noteq> CHR '','') s #
     (case dropWhile (\<lambda>c. c \<noteq> CHR '','') s of [] \<Rightarrow> [] | _ # r \<Rightarrow> items r)"
proof (cases "dropWhile (\<lambda>c. c \<noteq> CHR '','') s")
  case Nil
  then have t: "takeWhile (\<lambda>c. c \<noteq> CHR '','') s = s" by (metis append_Nil2 takeWhile_dropWhile_id)
  then have "commas s = [s]" using commas_unfold [of s] by (simp only: Nil list.case)
  then show ?thesis using assms by (simp only: items_def t Nil list.case Let_def last.simps if_False) simp
next
  case (Cons x r)
  then have "commas s = takeWhile (\<lambda>c. c \<noteq> CHR '','') s # commas r" using commas_unfold [of s] by simp
  then show ?thesis using Cons by (simp add: items_def Let_def)
qed

lemma takeWhile_take: "length (takeWhile P l) < n \<Longrightarrow> takeWhile P (take n l) = takeWhile P l"
proof (induction l arbitrary: n)
  case (Cons x l)
  then show ?case by (cases n) auto
qed simp

lemma next_sub_short:
  assumes "length (takeWhile (\<lambda>c. c \<noteq> CHR '','') s) < 1023"
  shows "next_sub s = (takeWhile (\<lambda>c. c \<noteq> CHR '','') s,
    case dropWhile (\<lambda>c. c \<noteq> CHR '','') s of [] \<Rightarrow> [] | _ # r \<Rightarrow> r)"
proof -
  have d: "drop (length (takeWhile (\<lambda>c. c \<noteq> CHR '','') s)) s = dropWhile (\<lambda>c. c \<noteq> CHR '','') s"
    by (simp add: dropWhile_eq_drop)
  show ?thesis
  proof (cases "dropWhile (\<lambda>c. c \<noteq> CHR '','') s")
    case Nil
    show ?thesis unfolding next_sub_def Let_def takeWhile_take [OF assms] d by (simp only: Nil) simp
  next
    case (Cons x r)
    then have "x = CHR '',''" using hd_dropWhile [of "\<lambda>c. c \<noteq> CHR '',''" s] by simp
    then show ?thesis unfolding next_sub_def Let_def takeWhile_take [OF assms] d by (simp only: Cons) simp
  qed
qed

text \<open>Whether a subpattern is a negation, and the pattern behind the exclamation mark.\<close>

definition negation :: "string \<Rightarrow> bool" where
  "negation w \<longleftrightarrow> w \<noteq> [] \<and> hd w = CHR ''!''"

definition item_matches :: "string \<Rightarrow> bool \<Rightarrow> string \<Rightarrow> bool" where
  "item_matches str dolower w \<longleftrightarrow>
     match_pattern str (map (\<lambda>c. if dolower \<and> is_upper c then to_lower c else c)
       (if negation w then tl w else w))"

lemma next_item:
  assumes "rest \<noteq> []" "length (takeWhile (\<lambda>c. c \<noteq> CHR '','') rest) < 1023"
  shows "next_sub (skip_bang rest) =
    ((if negation (hd (items rest)) then tl (hd (items rest)) else hd (items rest)),
     case dropWhile (\<lambda>c. c \<noteq> CHR '','') rest of [] \<Rightarrow> [] | _ # r \<Rightarrow> r)"
    and "hd rest = CHR ''!'' \<longleftrightarrow> negation (hd (items rest))"
proof -
  obtain x t where r: "rest = x # t" using assms(1) by (cases rest) auto
  have h: "hd (items rest) = takeWhile (\<lambda>c. c \<noteq> CHR '','') rest" using items_unfold [OF assms(1)] by simp
  then show "hd rest = CHR ''!'' \<longleftrightarrow> negation (hd (items rest))" by (auto simp: r negation_def)
  show "next_sub (skip_bang rest) =
    ((if negation (hd (items rest)) then tl (hd (items rest)) else hd (items rest)),
     case dropWhile (\<lambda>c. c \<noteq> CHR '','') rest of [] \<Rightarrow> [] | _ # r \<Rightarrow> r)"
  proof (cases "x = CHR ''!''")
    case True
    then show ?thesis using assms(2) next_sub_short [of t] h
      by (simp add: r skip_bang_def negation_def)
  next
    case False
    then show ?thesis using next_sub_short [OF assms(2)] h by (auto simp: r skip_bang_def negation_def)
  qed
qed

lemma pattern_list_loop_items:
  assumes "list_all (\<lambda>w. length w < 1023) (items rest)" "g = 0 \<or> g = 1"
  shows "pattern_list_loop str rest dl g =
    (if \<exists>w \<in> set (items rest). negation w \<and> item_matches str dl w then - 1
     else if g = 1 \<or> (\<exists>w \<in> set (items rest). item_matches str dl w) then 1 else 0)"
  using assms
proof (induction "length rest" arbitrary: rest g rule: less_induct)
  case less
  show ?case
  proof (cases "rest = []")
    case True
    then show ?thesis using less.prems(2) by (auto simp: pattern_list_loop.simps)
  next
    case False
    let ?r = "case dropWhile (\<lambda>c. c \<noteq> CHR '','') rest of [] \<Rightarrow> [] | _ # r \<Rightarrow> r"
    define w where "w = takeWhile (\<lambda>c. c \<noteq> CHR '','') rest"
    define r where "r = ?r"
    have i: "items rest = w # items r"
      using items_unfold [OF False] unfolding w_def r_def
      by (cases "dropWhile (\<lambda>c. c \<noteq> CHR '','') rest") (simp_all only: list.case items_Nil)
    have short: "length w < 1023" and rall: "list_all (\<lambda>w. length w < 1023) (items r)"
      using less.prems(1) i by simp_all
    have n: "next_sub (skip_bang rest) = (if negation w then tl w else w, r)" "hd rest = CHR ''!'' \<longleftrightarrow> negation w"
      using next_item [OF False] short i unfolding w_def r_def by simp_all
    have "length r < length rest" using next_sub_shorter [OF False n(1)] .
    note ih = less.hyps [OF this rall]
    have len: "\<not> length (if negation w then tl w else w) \<ge> 1023" using short by auto
    have "pattern_list_loop str rest dl g =
        (if item_matches str dl w then (if negation w then - 1 else pattern_list_loop str r dl 1)
         else pattern_list_loop str r dl g)"
      using False len by (subst pattern_list_loop.simps) (simp only: n prod.case if_False item_matches_def)
    then show ?thesis unfolding i using ih [of 1] ih [OF less.prems(2)]
      by (cases "item_matches str dl w"; cases "negation w") auto
  qed
qed

section \<open>Properties\<close>

text \<open>C30: on a pattern without two stars in a row, \<open>match_pattern\<close> decides exactly the usual reading of
  wildcards, and it always returns.\<close>

theorem match_pattern_glob:
  assumes "no_double_star p"
  shows "match_pattern s p \<longleftrightarrow> glob p s"
  by (rule match_loops(1) [OF assms])

theorem match_pattern_glob_witness:
  "no_double_star ''a*?c'' \<and> (match_pattern ''abbc'' ''a*?c'' \<longleftrightarrow> glob ''a*?c'' ''abbc'') \<and>
   match_pattern ''abbc'' ''a*?c''"
  using match_pattern_glob [of "''a*?c''" "''abbc''"] by simp

text \<open>with two stars in a row the code is stricter than the usual reading: no pattern that ends in two stars
  matches the empty string, although a star may stand for nothing.\<close>

theorem match_pattern_double_star: "\<not> match_pattern [] (p @ ''**'') \<and> glob ''**'' []"
  by (cases p) (auto split: list.split)

text \<open>C31: a list of patterns is decided by its comma-separated items (shorter than the buffer \<open>sub\<close>): -1 if a
  negated item matches, else 1 if an item matches, else 0, whatever their order.\<close>

theorem match_pattern_list_items:
  assumes "list_all (\<lambda>w. length w < 1023) (items pattern)"
  shows "match_pattern_list str pattern dolower =
    (if \<exists>w \<in> set (items pattern). negation w \<and> item_matches str dolower w then - 1
     else if \<exists>w \<in> set (items pattern). item_matches str dolower w then 1 else 0)"
  using pattern_list_loop_items [OF assms, of 0] by (simp add: match_pattern_list_def)

theorem match_pattern_list_items_witness:
  "match_pattern_list ''evil.org'' ''*.org,!evil.*'' False = - 1"
proof -
  have i: "items ''*.org,!evil.*'' = [''*.org'', ''!evil.*'']" by code_simp
  have "negation ''!evil.*'' \<and> item_matches ''evil.org'' False ''!evil.*''" by code_simp
  then show ?thesis using match_pattern_list_items [of "''*.org,!evil.*''" "''evil.org''" False] by (simp add: i)
qed

text \<open>C32: \<open>match_list\<close> returns the first name of the client's list that is among the first 40 names of the server's
  list, and nothing if there is none; both lists end at the first empty name.\<close>

theorem match_list_first_client_name:
  "fst (match_list client server) =
     find (\<lambda>p. p \<in> set (take MAX_PROP (names server))) (names client)"
  by (rule fst_match_list)

end
