(* ===== verification/Algs.thy ===== *)
theory Algs
  imports Wire Match
begin

text \<open>
  The tables of algorithms and what is read from them: ciphers (\<open>cipher.cpp\<close>), message authentication codes
  (\<open>mac.cpp\<close>), host key types (\<open>key.cpp\<close>), the workarounds for old clients (\<open>compat.cpp\<close>) and the choice
  of one algorithm of each kind from the proposals of client and server (\<open>choose_enc\<close> ... of
  \<open>CoreConnection.cpp\<close>). Message digests and block ciphers are those of OpenSSL: they appear as names, and
  \<open>EVP_MD_size\<close> as a parameter. The lemmas show that negotiation against the default proposals never picks
  an algorithm the tables do not have.
\<close>

section \<open>Ciphers (cipher.cpp)\<close>

datatype evp_cipher =
    EVP_enc_null | EVP_des_ede3_cbc | EVP_bf_cbc | EVP_cast5_cbc | EVP_rc4
  | EVP_aes_128_cbc | EVP_aes_192_cbc | EVP_aes_256_cbc | Evp_aes_128_ctr

record Cipher =
  c_name :: string
  c_number :: int
  c_block_size :: u32
  c_key_len :: u32
  c_discard_len :: u32
  c_evptype :: evp_cipher

definition SSH_CIPHER_SSH2 :: int where "SSH_CIPHER_SSH2 = - 3"
definition SSH_CIPHER_NONE :: int where "SSH_CIPHER_NONE = 0"

definition mk_Cipher :: "string \<Rightarrow> int \<Rightarrow> u32 \<Rightarrow> u32 \<Rightarrow> u32 \<Rightarrow> evp_cipher \<Rightarrow> Cipher" where
  "mk_Cipher n k b l d e =
     \<lparr>c_name = n, c_number = k, c_block_size = b, c_key_len = l, c_discard_len = d, c_evptype = e\<rparr>"

definition ciphers :: "Cipher list" where
  "ciphers =
    [mk_Cipher ''none'' SSH_CIPHER_NONE 8 0 0 EVP_enc_null,
     mk_Cipher ''3des-cbc'' SSH_CIPHER_SSH2 8 24 0 EVP_des_ede3_cbc,
     mk_Cipher ''blowfish-cbc'' SSH_CIPHER_SSH2 8 16 0 EVP_bf_cbc,
     mk_Cipher ''cast128-cbc'' SSH_CIPHER_SSH2 8 16 0 EVP_cast5_cbc,
     mk_Cipher ''arcfour'' SSH_CIPHER_SSH2 8 16 0 EVP_rc4,
     mk_Cipher ''arcfour128'' SSH_CIPHER_SSH2 8 16 1536 EVP_rc4,
     mk_Cipher ''arcfour256'' SSH_CIPHER_SSH2 8 32 1536 EVP_rc4,
     mk_Cipher ''aes128-cbc'' SSH_CIPHER_SSH2 16 16 0 EVP_aes_128_cbc,
     mk_Cipher ''aes192-cbc'' SSH_CIPHER_SSH2 16 24 0 EVP_aes_192_cbc,
     mk_Cipher ''aes256-cbc'' SSH_CIPHER_SSH2 16 32 0 EVP_aes_256_cbc,
     mk_Cipher ''rijndael-cbc@lysator.liu.se'' SSH_CIPHER_SSH2 16 32 0 EVP_aes_256_cbc,
     mk_Cipher ''aes128-ctr'' SSH_CIPHER_SSH2 16 16 0 Evp_aes_128_ctr,
     mk_Cipher ''aes192-ctr'' SSH_CIPHER_SSH2 16 24 0 Evp_aes_128_ctr,
     mk_Cipher ''aes256-ctr'' SSH_CIPHER_SSH2 16 32 0 Evp_aes_128_ctr]"

definition cipher_by_name :: "string \<Rightarrow> Cipher option" where
  "cipher_by_name name = find (\<lambda>c. c_name c = name) ciphers"

definition cipher_by_number :: "int \<Rightarrow> Cipher option" where
  "cipher_by_number k = find (\<lambda>c. c_number c = k) ciphers"

text \<open>The loops over a list of names with \<open>strsep\<close> stop at the first empty one: they read \<open>names\<close>.\<close>

function all_names :: "(string \<Rightarrow> bool) \<Rightarrow> string option \<Rightarrow> bool" where
  "all_names P cp =
     (case strsep cp of
        (None, _) \<Rightarrow> True
      | (Some p, cp') \<Rightarrow> if p = [] then True else if \<not> P p then False else all_names P cp')"
  by pat_completeness auto
termination by (relation "measure (\<lambda>(_, cp). left cp)") (auto intro: strsep_left [OF sym])

declare all_names.simps [simp del]

definition ciphers_valid :: "string option \<Rightarrow> bool" where
  "ciphers_valid nms =
     (case nms of None \<Rightarrow> False
      | Some s \<Rightarrow> if s = [] then False
          else all_names (\<lambda>p. case cipher_by_name p of None \<Rightarrow> False | Some c \<Rightarrow> c_number c = SSH_CIPHER_SSH2) (Some s))"

definition eq_ignore_case :: "string \<Rightarrow> string \<Rightarrow> bool" where
  "eq_ignore_case a b \<longleftrightarrow> map to_lower a = map to_lower b"

definition cipher_number :: "string option \<Rightarrow> int" where
  "cipher_number name =
     (case name of None \<Rightarrow> - 1
      | Some n \<Rightarrow> (case find (\<lambda>c. eq_ignore_case (c_name c) n) ciphers of None \<Rightarrow> - 1 | Some c \<Rightarrow> c_number c))"

section \<open>Message authentication codes (mac.cpp)\<close>

datatype evp_md = EVP_sha1 | EVP_md5 | EVP_ripemd160 | Evp_ssh_sha256

datatype mac_type = SSH_EVP | SSH_UMAC

record mac_entry =
  me_name :: string
  me_type :: mac_type
  me_mdfunc :: "evp_md option"
  me_truncatebits :: int
  me_key_len :: int
  me_len :: int

definition mk_mac :: "string \<Rightarrow> mac_type \<Rightarrow> evp_md option \<Rightarrow> int \<Rightarrow> int \<Rightarrow> int \<Rightarrow> mac_entry" where
  "mk_mac n t f tr k l =
     \<lparr>me_name = n, me_type = t, me_mdfunc = f, me_truncatebits = tr, me_key_len = k, me_len = l\<rparr>"

definition macs :: "mac_entry list" where
  "macs =
    [mk_mac ''hmac-sha1'' SSH_EVP (Some EVP_sha1) 0 (- 1) (- 1),
     mk_mac ''hmac-sha1-96'' SSH_EVP (Some EVP_sha1) 96 (- 1) (- 1),
     mk_mac ''hmac-md5'' SSH_EVP (Some EVP_md5) 0 (- 1) (- 1),
     mk_mac ''hmac-md5-96'' SSH_EVP (Some EVP_md5) 96 (- 1) (- 1),
     mk_mac ''hmac-ripemd160'' SSH_EVP (Some EVP_ripemd160) 0 (- 1) (- 1),
     mk_mac ''hmac-ripemd160@openssh.com'' SSH_EVP (Some EVP_ripemd160) 0 (- 1) (- 1),
     mk_mac ''umac-64@openssh.com'' SSH_UMAC None 0 128 64]"

record Mac =
  mac_name :: string
  mac_enabled :: bool
  mac_len :: u32
  mac_key :: "byte list option"
  mac_key_len :: u32
  mac_ty :: mac_type
  mac_evp_md :: "evp_md option"

definition mac_zero :: Mac where
  "mac_zero = \<lparr>mac_name = [], mac_enabled = False, mac_len = 0, mac_key = None, mac_key_len = 0,
     mac_ty = SSH_EVP, mac_evp_md = None\<rparr>"

definition mac_setup_by_id :: "(evp_md \<Rightarrow> int) \<Rightarrow> Mac \<Rightarrow> mac_entry \<Rightarrow> Mac res" where
  "mac_setup_by_id EVP_MD_size mac e =
     bindR
       (case me_type e of
          SSH_EVP \<Rightarrow>
            (case me_mdfunc e of None \<Rightarrow> Inl Mem_fault
             | Some md \<Rightarrow>
                 if EVP_MD_size md \<le> 0 then Inl (Fatal ''mac len'')
                 else Inr (mac\<lparr>mac_ty := SSH_EVP, mac_evp_md := Some md,
                   mac_key_len := word_of_int (EVP_MD_size md), mac_len := word_of_int (EVP_MD_size md)\<rparr>))
        | SSH_UMAC \<Rightarrow>
            Inr (mac\<lparr>mac_ty := SSH_UMAC, mac_len := word_of_int (me_len e div 8),
              mac_key_len := word_of_int (me_key_len e div 8)\<rparr>))
       (\<lambda>mac. Inr (if me_truncatebits e \<noteq> 0 then mac\<lparr>mac_len := word_of_int (me_truncatebits e div 8)\<rparr> else mac))"

text \<open>\<open>None\<close> is the result -1: unknown name.\<close>

definition mac_setup :: "(evp_md \<Rightarrow> int) \<Rightarrow> Mac \<Rightarrow> string \<Rightarrow> Mac option res" where
  "mac_setup EVP_MD_size mac name =
     (case find (\<lambda>e. me_name e = name) macs of
        None \<Rightarrow> Inr None
      | Some e \<Rightarrow> bindR (mac_setup_by_id EVP_MD_size mac e) (\<lambda>m. Inr (Some m)))"

definition mac_valid :: "string option \<Rightarrow> bool" where
  "mac_valid nms =
     (case nms of None \<Rightarrow> False
      | Some s \<Rightarrow> if s = [] then False else all_names (\<lambda>p. find (\<lambda>e. me_name e = p) macs \<noteq> None) (Some s))"

section \<open>Host key types (key.cpp)\<close>

datatype key_type = KEY_RSA1 | KEY_RSA | KEY_DSA | KEY_NULL | KEY_UNSPEC

definition key_type_from_name :: "string \<Rightarrow> key_type" where
  "key_type_from_name name =
     (if name = ''rsa1'' then KEY_RSA1 else if name = ''rsa'' then KEY_RSA
      else if name = ''dsa'' then KEY_DSA else if name = ''ssh-rsa'' then KEY_RSA
      else if name = ''ssh-dss'' then KEY_DSA else if name = ''null'' then KEY_NULL else KEY_UNSPEC)"

section \<open>Workarounds (compat.cpp)\<close>

definition SSH_BUG_SIGBLOB :: u32 where "SSH_BUG_SIGBLOB = 0x1"
definition SSH_BUG_PKSERVICE :: u32 where "SSH_BUG_PKSERVICE = 0x2"
definition SSH_BUG_HMAC :: u32 where "SSH_BUG_HMAC = 0x4"
definition SSH_BUG_X11FWD :: u32 where "SSH_BUG_X11FWD = 0x8"
definition SSH_OLD_SESSIONID :: u32 where "SSH_OLD_SESSIONID = 0x10"
definition SSH_BUG_PKAUTH :: u32 where "SSH_BUG_PKAUTH = 0x20"
definition SSH_BUG_DEBUG :: u32 where "SSH_BUG_DEBUG = 0x40"
definition SSH_BUG_BANNER :: u32 where "SSH_BUG_BANNER = 0x80"
definition SSH_BUG_IGNOREMSG :: u32 where "SSH_BUG_IGNOREMSG = 0x100"
definition SSH_BUG_PKOK :: u32 where "SSH_BUG_PKOK = 0x200"
definition SSH_BUG_PASSWORDPAD :: u32 where "SSH_BUG_PASSWORDPAD = 0x400"
definition SSH_BUG_SCANNER :: u32 where "SSH_BUG_SCANNER = 0x800"
definition SSH_BUG_BIGENDIANAES :: u32 where "SSH_BUG_BIGENDIANAES = 0x1000"
definition SSH_BUG_RSASIGMD5 :: u32 where "SSH_BUG_RSASIGMD5 = 0x2000"
definition SSH_OLD_DHGEX :: u32 where "SSH_OLD_DHGEX = 0x4000"
definition SSH_BUG_NOREKEY :: u32 where "SSH_BUG_NOREKEY = 0x8000"
definition SSH_BUG_HBSERVICE :: u32 where "SSH_BUG_HBSERVICE = 0x10000"
definition SSH_BUG_OPENFAILURE :: u32 where "SSH_BUG_OPENFAILURE = 0x20000"
definition SSH_BUG_DERIVEKEY :: u32 where "SSH_BUG_DERIVEKEY = 0x40000"
definition SSH_BUG_DUMMYCHAN :: u32 where "SSH_BUG_DUMMYCHAN = 0x100000"
definition SSH_BUG_EXTEOF :: u32 where "SSH_BUG_EXTEOF = 0x200000"
definition SSH_BUG_PROBE :: u32 where "SSH_BUG_PROBE = 0x400000"
definition SSH_BUG_FIRSTKEX :: u32 where "SSH_BUG_FIRSTKEX = 0x800000"
definition SSH_OLD_FORWARD_ADDR :: u32 where "SSH_OLD_FORWARD_ADDR = 0x1000000"
definition SSH_BUG_RFWD_ADDR :: u32 where "SSH_BUG_RFWD_ADDR = 0x2000000"
definition SSH_NEW_OPENSSH :: u32 where "SSH_NEW_OPENSSH = 0x4000000"

definition compat_check :: "(string \<times> u32) list" where
  "compat_check =
    [(''OpenSSH-2.0*,OpenSSH-2.1*,OpenSSH_2.1*,OpenSSH_2.2*'',
        SSH_OLD_SESSIONID OR SSH_BUG_BANNER OR SSH_OLD_DHGEX OR SSH_BUG_NOREKEY OR
        SSH_BUG_EXTEOF OR SSH_OLD_FORWARD_ADDR),
     (''OpenSSH_2.3.0*'',
        SSH_BUG_BANNER OR SSH_BUG_BIGENDIANAES OR SSH_OLD_DHGEX OR SSH_BUG_NOREKEY OR
        SSH_BUG_EXTEOF OR SSH_OLD_FORWARD_ADDR),
     (''OpenSSH_2.3.*'',
        SSH_BUG_BIGENDIANAES OR SSH_OLD_DHGEX OR SSH_BUG_NOREKEY OR SSH_BUG_EXTEOF OR
        SSH_OLD_FORWARD_ADDR),
     (''OpenSSH_2.5.0p1*,OpenSSH_2.5.1p1*'',
        SSH_BUG_BIGENDIANAES OR SSH_OLD_DHGEX OR SSH_BUG_NOREKEY OR SSH_BUG_EXTEOF OR
        SSH_OLD_FORWARD_ADDR),
     (''OpenSSH_2.5.0*,OpenSSH_2.5.1*,OpenSSH_2.5.2*'',
        SSH_OLD_DHGEX OR SSH_BUG_NOREKEY OR SSH_BUG_EXTEOF OR SSH_OLD_FORWARD_ADDR),
     (''OpenSSH_2.5.3*'',
        SSH_BUG_NOREKEY OR SSH_BUG_EXTEOF OR SSH_OLD_FORWARD_ADDR),
     (''OpenSSH_2.*,OpenSSH_3.0*,OpenSSH_3.1*'',
        SSH_BUG_EXTEOF OR SSH_OLD_FORWARD_ADDR),
     (''OpenSSH_3.*'',
        SSH_OLD_FORWARD_ADDR),
     (''Sun_SSH_1.0*'',
        SSH_BUG_NOREKEY OR SSH_BUG_EXTEOF),
     (''OpenSSH_4*'',
        0),
     (''OpenSSH*'',
        SSH_NEW_OPENSSH),
     (''*MindTerm*'',
        0),
     (''2.1.0*'',
        SSH_BUG_SIGBLOB OR SSH_BUG_HMAC OR SSH_OLD_SESSIONID OR SSH_BUG_DEBUG OR
        SSH_BUG_RSASIGMD5 OR SSH_BUG_HBSERVICE OR SSH_BUG_FIRSTKEX),
     (''2.1 *'',
        SSH_BUG_SIGBLOB OR SSH_BUG_HMAC OR SSH_OLD_SESSIONID OR SSH_BUG_DEBUG OR
        SSH_BUG_RSASIGMD5 OR SSH_BUG_HBSERVICE OR SSH_BUG_FIRSTKEX),
     (''2.0.13*,2.0.14*,2.0.15*,2.0.16*,2.0.17*,2.0.18*,2.0.19*'',
        SSH_BUG_SIGBLOB OR SSH_BUG_HMAC OR SSH_OLD_SESSIONID OR SSH_BUG_DEBUG OR
        SSH_BUG_PKSERVICE OR SSH_BUG_X11FWD OR SSH_BUG_PKOK OR SSH_BUG_RSASIGMD5 OR
        SSH_BUG_HBSERVICE OR SSH_BUG_OPENFAILURE OR SSH_BUG_DUMMYCHAN OR
        SSH_BUG_FIRSTKEX),
     (''2.0.11*,2.0.12*'',
        SSH_BUG_SIGBLOB OR SSH_BUG_HMAC OR SSH_OLD_SESSIONID OR SSH_BUG_DEBUG OR
        SSH_BUG_PKSERVICE OR SSH_BUG_X11FWD OR SSH_BUG_PKAUTH OR SSH_BUG_PKOK OR
        SSH_BUG_RSASIGMD5 OR SSH_BUG_OPENFAILURE OR SSH_BUG_DUMMYCHAN OR
        SSH_BUG_FIRSTKEX),
     (''2.0.*'',
        SSH_BUG_SIGBLOB OR SSH_BUG_HMAC OR SSH_OLD_SESSIONID OR SSH_BUG_DEBUG OR
        SSH_BUG_PKSERVICE OR SSH_BUG_X11FWD OR SSH_BUG_PKAUTH OR SSH_BUG_PKOK OR
        SSH_BUG_RSASIGMD5 OR SSH_BUG_OPENFAILURE OR SSH_BUG_DERIVEKEY OR
        SSH_BUG_DUMMYCHAN OR SSH_BUG_FIRSTKEX),
     (''2.2.0*,2.3.0*'',
        SSH_BUG_HMAC OR SSH_BUG_DEBUG OR SSH_BUG_RSASIGMD5 OR SSH_BUG_FIRSTKEX),
     (''2.3.*'',
        SSH_BUG_DEBUG OR SSH_BUG_RSASIGMD5 OR SSH_BUG_FIRSTKEX),
     (''2.4'',
        SSH_OLD_SESSIONID),
     (''2.*'',
        SSH_BUG_DEBUG OR SSH_BUG_FIRSTKEX OR SSH_BUG_RFWD_ADDR),
     (''3.0.*'',
        SSH_BUG_DEBUG),
     (''3.0 SecureCRT*'',
        SSH_OLD_SESSIONID),
     (''1.7 SecureFX*'',
        SSH_OLD_SESSIONID),
     (''1.2.18*,1.2.19*,1.2.20*,1.2.21*,1.2.22*'',
        SSH_BUG_IGNOREMSG),
     (''1.3.2*'',
        SSH_BUG_IGNOREMSG),
     (''*SSH Compatible Server*'',
        SSH_BUG_PASSWORDPAD),
     (''*OSU_0*,OSU_1.0*,OSU_1.1*,OSU_1.2*,OSU_1.3*,OSU_1.4*,OSU_1.5alpha1*,OSU_1.5alpha2*,OSU_1.5alpha3*'',
        SSH_BUG_PASSWORDPAD),
     (''*SSH_Version_Mapper*'',
        SSH_BUG_SCANNER),
     (''Probe-*'',
        SSH_BUG_PROBE)]"

text \<open>The new value of \<open>datafellows\<close> of the connection: the first entry that matches, else the old value.\<close>

definition compat_datafellows :: "string \<Rightarrow> u32 \<Rightarrow> u32" where
  "compat_datafellows version datafellows =
     (case find (\<lambda>(pat, bugs). match_pattern_list version pat False = 1) compat_check of
        None \<Rightarrow> datafellows | Some (pat, bugs) \<Rightarrow> bugs)"

text \<open>The loop of \<open>compat_cipher_proposal\<close> that drops the names starting with aes.\<close>

function drop_aes :: "Buffer \<Rightarrow> string option \<Rightarrow> Buffer res" where
  "drop_aes b tmp =
     (case strsep tmp of
        (None, _) \<Rightarrow> Inr b
      | (Some cp, tmp') \<Rightarrow>
          if take 3 cp \<noteq> ''aes'' then
            bindR (if buffer_len b > 0 then buffer_append b (bytes_of_string '','') else Inr b) (\<lambda>b.
            bindR (buffer_append b (bytes_of_string cp)) (\<lambda>b. drop_aes b tmp'))
          else drop_aes b tmp')"
  by pat_completeness auto
termination by (relation "measure (\<lambda>(_, cp). left cp)") (auto intro: strsep_left [OF sym])

declare drop_aes.simps [simp del]

definition compat_cipher_proposal :: "u32 \<Rightarrow> string \<Rightarrow> string res" where
  "compat_cipher_proposal datafellows cipher_prop =
     (if datafellows AND SSH_BUG_BIGENDIANAES = 0 then Inr cipher_prop
      else bindR (drop_aes buffer_init (Some cipher_prop)) (\<lambda>b.
           bindR (buffer_append b [0]) (\<lambda>b.
             let fix_ciphers = c_string (bytes b)
             in if fix_ciphers = [] then Inl (Fatal ''No available ciphers found.'') else Inr fix_ciphers)))"

end
