(* ===== verification/Kex.thy ===== *)
theory Kex
  imports Algs Bignum
begin

text \<open>
  Key exchange without the packet layer: the KEXINIT proposals, the choice of algorithms
  (\<open>kex_choose_conf\<close> and the \<open>choose_\<close> functions of \<open>CoreConnection.cpp\<close>), the exchange hash
  (\<open>kexdh.cpp\<close>, \<open>kexgex.cpp\<close>), the derivation of keys, and the checks of Diffie-Hellman values
  (\<open>dh.cpp\<close>). Digests are functions of OpenSSL, so \<open>H\<close> (digest of a string) and \<open>EVP_MD_size\<close> are
  parameters. The lemmas show that a client and a server that run this code on the same two proposals agree
  on the algorithms and the keys, and that derived keys are the ones of RFC 4253.
\<close>

section \<open>Data (kex.h)\<close>

record Enc =
  enc_name :: string
  enc_cipher :: Cipher
  enc_enabled :: bool
  enc_key_len :: u32
  enc_block_size :: u32
  enc_key :: "byte list option"
  enc_iv :: "byte list option"

datatype comp_type = COMP_NONE | COMP_ZLIB | COMP_DELAYED

record Comp =
  comp_ty :: comp_type
  comp_enabled :: bool
  comp_name :: string

record Newkeys =
  nk_enc :: Enc
  nk_mac :: Mac
  nk_comp :: Comp

datatype kex_mode = MODE_IN | MODE_OUT

datatype kex_exchange = KEX_DH_GRP1_SHA1 | KEX_DH_GRP14_SHA1 | KEX_DH_GEX_SHA1 | KEX_DH_GEX_SHA256

record Kex =
  k_session_id :: "byte list option"
  k_newkeys :: "kex_mode \<Rightarrow> Newkeys option"
  k_we_need :: u32
  k_server :: bool
  k_name :: "string option"
  k_hostkey_type :: key_type
  k_kex_type :: kex_exchange
  k_my :: Buffer
  k_peer :: Buffer
  k_done :: bool
  k_init_sent :: bool
  k_evp_md :: evp_md
  k_client_version :: string
  k_server_version :: string

definition KEX_DH1 :: string where "KEX_DH1 = ''diffie-hellman-group1-sha1''"
definition KEX_DH14 :: string where "KEX_DH14 = ''diffie-hellman-group14-sha1''"
definition KEX_DHGEX_SHA1 :: string where "KEX_DHGEX_SHA1 = ''diffie-hellman-group-exchange-sha1''"
definition KEX_DHGEX_SHA256 :: string where "KEX_DHGEX_SHA256 = ''diffie-hellman-group-exchange-sha256''"

definition KEX_COOKIE_LEN :: nat where "KEX_COOKIE_LEN = 16"
definition PROPOSAL_MAX :: nat where "PROPOSAL_MAX = 10"
definition PROPOSAL_KEX_ALGS :: nat where "PROPOSAL_KEX_ALGS = 0"
definition PROPOSAL_SERVER_HOST_KEY_ALGS :: nat where "PROPOSAL_SERVER_HOST_KEY_ALGS = 1"
definition PROPOSAL_ENC_ALGS_CTOS :: nat where "PROPOSAL_ENC_ALGS_CTOS = 2"
definition PROPOSAL_ENC_ALGS_STOC :: nat where "PROPOSAL_ENC_ALGS_STOC = 3"
definition PROPOSAL_MAC_ALGS_CTOS :: nat where "PROPOSAL_MAC_ALGS_CTOS = 4"
definition PROPOSAL_MAC_ALGS_STOC :: nat where "PROPOSAL_MAC_ALGS_STOC = 5"
definition PROPOSAL_COMP_ALGS_CTOS :: nat where "PROPOSAL_COMP_ALGS_CTOS = 6"
definition PROPOSAL_COMP_ALGS_STOC :: nat where "PROPOSAL_COMP_ALGS_STOC = 7"

lemmas proposal_consts = PROPOSAL_MAX_def PROPOSAL_KEX_ALGS_def PROPOSAL_SERVER_HOST_KEY_ALGS_def
  PROPOSAL_ENC_ALGS_CTOS_def PROPOSAL_ENC_ALGS_STOC_def PROPOSAL_MAC_ALGS_CTOS_def
  PROPOSAL_MAC_ALGS_STOC_def PROPOSAL_COMP_ALGS_CTOS_def PROPOSAL_COMP_ALGS_STOC_def

section \<open>Default proposals\<close>

definition KEX_DEFAULT_KEX :: string where
  "KEX_DEFAULT_KEX = ''diffie-hellman-group14-sha1,diffie-hellman-group1-sha1''"

definition KEX_DEFAULT_PK_ALG :: string where
  "KEX_DEFAULT_PK_ALG = ''ssh-rsa,ssh-dss''"

definition KEX_DEFAULT_ENCRYPT :: string where
  "KEX_DEFAULT_ENCRYPT =
     ''aes256-ctr,aes256-cbc,aes192-ctr,aes192-cbc,aes128-ctr,aes128-cbc,'' @
     ''3des-cbc,blowfish-cbc,cast128-cbc,arcfour256,arcfour128,arcfour,'' @
     ''rijndael-cbc@lysator.liu.se''"

definition KEX_DEFAULT_MAC :: string where
  "KEX_DEFAULT_MAC =
     ''hmac-md5,hmac-sha1,umac-64@openssh.com,hmac-ripemd160,'' @
     ''hmac-ripemd160@openssh.com,hmac-sha1-96,hmac-md5-96''"

definition KEX_DEFAULT_COMP :: string where
  "KEX_DEFAULT_COMP = ''none,zlib@openssh.com,zlib''"

definition def_proposal :: "string list" where
  "def_proposal =
     [KEX_DEFAULT_KEX, KEX_DEFAULT_PK_ALG, KEX_DEFAULT_ENCRYPT, KEX_DEFAULT_ENCRYPT,
      KEX_DEFAULT_MAC, KEX_DEFAULT_MAC, KEX_DEFAULT_COMP, KEX_DEFAULT_COMP, [], []]"

section \<open>KEXINIT messages\<close>

primrec put_zeros :: "nat \<Rightarrow> Buffer \<Rightarrow> Buffer res" where
  "put_zeros 0 b = Inr b"
| "put_zeros (Suc n) b = bindR (buffer_put_char b 0) (put_zeros n)"

primrec put_cstrings :: "string list \<Rightarrow> Buffer \<Rightarrow> Buffer res" where
  "put_cstrings [] b = Inr b"
| "put_cstrings (s # ss) b = bindR (buffer_put_cstring b (Some (bytes_of_string s))) (put_cstrings ss)"

definition kex_prop2buf :: "Buffer \<Rightarrow> string list \<Rightarrow> Buffer res" where
  "kex_prop2buf b proposal =
     bindR (put_zeros KEX_COOKIE_LEN (buffer_clear b)) (\<lambda>b.
     bindR (put_cstrings proposal b) (\<lambda>b.
     bindR (buffer_put_char b 0) (\<lambda>b.
     buffer_put_int b 0)))"

primrec skip_chars :: "nat \<Rightarrow> Buffer \<Rightarrow> Buffer res" where
  "skip_chars 0 b = Inr b"
| "skip_chars (Suc n) b = bindR (buffer_get_char b) (\<lambda>(_, b). skip_chars n b)"

primrec get_proposals :: "nat \<Rightarrow> Buffer \<Rightarrow> (string list \<times> Buffer) res" where
  "get_proposals 0 b = Inr ([], b)"
| "get_proposals (Suc n) b =
     bindR (buffer_get_string b) (\<lambda>(s, b).
     bindR (get_proposals n b) (\<lambda>(ss, b). Inr (c_string s # ss, b)))"

definition kex_buf2prop :: "Buffer \<Rightarrow> (string list \<times> byte) res" where
  "kex_buf2prop raw =
     bindR (mem_read (b_buf raw) (unat (b_offset raw)) (unat (buffer_len raw))) (\<lambda>d.
     bindR (buffer_append buffer_init d) (\<lambda>b.
     bindR (skip_chars KEX_COOKIE_LEN b) (\<lambda>b.
     bindR (get_proposals PROPOSAL_MAX b) (\<lambda>(proposal, b).
     bindR (buffer_get_char b) (\<lambda>(first_kex_follows, b).
     bindR (buffer_get_int b) (\<lambda>(_, b).
     Inr (proposal, first_kex_follows)))))))"

text \<open>Only the names up to the first comma of the two decisive lists are compared.\<close>

definition proposals_match :: "string list \<Rightarrow> string list \<Rightarrow> bool" where
  "proposals_match my peer \<longleftrightarrow>
     (\<forall>i \<in> set [PROPOSAL_KEX_ALGS, PROPOSAL_SERVER_HOST_KEY_ALGS].
        takeWhile (\<lambda>c. c \<noteq> CHR '','') (my ! i) = takeWhile (\<lambda>c. c \<noteq> CHR '','') (peer ! i))"

section \<open>Choice of algorithms\<close>

definition choose_enc :: "string \<Rightarrow> string \<Rightarrow> Enc res" where
  "choose_enc client server =
     (case fst (match_list client server) of
        None \<Rightarrow> Inl (Fatal ''no matching cipher found'')
      | Some name \<Rightarrow>
          (case cipher_by_name name of
             None \<Rightarrow> Inl (Fatal ''matching cipher is not supported'')
           | Some c \<Rightarrow> Inr \<lparr>enc_name = name, enc_cipher = c, enc_enabled = False,
               enc_key_len = c_key_len c, enc_block_size = c_block_size c, enc_key = None, enc_iv = None\<rparr>))"

definition choose_mac :: "(evp_md \<Rightarrow> int) \<Rightarrow> u32 \<Rightarrow> string \<Rightarrow> string \<Rightarrow> Mac res" where
  "choose_mac EVP_MD_size datafellows client server =
     (case fst (match_list client server) of
        None \<Rightarrow> Inl (Fatal ''no matching mac found'')
      | Some name \<Rightarrow>
          bindR (mac_setup EVP_MD_size mac_zero name) (\<lambda>m.
            case m of None \<Rightarrow> Inl (Fatal ''unsupported mac'')
            | Some m \<Rightarrow>
                let m = (if datafellows AND SSH_BUG_HMAC \<noteq> 0 then m\<lparr>mac_key_len := 16\<rparr> else m)
                in Inr (m\<lparr>mac_name := name, mac_key := None, mac_enabled := False\<rparr>)))"

definition choose_comp :: "string \<Rightarrow> string \<Rightarrow> Comp res" where
  "choose_comp client server =
     (case fst (match_list client server) of
        None \<Rightarrow> Inl (Fatal ''no matching comp found'')
      | Some name \<Rightarrow>
          let mk = (\<lambda>t. Inr \<lparr>comp_ty = t, comp_enabled = False, comp_name = name\<rparr>) in
          if name = ''zlib@openssh.com'' then mk COMP_DELAYED
          else if name = ''zlib'' then mk COMP_ZLIB
          else if name = ''none'' then mk COMP_NONE
          else Inl (Fatal ''unsupported comp''))"

definition choose_kex :: "Kex \<Rightarrow> string \<Rightarrow> string \<Rightarrow> Kex res" where
  "choose_kex k client server =
     (case fst (match_list client server) of
        None \<Rightarrow> Inl (Fatal ''Unable to negotiate a key exchange method'')
      | Some name \<Rightarrow>
          let set_kex = (\<lambda>t md. Inr (k\<lparr>k_name := Some name, k_kex_type := t, k_evp_md := md\<rparr>)) in
          if name = KEX_DH1 then set_kex KEX_DH_GRP1_SHA1 EVP_sha1
          else if name = KEX_DH14 then set_kex KEX_DH_GRP14_SHA1 EVP_sha1
          else if name = KEX_DHGEX_SHA1 then set_kex KEX_DH_GEX_SHA1 EVP_sha1
          else if name = KEX_DHGEX_SHA256 then set_kex KEX_DH_GEX_SHA256 Evp_ssh_sha256
          else Inl (Fatal ''bad kex alg''))"

definition choose_hostkeyalg :: "Kex \<Rightarrow> string \<Rightarrow> string \<Rightarrow> Kex res" where
  "choose_hostkeyalg k client server =
     (case fst (match_list client server) of
        None \<Rightarrow> Inl (Fatal ''no hostkey alg'')
      | Some name \<Rightarrow>
          let t = key_type_from_name name
          in if t = KEY_UNSPEC then Inl (Fatal ''bad hostkey alg'') else Inr (k\<lparr>k_hostkey_type := t\<rparr>))"

definition ctos_of :: "bool \<Rightarrow> kex_mode \<Rightarrow> bool" where
  "ctos_of server mode \<longleftrightarrow> (\<not> server \<and> mode = MODE_OUT) \<or> (server \<and> mode = MODE_IN)"

text \<open>One round of the negotiation loop.\<close>

definition choose_newkeys ::
  "(evp_md \<Rightarrow> int) \<Rightarrow> u32 \<Rightarrow> bool \<Rightarrow> string list \<Rightarrow> string list \<Rightarrow> Newkeys res" where
  "choose_newkeys EVP_MD_size datafellows ctos cprop sprop =
     (let nenc = (if ctos then PROPOSAL_ENC_ALGS_CTOS else PROPOSAL_ENC_ALGS_STOC);
          nmac = (if ctos then PROPOSAL_MAC_ALGS_CTOS else PROPOSAL_MAC_ALGS_STOC);
          ncomp = (if ctos then PROPOSAL_COMP_ALGS_CTOS else PROPOSAL_COMP_ALGS_STOC)
      in bindR (choose_enc (cprop ! nenc) (sprop ! nenc)) (\<lambda>e.
         bindR (choose_mac EVP_MD_size datafellows (cprop ! nmac) (sprop ! nmac)) (\<lambda>m.
         bindR (choose_comp (cprop ! ncomp) (sprop ! ncomp)) (\<lambda>c.
         Inr \<lparr>nk_enc = e, nk_mac = m, nk_comp = c\<rparr>))))"

text \<open>One round of the loop that computes how many bytes of key material are needed.\<close>

definition need_of :: "u32 \<Rightarrow> Newkeys \<Rightarrow> u32" where
  "need_of need nk =
     (let need = (if need < enc_key_len (nk_enc nk) then enc_key_len (nk_enc nk) else need);
          need = (if need < enc_block_size (nk_enc nk) then enc_block_size (nk_enc nk) else need)
      in if need < mac_key_len (nk_mac nk) then mac_key_len (nk_mac nk) else need)"

text \<open>\<open>kex_choose_conf\<close> up to the packet it may have to skip: the flag tells whether the next packet is
  read and thrown away.\<close>

definition choose_conf :: "(evp_md \<Rightarrow> int) \<Rightarrow> u32 \<Rightarrow> Kex \<Rightarrow> (Kex \<times> bool) res" where
  "choose_conf EVP_MD_size datafellows kex =
     bindR (kex_buf2prop (k_my kex)) (\<lambda>(my, _).
     bindR (kex_buf2prop (k_peer kex)) (\<lambda>(peer, first_kex_follows).
       let (cprop, sprop) = (if k_server kex then (peer, my) else (my, peer)) in
       bindR (choose_newkeys EVP_MD_size datafellows (ctos_of (k_server kex) MODE_IN) cprop sprop) (\<lambda>nk_in.
       bindR (choose_newkeys EVP_MD_size datafellows (ctos_of (k_server kex) MODE_OUT) cprop sprop) (\<lambda>nk_out.
       let kex = kex\<lparr>k_newkeys := (k_newkeys kex)(MODE_IN := Some nk_in, MODE_OUT := Some nk_out)\<rparr> in
       bindR (choose_kex kex (cprop ! PROPOSAL_KEX_ALGS) (sprop ! PROPOSAL_KEX_ALGS)) (\<lambda>kex.
       bindR (choose_hostkeyalg kex (cprop ! PROPOSAL_SERVER_HOST_KEY_ALGS)
         (sprop ! PROPOSAL_SERVER_HOST_KEY_ALGS)) (\<lambda>kex.
       Inr (kex\<lparr>k_we_need := need_of (need_of 0 nk_in) nk_out\<rparr>,
            first_kex_follows \<noteq> 0 \<and> \<not> proposals_match my peer \<and> datafellows AND SSH_BUG_FIRSTKEX = 0)))))))"

section \<open>Exchange hash\<close>

definition SSH2_MSG_KEXINIT :: byte where "SSH2_MSG_KEXINIT = 20"

text \<open>The part that both hashes start with.\<close>

definition hash_prefix :: "string \<Rightarrow> string \<Rightarrow> byte list \<Rightarrow> byte list \<Rightarrow> byte list \<Rightarrow> Buffer res" where
  "hash_prefix client_version server_version ckexinit skexinit hostkeyblob =
     bindR (buffer_put_cstring buffer_init (Some (bytes_of_string client_version))) (\<lambda>b.
     bindR (buffer_put_cstring b (Some (bytes_of_string server_version))) (\<lambda>b.
     bindR (buffer_put_int b (of_nat (length ckexinit + 1))) (\<lambda>b.
     bindR (buffer_put_char b SSH2_MSG_KEXINIT) (\<lambda>b.
     bindR (buffer_append b ckexinit) (\<lambda>b.
     bindR (buffer_put_int b (of_nat (length skexinit + 1))) (\<lambda>b.
     bindR (buffer_put_char b SSH2_MSG_KEXINIT) (\<lambda>b.
     bindR (buffer_append b skexinit) (\<lambda>b.
     buffer_put_string b hostkeyblob))))))))"

primrec put_bignum2s :: "bn_lib \<Rightarrow> int list \<Rightarrow> Buffer \<Rightarrow> Buffer res" where
  "put_bignum2s L [] b = Inr b"
| "put_bignum2s L (v # vs) b = bindR (buffer_put_bignum2 L b v) (put_bignum2s L vs)"

definition kex_dh_hash ::
  "bn_lib \<Rightarrow> (evp_md \<Rightarrow> byte list \<Rightarrow> byte list) \<Rightarrow> string \<Rightarrow> string \<Rightarrow> byte list \<Rightarrow> byte list \<Rightarrow> byte list \<Rightarrow>
   int \<Rightarrow> int \<Rightarrow> int \<Rightarrow> byte list res" where
  "kex_dh_hash L H client_version server_version ckexinit skexinit hostkeyblob client_dh_pub server_dh_pub
     shared_secret =
     bindR (hash_prefix client_version server_version ckexinit skexinit hostkeyblob) (\<lambda>b.
     bindR (put_bignum2s L [client_dh_pub, server_dh_pub, shared_secret] b) (\<lambda>b.
     Inr (H EVP_sha1 (bytes b))))"

definition kexgex_hash ::
  "bn_lib \<Rightarrow> (evp_md \<Rightarrow> byte list \<Rightarrow> byte list) \<Rightarrow> evp_md \<Rightarrow> string \<Rightarrow> string \<Rightarrow> byte list \<Rightarrow> byte list \<Rightarrow>
   byte list \<Rightarrow> int \<Rightarrow> int \<Rightarrow> int \<Rightarrow> int \<Rightarrow> int \<Rightarrow> int \<Rightarrow> int \<Rightarrow> int \<Rightarrow> byte list res" where
  "kexgex_hash L H md client_version server_version ckexinit skexinit hostkeyblob gmin wantbits gmax prime gen
     client_dh_pub server_dh_pub shared_secret =
     bindR (hash_prefix client_version server_version ckexinit skexinit hostkeyblob) (\<lambda>b.
     bindR (if gmin = - 1 \<or> gmax = - 1 then buffer_put_int b (word_of_int wantbits)
            else bindR (buffer_put_int b (word_of_int gmin)) (\<lambda>b.
                 bindR (buffer_put_int b (word_of_int wantbits)) (\<lambda>b.
                 buffer_put_int b (word_of_int gmax)))) (\<lambda>b.
     bindR (put_bignum2s L [prime, gen, client_dh_pub, server_dh_pub, shared_secret] b) (\<lambda>b.
     Inr (H md (bytes b)))))"

section \<open>Derivation of keys\<close>

text \<open>The loop that extends the key; \<open>have'\<close> bytes are computed. At most \<open>need\<close> rounds are possible.\<close>

fun derive_loop :: "nat \<Rightarrow> (byte list \<Rightarrow> byte list) \<Rightarrow> u32 \<Rightarrow> u32 \<Rightarrow> byte list \<Rightarrow> u32 \<Rightarrow> byte list \<Rightarrow> byte list res" where
  "derive_loop 0 h need mdsz pre have' digest = Inl Diverge"
| "derive_loop (Suc n) h need mdsz pre have' digest =
     (if need > have' then
        bindR (mem_read digest 0 (unat have')) (\<lambda>d.
        bindR (mem_write digest (unat have') (h (pre @ d))) (\<lambda>digest.
        derive_loop n h need mdsz pre (have' + mdsz) digest))
      else Inr digest)"

definition derive_key ::
  "bn_lib \<Rightarrow> (evp_md \<Rightarrow> int) \<Rightarrow> (evp_md \<Rightarrow> byte list \<Rightarrow> byte list) \<Rightarrow> u32 \<Rightarrow> evp_md \<Rightarrow> byte list \<Rightarrow>
   byte \<Rightarrow> u32 \<Rightarrow> byte list \<Rightarrow> int \<Rightarrow> byte list res" where
  "derive_key L EVP_MD_size H datafellows md session_id c need hash shared_secret =
     (if EVP_MD_size md \<le> 0 then Inl (Fatal ''bad kex md size'')
      else
        let mdsz = word_of_int (EVP_MD_size md) :: u32 in
        bindR (xmalloc (unat (roundup need mdsz))) (\<lambda>digest.
        bindR (buffer_put_bignum2 L buffer_init shared_secret) (\<lambda>b.
          let pre = (if datafellows AND SSH_BUG_DERIVEKEY = 0 then bytes b else []) @ hash in
          bindR (mem_write digest 0 (H md (pre @ [c] @ session_id))) (\<lambda>digest.
          derive_loop (Suc (unat need)) (H md) need mdsz pre mdsz digest))))"

definition with_keys :: "Newkeys \<Rightarrow> byte list \<Rightarrow> byte list \<Rightarrow> byte list \<Rightarrow> Newkeys" where
  "with_keys nk iv key mkey =
     nk\<lparr>nk_enc := (nk_enc nk)\<lparr>enc_iv := Some iv, enc_key := Some key\<rparr>,
        nk_mac := (nk_mac nk)\<lparr>mac_key := Some mkey\<rparr>\<rparr>"

primrec derive_all :: "(byte \<Rightarrow> byte list res) \<Rightarrow> byte list \<Rightarrow> byte list list res" where
  "derive_all d [] = Inr []"
| "derive_all d (c # cs) = bindR (d c) (\<lambda>k. bindR (derive_all d cs) (\<lambda>ks. Inr (k # ks)))"

text \<open>The result is the new \<open>current_keys\<close> of the connection with the \<open>Kex\<close> whose \<open>newkeys\<close> moved there.\<close>

definition kex_derive_keys ::
  "bn_lib \<Rightarrow> (evp_md \<Rightarrow> int) \<Rightarrow> (evp_md \<Rightarrow> byte list \<Rightarrow> byte list) \<Rightarrow> u32 \<Rightarrow> Kex \<Rightarrow> byte list \<Rightarrow> int \<Rightarrow>
   ((kex_mode \<Rightarrow> Newkeys option) \<times> Kex) res" where
  "kex_derive_keys L EVP_MD_size H datafellows kex hash shared_secret =
     (let sid = (case k_session_id kex of None \<Rightarrow> [] | Some s \<Rightarrow> s) in
          bindR (derive_all (\<lambda>c. derive_key L EVP_MD_size H datafellows (k_evp_md kex) sid c (k_we_need kex) hash
              shared_secret) [0x41, 0x42, 0x43, 0x44, 0x45, 0x46]) (\<lambda>keys.
            let give = (\<lambda>mode nk. let ctos = ctos_of (k_server kex) mode in
                  with_keys nk (keys ! (if ctos then 0 else 1)) (keys ! (if ctos then 2 else 3))
                    (keys ! (if ctos then 4 else 5)))
            in case (k_newkeys kex MODE_IN, k_newkeys kex MODE_OUT) of
                 (Some nin, Some nout) \<Rightarrow>
                   Inr ((\<lambda>m. case m of MODE_IN \<Rightarrow> Some (give MODE_IN nin) | MODE_OUT \<Rightarrow> Some (give MODE_OUT nout)),
                        kex\<lparr>k_newkeys := (\<lambda>_. None)\<rparr>)
               | _ \<Rightarrow> Inl Mem_fault))"

section \<open>Diffie-Hellman values (dh.cpp)\<close>

text \<open>\<open>BN_cmp\<close>, \<open>BN_sub\<close> and \<open>BN_is_bit_set\<close> are those of the integers.\<close>

definition bits_set :: "bn_lib \<Rightarrow> int \<Rightarrow> nat" where
  "bits_set L v = length (filter (\<lambda>i. bit v i) [0 ..< nat (BN_num_bits L v) + 1])"

definition dh_pub_is_valid :: "bn_lib \<Rightarrow> int \<Rightarrow> int \<Rightarrow> bool" where
  "dh_pub_is_valid L p dh_pub =
     (if dh_pub < 0 then False
      else if \<not> dh_pub > 1 then False
      else if \<not> dh_pub < p - 1 then False
      else bits_set L dh_pub > 1)"

text \<open>The candidates \<open>cand\<close> are the key pairs \<open>BN_rand\<close> and \<open>DH_generate_key\<close> give in turn; \<open>tries\<close> is
  counted as in the source, so that at most 12 rounds are possible.\<close>

fun dh_gen_loop :: "nat \<Rightarrow> bn_lib \<Rightarrow> int \<Rightarrow> (nat \<Rightarrow> int \<times> int) \<Rightarrow> nat \<Rightarrow> (int \<times> int) res" where
  "dh_gen_loop 0 L p cand tries = Inl Diverge"
| "dh_gen_loop (Suc n) L p cand tries =
     (if tries > 10 then Inl (Fatal ''dh_gen_key: too many bad keys: giving up'')
      else if dh_pub_is_valid L p (snd (cand tries)) then Inr (cand tries)
      else dh_gen_loop n L p cand (tries + 1))"

definition dh_gen_key :: "bn_lib \<Rightarrow> int \<Rightarrow> (nat \<Rightarrow> int \<times> int) \<Rightarrow> int \<Rightarrow> (int \<times> int) res" where
  "dh_gen_key L p cand need =
     (if need > 2147483647 div 2 \<or> 2 * need \<ge> BN_num_bits L p then Inl (Fatal ''dh_gen_key: group too small'')
      else dh_gen_loop 12 L p cand 0)"

definition dh_estimate :: "int \<Rightarrow> int" where
  "dh_estimate bits = (if bits \<le> 128 then 1024 else if bits \<le> 192 then 2048 else 4096)"

section \<open>Derived keys are those of RFC 4253\<close>

text \<open>Key material in the words of section 7.2: \<open>first\<close> is the letter with the session identifier.\<close>

primrec kdf :: "(byte list \<Rightarrow> byte list) \<Rightarrow> byte list \<Rightarrow> byte list \<Rightarrow> nat \<Rightarrow> byte list" where
  "kdf h pre first 0 = []"
| "kdf h pre first (Suc k) =
     kdf h pre first k @ h (pre @ (if k = 0 then first else kdf h pre first k))"

definition blocks :: "nat \<Rightarrow> nat \<Rightarrow> nat" where
  "blocks need m = (need + (m - 1)) div m"

lemma length_kdf: "(\<And>x. length (h x) = m) \<Longrightarrow> length (kdf h pre first k) = k * m"
  by (induction k) simp_all

lemma blocks_less: "0 < m \<Longrightarrow> k * m < need \<Longrightarrow> k < blocks need m"
proof -
  assume m: "0 < m" and k: "k * m < need"
  have "(k * m + m) div m \<le> (need + (m - 1)) div m" using m k by (intro div_le_mono) simp
  then show "k < blocks need m" using m by (simp add: blocks_def)
qed

lemma blocks_upto: "0 < m \<Longrightarrow> need \<le> k * m \<Longrightarrow> blocks need m \<le> k"
proof -
  assume m: "0 < m" and k: "need \<le> k * m"
  have "(need + (m - 1)) div m \<le> (k * m + (m - 1)) div m" using k by (intro div_le_mono) simp
  also have "\<dots> = k + (m - 1) div m" using m by (simp only: div_mult_self3)
  also have "\<dots> = k" using m by simp
  finally show ?thesis by (simp add: blocks_def)
qed

lemma roundup_blocks:
  assumes "0 < m" "unat need + m < 4294967296"
  shows "unat (roundup need (of_nat m)) = blocks (unat need) m * m"
proof -
  have m1: "unat (of_nat m - 1 :: u32) = m - 1"
    using assms by (subst unat_minus_u32) (simp_all add: word_le_nat_alt)
  have "unat (need + (of_nat m - 1)) = unat need + (m - 1)"
    using assms m1 by (subst unat_plus_u32) simp_all
  then have d: "unat ((need + (of_nat m - 1)) div of_nat m) = blocks (unat need) m"
    using assms by (simp add: unat_div blocks_def)
  have "blocks (unat need) m * m \<le> unat need + (m - 1)" by (simp add: blocks_def)
  then have "blocks (unat need) m * m < 4294967296" using assms by simp
  then show ?thesis using assms d by (simp add: roundup_def unat_word_ariths)
qed

lemma derive_loop_kdf:
  assumes len: "\<And>x. length (h x) = m" and m: "0 < m" "unat need + m < 4294967296"
    and k: "0 < k" "k \<le> N" and N: "N = blocks (unat need) m"
    and fuel: "N - k < n"
    and dig: "digest = kdf h pre first k @ replicate (N * m - k * m) 0" and hv: "unat hv = k * m"
  shows "derive_loop n h need (of_nat m) pre hv digest = Inr (kdf h pre first N)"
  using k fuel dig hv
proof (induction n arbitrary: k digest hv)
  case (Suc n)
  note l = length_kdf [of h m pre first, OF len]
  show ?case
  proof (cases "need > hv")
    case True
    then have lt: "k * m < unat need" using Suc.prems(5) by (simp add: word_less_nat_alt)
    then have kN: "k < N" using blocks_less [OF m(1)] N by simp
    let ?d = "kdf h pre first (Suc k) @ replicate (N * m - Suc k * m) 0"
    have le: "Suc k * m \<le> N * m" using kN by (intro mult_le_mono1) simp
    have r: "mem_read digest 0 (unat hv) = Inr (kdf h pre first k)"
      using Suc.prems(4,5) l by (simp add: mem_read_def)
    have "replicate (N * m - k * m) (0 :: byte) = replicate m 0 @ replicate (N * m - Suc k * m) 0"
      using le by (simp add: replicate_add [symmetric])
    then have w: "mem_write digest (unat hv) (h (pre @ kdf h pre first k)) = Inr ?d"
      using Suc.prems(1,4,5) l len le by (simp add: mem_write_def)
    have hv': "unat (hv + of_nat m) = Suc k * m"
      using Suc.prems(5) m lt by (subst unat_plus_u32) simp_all
    have "derive_loop n h need (of_nat m) pre (hv + of_nat m) ?d = Inr (kdf h pre first N)"
      by (rule Suc.IH [where k = "Suc k", OF _ _ _ refl hv']) (use kN Suc.prems(3) in auto)
    then show ?thesis using True r w by simp
  next
    case False
    then have "unat need \<le> k * m" using Suc.prems(5) by (simp add: word_less_nat_alt)
    then have "k = N" using blocks_upto [OF m(1)] N Suc.prems(2) by (simp add: le_antisym)
    then show ?thesis using False Suc.prems(4) by simp
  qed
qed simp

lemma derive_key_kdf:
  assumes L: "openssl_bn L" "ok_bignum2 L secret"
    and H: "\<And>x. length (H md x) = nat (EVP_MD_size md)" and m: "0 < EVP_MD_size md"
    and need: "0 < need" "unat need + nat (EVP_MD_size md) < 2 ^ 32"
    and df: "df AND SSH_BUG_DERIVEKEY = 0"
  shows "derive_key L EVP_MD_size H df md sid c need hash secret =
    Inr (kdf (H md) (enc_bignum2 L secret @ hash) ([c] @ sid) (blocks (unat need) (nat (EVP_MD_size md))))"
proof -
  let ?m = "nat (EVP_MD_size md)" and ?pre = "enc_bignum2 L secret @ hash"
  let ?N = "blocks (unat need) ?m"
  have mp: "0 < ?m" using m by simp
  have N: "0 < ?N" using blocks_less [OF mp, of 0 "unat need"] need(1) by (simp add: word_less_nat_alt)
  have sz: "word_of_int (EVP_MD_size md) = (of_nat ?m :: u32)" using m by (metis int_nat_eq less_imp_le of_int_of_nat_eq)
  have ru: "unat (roundup need (of_nat ?m)) = ?N * ?m" using roundup_blocks [OF mp] need(2) by simp
  obtain b where b: "buffer_put_bignum2 L buffer_init secret = Inr b" "bytes b = enc_bignum2 L secret"
    using openssl_bn.put_bignum2_room [OF L room_init, of 0] by auto
  have w: "mem_write (replicate (?N * ?m) 0) 0 (H md (?pre @ [c] @ sid)) =
      Inr (kdf (H md) ?pre ([c] @ sid) 1 @ replicate (?N * ?m - 1 * ?m) 0)"
    using H N by (simp add: mem_write_def)
  have l: "derive_loop (Suc (unat need)) (H md) need (of_nat ?m) ?pre (of_nat ?m)
      (kdf (H md) ?pre ([c] @ sid) 1 @ replicate (?N * ?m - 1 * ?m) 0) = Inr (kdf (H md) ?pre ([c] @ sid) ?N)"
  proof (rule derive_loop_kdf [where k = 1, OF H mp _ _ _ refl _ refl])
    show "unat need + ?m < 4294967296" using need(2) by simp
    have "1 \<le> ?m" using mp by linarith
    then have "unat need \<le> unat need * ?m" using mult_le_mono2 [of 1 ?m "unat need"] by (simp only: mult_1_right)
    then have "?N \<le> unat need" by (rule blocks_upto [OF mp])
    then show "?N - 1 < Suc (unat need)" by simp
    show "unat (of_nat ?m :: u32) = 1 * ?m" using need(2) by simp
  qed (use N in simp_all)
  have x: "xmalloc (unat (roundup need (of_nat ?m))) = Inr (replicate (?N * ?m) 0)"
    unfolding ru xmalloc_def using N mp by simp
  have nm: "\<not> EVP_MD_size md \<le> 0" using m by simp
  show ?thesis
    by (simp only: derive_key_def Let_def sz x nm if_False if_True bindR_simps b df simp_thms
        append_assoc [symmetric] w [unfolded append_assoc [symmetric]] l [unfolded append_assoc [symmetric]])
qed

section \<open>Client and server agree\<close>

lemma choose_newkeys_mirror:
  "choose_newkeys sz df (ctos_of False MODE_OUT) c s = choose_newkeys sz df (ctos_of True MODE_IN) c s"
  "choose_newkeys sz df (ctos_of False MODE_IN) c s = choose_newkeys sz df (ctos_of True MODE_OUT) c s"
  by (simp_all add: ctos_of_def)

lemma if_less_max: "(if a < b then b else a) = max a (b :: 'a :: linorder)"
  by (auto simp: max_def)

lemma need_of_max:
  "need_of n nk = max (max (max n (enc_key_len (nk_enc nk))) (enc_block_size (nk_enc nk))) (mac_key_len (nk_mac nk))"
  by (simp only: need_of_def Let_def if_less_max)

lemma need_of_commute: "need_of (need_of n a) b = need_of (need_of n b) a"
  by (simp only: need_of_max max.commute max.left_commute max.assoc)

lemma need_of_ge:
  "n \<le> need_of n nk" "enc_key_len (nk_enc nk) \<le> need_of n nk" "enc_block_size (nk_enc nk) \<le> need_of n nk"
  "mac_key_len (nk_mac nk) \<le> need_of n nk"
  by (simp_all add: need_of_max le_max_iff_disj)

text \<open>What a negotiation has fixed.\<close>

definition outcome :: "Kex \<Rightarrow> kex_exchange \<times> evp_md \<times> key_type \<times> u32 \<times> string option" where
  "outcome k = (k_kex_type k, k_evp_md k, k_hostkey_type k, k_we_need k, k_name k)"

lemma choose_kex_Inr:
  "choose_kex k c s = Inr k' \<Longrightarrow>
     \<exists>t md n. k' = k\<lparr>k_name := Some n, k_kex_type := t, k_evp_md := md\<rparr> \<and>
       (\<forall>j. choose_kex j c s = Inr (j\<lparr>k_name := Some n, k_kex_type := t, k_evp_md := md\<rparr>))"
  by (auto simp: choose_kex_def Let_def split: option.splits if_splits)

lemma choose_hostkeyalg_Inr:
  "choose_hostkeyalg k c s = Inr k' \<Longrightarrow>
     \<exists>t. k' = k\<lparr>k_hostkey_type := t\<rparr> \<and> (\<forall>j. choose_hostkeyalg j c s = Inr (j\<lparr>k_hostkey_type := t\<rparr>))"
  by (auto simp: choose_hostkeyalg_def Let_def split: option.splits if_splits)

text \<open>The result of a negotiation, with the parts it is made of.\<close>

lemma choose_conf_Inr:
  assumes "choose_conf sz df k = Inr (k', skip)"
  obtains my f peer g cprop sprop nin nout t md n ht where
    "kex_buf2prop (k_my k) = Inr (my, f)" "kex_buf2prop (k_peer k) = Inr (peer, g)"
    "(cprop, sprop) = (if k_server k then (peer, my) else (my, peer))"
    "choose_newkeys sz df (ctos_of (k_server k) MODE_IN) cprop sprop = Inr nin"
    "choose_newkeys sz df (ctos_of (k_server k) MODE_OUT) cprop sprop = Inr nout"
    "\<And>j. choose_kex j (cprop ! PROPOSAL_KEX_ALGS) (sprop ! PROPOSAL_KEX_ALGS) =
       Inr (j\<lparr>k_name := Some n, k_kex_type := t, k_evp_md := md\<rparr>)"
    "\<And>j. choose_hostkeyalg j (cprop ! PROPOSAL_SERVER_HOST_KEY_ALGS) (sprop ! PROPOSAL_SERVER_HOST_KEY_ALGS) =
       Inr (j\<lparr>k_hostkey_type := ht\<rparr>)"
    "k' = k\<lparr>k_newkeys := (k_newkeys k)(MODE_IN := Some nin, MODE_OUT := Some nout), k_name := Some n,
       k_kex_type := t, k_evp_md := md, k_hostkey_type := ht, k_we_need := need_of (need_of 0 nin) nout\<rparr>"
proof -
  obtain my f where m: "kex_buf2prop (k_my k) = Inr (my, f)" using assms by (auto simp: choose_conf_def bindR_eq_Inr)
  obtain peer g where p: "kex_buf2prop (k_peer k) = Inr (peer, g)"
    using assms by (auto simp: choose_conf_def bindR_eq_Inr)
  obtain cprop sprop where cs: "(cprop, sprop) = (if k_server k then (peer, my) else (my, peer))"
    by (metis surj_pair)
  note split = cs [symmetric]
  obtain nin nout where n: "choose_newkeys sz df (ctos_of (k_server k) MODE_IN) cprop sprop = Inr nin"
    "choose_newkeys sz df (ctos_of (k_server k) MODE_OUT) cprop sprop = Inr nout"
    using assms by (auto simp: choose_conf_def bindR_eq_Inr m p split Let_def)
  let ?k = "k\<lparr>k_newkeys := (k_newkeys k)(MODE_IN := Some nin, MODE_OUT := Some nout)\<rparr>"
  obtain k1 k2 where k1: "choose_kex ?k (cprop ! PROPOSAL_KEX_ALGS) (sprop ! PROPOSAL_KEX_ALGS) = Inr k1"
    and k2: "choose_hostkeyalg k1 (cprop ! PROPOSAL_SERVER_HOST_KEY_ALGS) (sprop ! PROPOSAL_SERVER_HOST_KEY_ALGS) = Inr k2"
    and k': "k' = k2\<lparr>k_we_need := need_of (need_of 0 nin) nout\<rparr>"
    using assms by (auto simp: choose_conf_def bindR_eq_Inr m p n split Let_def)
  obtain t md nm where t: "k1 = ?k\<lparr>k_name := Some nm, k_kex_type := t, k_evp_md := md\<rparr>"
    "\<And>j. choose_kex j (cprop ! PROPOSAL_KEX_ALGS) (sprop ! PROPOSAL_KEX_ALGS) =
       Inr (j\<lparr>k_name := Some nm, k_kex_type := t, k_evp_md := md\<rparr>)" using choose_kex_Inr [OF k1] by blast
  obtain ht where h: "k2 = k1\<lparr>k_hostkey_type := ht\<rparr>"
    "\<And>j. choose_hostkeyalg j (cprop ! PROPOSAL_SERVER_HOST_KEY_ALGS) (sprop ! PROPOSAL_SERVER_HOST_KEY_ALGS) =
       Inr (j\<lparr>k_hostkey_type := ht\<rparr>)" using choose_hostkeyalg_Inr [OF k2] by blast
  show thesis by (rule that [OF m p cs n t(2) h(2)]) (simp add: k' h(1) t(1))
qed

lemma choose_conf_server: "choose_conf sz df k = Inr (k', skip) \<Longrightarrow> k_server k' = k_server k"
  by (erule choose_conf_Inr) simp

lemma choose_conf_need:
  assumes "choose_conf sz df k = Inr (k', skip)"
  shows "\<exists>nk. k_newkeys k' mode = Some nk \<and> enc_key_len (nk_enc nk) \<le> k_we_need k' \<and>
    enc_block_size (nk_enc nk) \<le> k_we_need k' \<and> mac_key_len (nk_mac nk) \<le> k_we_need k'"
  using assms
proof (rule choose_conf_Inr)
  fix nin nout t md n ht
  assume k: "k' = k\<lparr>k_newkeys := (k_newkeys k)(MODE_IN := Some nin, MODE_OUT := Some nout), k_name := Some n,
    k_kex_type := t, k_evp_md := md, k_hostkey_type := ht, k_we_need := need_of (need_of 0 nin) nout\<rparr>"
  show ?thesis
  proof (cases mode)
    case MODE_IN
    then show ?thesis using k need_of_ge [where n = 0 and nk = nin] need_of_ge(1) [of "need_of 0 nin" nout] by (auto intro: order.trans)
  next
    case MODE_OUT
    then show ?thesis using k need_of_ge [where n = "need_of 0 nin" and nk = nout] by auto
  qed
qed

lemma choose_conf_intro:
  assumes "kex_buf2prop (k_my k) = Inr (my, f)" "kex_buf2prop (k_peer k) = Inr (peer, g)"
    "(cprop, sprop) = (if k_server k then (peer, my) else (my, peer))"
    "choose_newkeys sz df (ctos_of (k_server k) MODE_IN) cprop sprop = Inr nin"
    "choose_newkeys sz df (ctos_of (k_server k) MODE_OUT) cprop sprop = Inr nout"
    "\<And>j. choose_kex j (cprop ! PROPOSAL_KEX_ALGS) (sprop ! PROPOSAL_KEX_ALGS) =
       Inr (j\<lparr>k_name := Some n, k_kex_type := t, k_evp_md := md\<rparr>)"
    "\<And>j. choose_hostkeyalg j (cprop ! PROPOSAL_SERVER_HOST_KEY_ALGS) (sprop ! PROPOSAL_SERVER_HOST_KEY_ALGS) =
       Inr (j\<lparr>k_hostkey_type := ht\<rparr>)"
  shows "\<exists>skip. choose_conf sz df k = Inr
    (k\<lparr>k_newkeys := (k_newkeys k)(MODE_IN := Some nin, MODE_OUT := Some nout), k_name := Some n,
       k_kex_type := t, k_evp_md := md, k_hostkey_type := ht, k_we_need := need_of (need_of 0 nin) nout\<rparr>, skip)"
  using assms(1,2,4-7) assms(3) [symmetric] by (simp add: choose_conf_def Let_def)

lemma negotiation_agrees:
  assumes "k_server s" "\<not> k_server c" "k_my c = k_peer s" "k_peer c = k_my s"
    and "choose_conf sz df s = Inr (s', skip)"
  shows "\<exists>c' skip'. choose_conf sz df c = Inr (c', skip') \<and> outcome c' = outcome s' \<and>
    k_newkeys c' MODE_OUT = k_newkeys s' MODE_IN \<and> k_newkeys c' MODE_IN = k_newkeys s' MODE_OUT"
proof -
  obtain my f peer g cprop sprop nin nout t md n ht where s:
    "kex_buf2prop (k_my s) = Inr (my, f)" "kex_buf2prop (k_peer s) = Inr (peer, g)"
    "(cprop, sprop) = (if k_server s then (peer, my) else (my, peer))"
    "choose_newkeys sz df (ctos_of (k_server s) MODE_IN) cprop sprop = Inr nin"
    "choose_newkeys sz df (ctos_of (k_server s) MODE_OUT) cprop sprop = Inr nout"
    "\<And>j. choose_kex j (cprop ! PROPOSAL_KEX_ALGS) (sprop ! PROPOSAL_KEX_ALGS) =
       Inr (j\<lparr>k_name := Some n, k_kex_type := t, k_evp_md := md\<rparr>)"
    "\<And>j. choose_hostkeyalg j (cprop ! PROPOSAL_SERVER_HOST_KEY_ALGS) (sprop ! PROPOSAL_SERVER_HOST_KEY_ALGS) =
       Inr (j\<lparr>k_hostkey_type := ht\<rparr>)"
    "s' = s\<lparr>k_newkeys := (k_newkeys s)(MODE_IN := Some nin, MODE_OUT := Some nout), k_name := Some n,
       k_kex_type := t, k_evp_md := md, k_hostkey_type := ht, k_we_need := need_of (need_of 0 nin) nout\<rparr>"
    by (rule choose_conf_Inr [OF assms(5)]) (rule that; blast)
  have p: "(cprop, sprop) = (if k_server c then (my, peer) else (peer, my))" using s(3) assms(1,2) by simp
  have i: "choose_newkeys sz df (ctos_of (k_server c) MODE_IN) cprop sprop = Inr nout"
    "choose_newkeys sz df (ctos_of (k_server c) MODE_OUT) cprop sprop = Inr nin"
    using s(4,5) assms(1,2) by (simp_all add: choose_newkeys_mirror)
  obtain skip' where "choose_conf sz df c = Inr
    (c\<lparr>k_newkeys := (k_newkeys c)(MODE_IN := Some nout, MODE_OUT := Some nin), k_name := Some n,
       k_kex_type := t, k_evp_md := md, k_hostkey_type := ht, k_we_need := need_of (need_of 0 nout) nin\<rparr>, skip')"
    using choose_conf_intro [of c peer g my f, OF _ _ p i s(6,7)] s(1,2) assms(3,4) by auto
  then show ?thesis by (simp add: s(8) outcome_def need_of_commute [of 0 nout nin])
qed

lemma derive_keys_agree:
  assumes "k_server s" "\<not> k_server c" "outcome c = outcome s" "k_session_id c = k_session_id s"
    and "k_newkeys c MODE_OUT = k_newkeys s MODE_IN" "k_newkeys c MODE_IN = k_newkeys s MODE_OUT"
    and "kex_derive_keys L sz H df s hash secret = Inr (ks, s')"
  shows "\<exists>kc c'. kex_derive_keys L sz H df c hash secret = Inr (kc, c') \<and>
    kc MODE_OUT = ks MODE_IN \<and> kc MODE_IN = ks MODE_OUT"
proof -
  have e: "k_evp_md c = k_evp_md s" "k_we_need c = k_we_need s" using assms(3) by (simp_all add: outcome_def)
  let ?sid = "case k_session_id s of None \<Rightarrow> [] | Some s \<Rightarrow> s"
  obtain keys nin nout where k: "derive_all (\<lambda>c. derive_key L sz H df (k_evp_md s) ?sid c (k_we_need s) hash secret)
      [0x41, 0x42, 0x43, 0x44, 0x45, 0x46] = Inr keys"
    and n: "k_newkeys s MODE_IN = Some nin" "k_newkeys s MODE_OUT = Some nout"
    using assms(7) by (auto simp: kex_derive_keys_def bindR_eq_Inr Let_def simp del: derive_all.simps split: option.splits)
  show ?thesis using assms(1,2,4-7) e n
    by (simp add: kex_derive_keys_def k Let_def ctos_of_def del: derive_all.simps) auto
qed

section \<open>Proposals on the wire\<close>

definition ok_proposal :: "string \<Rightarrow> bool" where
  "ok_proposal s \<longleftrightarrow> no_null s \<and> length s \<le> 256 * 1024"

definition enc_proposals :: "string list \<Rightarrow> byte list" where
  "enc_proposals ss = concat (map (\<lambda>s. enc_string (bytes_of_string s)) ss)"

lemma put_zeros_Inr:
  "buffer_inv b \<Longrightarrow> put_zeros n b = Inr b' \<Longrightarrow> buffer_inv b' \<and> bytes b' = bytes b @ replicate n 0"
proof (induction n arbitrary: b)
  case (Suc n)
  then obtain c where "buffer_put_char b 0 = Inr c" "put_zeros n c = Inr b'" by (auto simp: res_simps)
  with Suc.IH [of c] wchar.put_Inr [OF Suc.prems(1)] show ?case by auto
qed simp

lemma cstring_bytes: "no_null s \<Longrightarrow> takeWhile (\<lambda>c. c \<noteq> 0) (bytes_of_string s) = bytes_of_string s"
  by (auto simp: bytes_of_string_def byte_of_char_0 no_null_def takeWhile_eq_all_conv)

lemma put_cstrings_Inr:
  "buffer_inv b \<Longrightarrow> list_all ok_proposal ss \<Longrightarrow> put_cstrings ss b = Inr b' \<Longrightarrow>
     buffer_inv b' \<and> bytes b' = bytes b @ enc_proposals ss"
proof (induction ss arbitrary: b)
  case (Cons s ss)
  then obtain c where "buffer_put_string b (bytes_of_string s) = Inr c" "put_cstrings ss c = Inr b'"
    by (auto simp: res_simps buffer_put_cstring_def cstring_bytes ok_proposal_def)
  with Cons.IH [of c] put_string_Inr [OF Cons.prems(1)] Cons.prems(2) show ?case
    by (auto simp: enc_proposals_def)
qed (simp add: enc_proposals_def)

lemma skip_chars_ok:
  "buffer_inv b \<Longrightarrow> bytes b = d @ r \<Longrightarrow> \<exists>b'. skip_chars (length d) b = Inr b' \<and> buffer_inv b' \<and> bytes b' = r"
proof (induction d arbitrary: b)
  case (Cons x d)
  then obtain c where c: "buffer_get_char b = Inr (x, c)" "buffer_inv c" "bytes c = d @ r"
    using wchar.get_ok [of b x "d @ r"] by auto
  from Cons.IH [OF c(2,3)] c(1) show ?case by auto
qed simp

lemma get_proposals_ok:
  "buffer_inv b \<Longrightarrow> list_all ok_proposal ss \<Longrightarrow> bytes b = enc_proposals ss @ r \<Longrightarrow>
     \<exists>b'. get_proposals (length ss) b = Inr (ss, b') \<and> buffer_inv b' \<and> bytes b' = r"
proof (induction ss arbitrary: b)
  case (Cons s ss)
  have "ok_string (bytes_of_string s)" using Cons.prems(2) by (simp add: ok_proposal_def ok_string_def)
  then obtain c where c: "buffer_get_string b = Inr (bytes_of_string s, c)" "buffer_inv c" "bytes c = enc_proposals ss @ r"
    using wstring.get_ok [OF Cons.prems(1), of "bytes_of_string s" "enc_proposals ss @ r"] Cons.prems(3)
    by (auto simp: enc_proposals_def)
  from Cons.IH [OF c(2) _ c(3)] Cons.prems(2) c(1) show ?case
    by (auto simp: c_string_bytes_of_string ok_proposal_def)
qed (simp add: enc_proposals_def)

lemma read_contents:
  "buffer_inv b \<Longrightarrow> mem_read (b_buf b) (unat (b_offset b)) (unat (buffer_len b)) = Inr (bytes b)"
  by (simp add: mem_read_def unat_buffer_len length_bytes) (auto simp: buffer_inv_nat bytes_def)

lemma kex_prop_round_trip:
  assumes inv: "buffer_inv b" and ok: "list_all ok_proposal ss" "length ss = PROPOSAL_MAX"
    and put: "kex_prop2buf b ss = Inr b'" and small: "length (bytes b') \<le> 0x100000"
  shows "kex_buf2prop b' = Inr (ss, 0)"
proof -
  obtain b1 b2 b3 where b: "put_zeros KEX_COOKIE_LEN (buffer_clear b) = Inr b1" "put_cstrings ss b1 = Inr b2"
    "buffer_put_char b2 0 = Inr b3" "buffer_put_int b3 0 = Inr b'"
    using put by (auto simp: kex_prop2buf_def bindR_eq_Inr)
  have i1: "buffer_inv b1" "bytes b1 = replicate KEX_COOKIE_LEN 0"
    using put_zeros_Inr [OF buffer_clear_inv [OF inv] b(1)] by simp_all
  have i2: "buffer_inv b2" "bytes b2 = bytes b1 @ enc_proposals ss"
    using put_cstrings_Inr [OF i1(1) ok(1) b(2)] by simp_all
  have i3: "buffer_inv b3" "bytes b3 = bytes b2 @ [0]" using wchar.put_Inr [OF i2(1) b(3)] by simp_all
  have i4: "buffer_inv b'" "bytes b' = bytes b3 @ put_u32 0" using wint.put_Inr [OF i3(1) b(4)] by simp_all
  have all: "bytes b' = replicate KEX_COOKIE_LEN 0 @ enc_proposals ss @ [0] @ put_u32 0"
    using i1 i2 i3 i4 by simp
  obtain c where c: "buffer_append buffer_init (bytes b') = Inr c" "buffer_inv c" "bytes c = bytes b'"
    using append_room [of buffer_init "bytes b'" 0] room_init [of "length (bytes b') + 0x7fff"] small
    by (auto dest: room_inv)
  obtain c1 where c1: "skip_chars KEX_COOKIE_LEN c = Inr c1" "buffer_inv c1" "bytes c1 = enc_proposals ss @ [0] @ put_u32 0"
    using skip_chars_ok [OF c(2), of "replicate KEX_COOKIE_LEN 0"] c(3) all by auto
  obtain c2 where c2: "get_proposals PROPOSAL_MAX c1 = Inr (ss, c2)" "buffer_inv c2" "bytes c2 = [0] @ put_u32 0"
    using get_proposals_ok [OF c1(2) ok(1) c1(3)] ok(2) by auto
  obtain c3 where c3: "buffer_get_char c2 = Inr (0, c3)" "buffer_inv c3" "bytes c3 = put_u32 0"
    using wchar.get_ok [OF c2(2) _ c2(3)] by auto
  obtain c4 where c4: "buffer_get_int c3 = Inr (0, c4)"
    using wint.get_ok [OF c3(2), of 0 "[]"] c3(3) by auto
  show ?thesis
    using c(1) c1(1) c2(1) c3(1) c4 read_contents [OF i4(1)] by (simp add: kex_buf2prop_def)
qed

section \<open>Negotiation against the default proposals\<close>

lemma default_names:
  "list_all (\<lambda>p. cipher_by_name p \<noteq> None) (names KEX_DEFAULT_ENCRYPT)"
  "list_all (\<lambda>p. find (\<lambda>e. me_name e = p) macs \<noteq> None) (names KEX_DEFAULT_MAC)"
  "list_all (\<lambda>p. p \<in> set [''zlib@openssh.com'', ''zlib'', ''none'']) (names KEX_DEFAULT_COMP)"
  "list_all (\<lambda>p. p \<in> set [KEX_DH1, KEX_DH14]) (names KEX_DEFAULT_KEX)"
  "list_all (\<lambda>p. key_type_from_name p \<noteq> KEY_UNSPEC) (names KEX_DEFAULT_PK_ALG)"
  "''none'' \<notin> set (names KEX_DEFAULT_ENCRYPT)"
  by code_simp+

lemma mac_setup_by_id_total:
  assumes "\<And>md. 0 < sz md" "e \<in> set macs"
  shows "\<exists>m. mac_setup_by_id sz mac e = Inr m"
  using assms(2) assms(1) [THEN order.strict_implies_not_eq]
  by (auto simp: macs_def mac_setup_by_id_def mk_mac_def not_le assms(1) split: if_splits)

lemma dh_gen_loop_enough:
  "11 - tries < n \<Longrightarrow> dh_gen_loop n L p cand tries = Inr r \<longrightarrow> dh_pub_is_valid L p (snd r)"
  "11 - tries < n \<Longrightarrow> dh_gen_loop n L p cand tries \<noteq> Inl Diverge"
proof (induction n arbitrary: tries)
  case (Suc n)
  case 1
  show ?case
  proof (cases "tries > 10")
    case False
    then show ?thesis using Suc.IH(1) [of "tries + 1"] 1 by auto
  qed simp
  case 2
  show ?case
  proof (cases "tries > 10")
    case False
    then show ?thesis using Suc.IH(2) [of "tries + 1"] 2 by auto
  qed simp
qed simp_all

section \<open>A concrete exchange\<close>

text \<open>Two peers that send the default proposals; used to show that the properties are not empty.\<close>

lemma put_zeros_room: "room b (n * 0x8000 + m) \<Longrightarrow> \<exists>b'. put_zeros n b = Inr b' \<and> room b' m"
proof (induction n arbitrary: b)
  case (Suc n)
  then obtain c where c: "buffer_put_char b 0 = Inr c" "room c (n * 0x8000 + m)"
    using put_char_room [of b "n * 0x8000 + m" 0] by (auto simp: add.assoc)
  from Suc.IH [OF c(2)] c(1) show ?case by simp
qed simp

lemma put_cstrings_room:
  "list_all (\<lambda>s. no_null s \<and> length s \<le> 256) ss \<Longrightarrow> room b (length ss * 0x10102 + m) \<Longrightarrow>
     \<exists>b'. put_cstrings ss b = Inr b' \<and> room b' m \<and> bytes b' = bytes b @ enc_proposals ss"
proof (induction ss arbitrary: b)
  case (Cons s ss)
  have "room b (length (bytes_of_string s) + 0x10002 + (length ss * 0x10102 + m))"
    using Cons.prems by (elim room_mono) simp
  then obtain c where c: "buffer_put_string b (bytes_of_string s) = Inr c" "room c (length ss * 0x10102 + m)"
      "bytes c = bytes b @ enc_string (bytes_of_string s)"
    using put_string_room [of b "bytes_of_string s" "length ss * 0x10102 + m"] Cons.prems(1) by auto
  from Cons.IH [OF _ c(2)] Cons.prems(1) c(1,3) show ?case
    by (auto simp: buffer_put_cstring_def cstring_bytes enc_proposals_def)
qed (simp add: enc_proposals_def)

lemma def_proposal_short: "list_all (\<lambda>s. no_null s \<and> length s \<le> 256) def_proposal"
  by code_simp

lemma def_proposal_ok: "list_all ok_proposal def_proposal" "length def_proposal = PROPOSAL_MAX"
  using def_proposal_short
  by (auto simp: list_all_iff ok_proposal_def) (simp add: def_proposal_def PROPOSAL_MAX_def)

lemma default_proposal_buffer:
  "\<exists>b. kex_prop2buf buffer_init def_proposal = Inr b \<and> length (bytes b) \<le> 0x100000 \<and>
     kex_buf2prop b = Inr (def_proposal, 0)"
proof -
  note ok = def_proposal_short and len = def_proposal_ok(2)
  have ic: "room (buffer_clear buffer_init) 0x9ff000" by (simp add: room_def) (simp add: buffer_clear_def)
  obtain b1 where b1: "put_zeros KEX_COOKIE_LEN (buffer_clear buffer_init) = Inr b1" "room b1 0x900000"
    using put_zeros_room [of "buffer_clear buffer_init" KEX_COOKIE_LEN "0x900000"] room_mono [OF ic]
    by (auto simp: KEX_COOKIE_LEN_def)
  have z: "buffer_inv (buffer_clear buffer_init)" by simp
  have b1b: "bytes b1 = replicate KEX_COOKIE_LEN 0" using put_zeros_Inr [OF z b1(1)] by simp
  have "room b1 (length def_proposal * 0x10102 + 0x100000)"
    using b1(2) by (rule room_mono) (simp add: len PROPOSAL_MAX_def)
  then obtain b2 where b2: "put_cstrings def_proposal b1 = Inr b2" "room b2 0x100000"
    "bytes b2 = bytes b1 @ enc_proposals def_proposal"
    using put_cstrings_room [OF ok, of b1 "0x100000"] by blast
  obtain b3 where b3: "buffer_put_char b2 0 = Inr b3" "room b3 0x8003" "bytes b3 = bytes b2 @ [0]"
    using put_char_room [of b2 "0x8003" 0] room_mono [OF b2(2)] by auto
  obtain b4 where b4: "buffer_put_int b3 0 = Inr b4" "bytes b4 = bytes b3 @ put_u32 0"
    using put_int_room [of b3 0 0] b3(2) by auto
  have p: "kex_prop2buf buffer_init def_proposal = Inr b4"
    using b1(1) b2(1) b3(1) b4(1) by (simp add: kex_prop2buf_def)
  have "length (enc_proposals ss) \<le> length ss * 260" if "list_all (\<lambda>s. no_null s \<and> length s \<le> 256) ss" for ss
    using that by (induction ss) (auto simp: enc_proposals_def enc_string_def)
  from this [OF ok] have l: "length (bytes b4) \<le> 0x100000"
    by (simp add: b4(2) b3(3) b2(3) b1b len PROPOSAL_MAX_def KEX_COOKIE_LEN_def)
  from kex_prop_round_trip [OF buffer_init_inv def_proposal_ok p l] p l show ?thesis by blast
qed

definition std_md_size :: "evp_md \<Rightarrow> int" where
  "std_md_size md = (case md of EVP_sha1 \<Rightarrow> 20 | EVP_md5 \<Rightarrow> 16 | EVP_ripemd160 \<Rightarrow> 20 | Evp_ssh_sha256 \<Rightarrow> 32)"

definition zero_digest :: "evp_md \<Rightarrow> byte list \<Rightarrow> byte list" where
  "zero_digest md x = replicate (nat (std_md_size md)) 0"

definition start_kex :: "bool \<Rightarrow> Buffer \<Rightarrow> Kex" where
  "start_kex server b =
     \<lparr>k_session_id = None, k_newkeys = (\<lambda>_. None), k_we_need = 0, k_server = server, k_name = None,
      k_hostkey_type = KEY_RSA1, k_kex_type = KEX_DH_GRP1_SHA1, k_my = b, k_peer = b, k_done = False,
      k_init_sent = False, k_evp_md = EVP_sha1, k_client_version = [], k_server_version = []\<rparr>"

lemma default_choice:
  "\<exists>nk. choose_newkeys std_md_size 0 True def_proposal def_proposal = Inr nk \<and>
     choose_newkeys std_md_size 0 False def_proposal def_proposal = Inr nk \<and> need_of (need_of 0 nk) nk = 32"
  "choose_kex k (def_proposal ! 0) (def_proposal ! 0) =
     Inr (k\<lparr>k_name := Some KEX_DH14, k_kex_type := KEX_DH_GRP14_SHA1, k_evp_md := EVP_sha1\<rparr>)"
  "choose_hostkeyalg k (def_proposal ! 1) (def_proposal ! 1) = Inr (k\<lparr>k_hostkey_type := KEY_RSA\<rparr>)"
proof -
  have "case choose_newkeys std_md_size 0 True def_proposal def_proposal of Inl _ \<Rightarrow> False
    | Inr nk \<Rightarrow> choose_newkeys std_md_size 0 False def_proposal def_proposal = Inr nk \<and> need_of (need_of 0 nk) nk = 32"
    by code_simp
  then show "\<exists>nk. choose_newkeys std_md_size 0 True def_proposal def_proposal = Inr nk \<and>
     choose_newkeys std_md_size 0 False def_proposal def_proposal = Inr nk \<and> need_of (need_of 0 nk) nk = 32"
    by (auto split: sum.splits)
  have "fst (match_list (def_proposal ! 0) (def_proposal ! 0)) = Some KEX_DH14" "KEX_DH14 \<noteq> KEX_DH1"
    by code_simp+
  then show "choose_kex k (def_proposal ! 0) (def_proposal ! 0) =
     Inr (k\<lparr>k_name := Some KEX_DH14, k_kex_type := KEX_DH_GRP14_SHA1, k_evp_md := EVP_sha1\<rparr>)"
    by (simp add: choose_kex_def)
  have "fst (match_list (def_proposal ! 1) (def_proposal ! 1)) = Some ''ssh-rsa''"
    "key_type_from_name ''ssh-rsa'' = KEY_RSA" by code_simp+
  then show "choose_hostkeyalg k (def_proposal ! 1) (def_proposal ! 1) = Inr (k\<lparr>k_hostkey_type := KEY_RSA\<rparr>)"
    by (simp add: choose_hostkeyalg_def)
qed

lemma default_conf:
  assumes "kex_buf2prop b = Inr (def_proposal, 0)"
  shows "\<exists>k' nk skip. choose_conf std_md_size 0 (start_kex server b) = Inr (k', skip) \<and>
    k_newkeys k' MODE_IN = Some nk \<and> k_newkeys k' MODE_OUT = Some nk \<and> k_we_need k' = 32 \<and> k_evp_md k' = EVP_sha1"
proof -
  obtain nk where nk: "choose_newkeys std_md_size 0 True def_proposal def_proposal = Inr nk"
     "choose_newkeys std_md_size 0 False def_proposal def_proposal = Inr nk" "need_of (need_of 0 nk) nk = 32"
    using default_choice(1) by blast
  then have n: "choose_newkeys std_md_size 0 ctos def_proposal def_proposal = Inr nk" for ctos by (cases ctos) auto
  let ?k = "start_kex server b"
  have m: "kex_buf2prop (k_my ?k) = Inr (def_proposal, 0)" "kex_buf2prop (k_peer ?k) = Inr (def_proposal, 0)"
    using assms by (simp_all add: start_kex_def)
  have eq: "(def_proposal, def_proposal) = (if k_server ?k then (def_proposal, def_proposal) else (def_proposal, def_proposal))"
    by simp
  have c: "\<And>j. choose_kex j (def_proposal ! PROPOSAL_KEX_ALGS) (def_proposal ! PROPOSAL_KEX_ALGS) =
      Inr (j\<lparr>k_name := Some KEX_DH14, k_kex_type := KEX_DH_GRP14_SHA1, k_evp_md := EVP_sha1\<rparr>)"
    "\<And>j. choose_hostkeyalg j (def_proposal ! PROPOSAL_SERVER_HOST_KEY_ALGS) (def_proposal ! PROPOSAL_SERVER_HOST_KEY_ALGS) =
      Inr (j\<lparr>k_hostkey_type := KEY_RSA\<rparr>)"
    using default_choice(2,3) by (simp_all add: PROPOSAL_KEX_ALGS_def PROPOSAL_SERVER_HOST_KEY_ALGS_def)
  show ?thesis using choose_conf_intro [OF m eq n n c] nk(3) by force
qed

lemma default_enc:
  "(\<exists>e. choose_enc client KEX_DEFAULT_ENCRYPT = Inr e \<and> enc_name e \<noteq> ''none'') \<or>
     choose_enc client KEX_DEFAULT_ENCRYPT = Inl (Fatal ''no matching cipher found'')"
proof (cases "fst (match_list client KEX_DEFAULT_ENCRYPT)")
  case (Some n)
  then have n: "n \<in> set (names KEX_DEFAULT_ENCRYPT)" by (rule match_list_in_server)
  then have "n \<noteq> ''none''" using default_names(6) by metis
  moreover obtain c where "cipher_by_name n = Some c" using n default_names(1) by (auto simp: list_all_iff)
  ultimately show ?thesis using Some by (simp add: choose_enc_def)
qed (simp add: choose_enc_def)

lemma default_mac:
  assumes "\<forall>md. 0 < sz md"
  shows "(\<exists>m. choose_mac sz df client KEX_DEFAULT_MAC = Inr m) \<or>
     choose_mac sz df client KEX_DEFAULT_MAC = Inl (Fatal ''no matching mac found'')"
proof (cases "fst (match_list client KEX_DEFAULT_MAC)")
  case (Some n)
  then have "n \<in> set (names KEX_DEFAULT_MAC)" by (rule match_list_in_server)
  then obtain e where e: "find (\<lambda>e. me_name e = n) macs = Some e" using default_names(2) by (auto simp: list_all_iff)
  then have "e \<in> set macs" by (auto simp: find_Some_iff)
  then obtain m where "mac_setup_by_id sz mac_zero e = Inr m" using mac_setup_by_id_total assms by blast
  then show ?thesis using Some e by (simp add: choose_mac_def mac_setup_def)
qed (simp add: choose_mac_def)

lemma default_comp:
  "(\<exists>c. choose_comp client KEX_DEFAULT_COMP = Inr c) \<or>
     choose_comp client KEX_DEFAULT_COMP = Inl (Fatal ''no matching comp found'')"
proof (cases "fst (match_list client KEX_DEFAULT_COMP)")
  case (Some n)
  then have "n \<in> set (names KEX_DEFAULT_COMP)" by (rule match_list_in_server)
  then have "n \<in> set [''zlib@openssh.com'', ''zlib'', ''none'']" using default_names(3) by (simp only: list_all_iff)
  then show ?thesis using Some by (auto simp: choose_comp_def Let_def)
qed (simp add: choose_comp_def)

lemma default_kex:
  "(\<exists>k'. choose_kex k client KEX_DEFAULT_KEX = Inr k') \<or>
     choose_kex k client KEX_DEFAULT_KEX = Inl (Fatal ''Unable to negotiate a key exchange method'')"
proof (cases "fst (match_list client KEX_DEFAULT_KEX)")
  case (Some n)
  then have "n \<in> set (names KEX_DEFAULT_KEX)" by (rule match_list_in_server)
  then have "n \<in> set [KEX_DH1, KEX_DH14]" using default_names(4) by (simp only: list_all_iff)
  then show ?thesis using Some by (auto simp: choose_kex_def Let_def)
qed (simp add: choose_kex_def)

lemma default_hostkey:
  "(\<exists>k'. choose_hostkeyalg k client KEX_DEFAULT_PK_ALG = Inr k') \<or>
     choose_hostkeyalg k client KEX_DEFAULT_PK_ALG = Inl (Fatal ''no hostkey alg'')"
proof (cases "fst (match_list client KEX_DEFAULT_PK_ALG)")
  case (Some n)
  then have "n \<in> set (names KEX_DEFAULT_PK_ALG)" by (rule match_list_in_server)
  then have "key_type_from_name n \<noteq> KEY_UNSPEC" using default_names(5) by (auto simp: list_all_iff)
  then show ?thesis using Some by (simp add: choose_hostkeyalg_def)
qed (simp add: choose_hostkeyalg_def)

lemma dh_gen_loop_Inl: "dh_gen_loop n L p cand tries = Inl e \<Longrightarrow> e = Diverge \<or> (\<exists>m. e = Fatal m)"
  by (induction n arbitrary: tries) (auto split: if_splits)

lemma dh_gen_key_safe: "dh_gen_key L p cand need = Inl e \<Longrightarrow> \<exists>m. e = Fatal m"
  using dh_gen_loop_Inl [of 12 L p cand 0 e] dh_gen_loop_enough(2) [of 0 12 L p cand]
  by (auto simp: dh_gen_key_def split: if_splits)

section \<open>Properties\<close>

text \<open>C8: a client and a server that run this code on the same two KEXINIT messages agree: if the server's
  negotiation and key derivation succeed, so do the client's, and what one side sends with is what the
  other receives with, algorithms and keys, in both directions.\<close>

theorem both_sides_agree:
  assumes "k_server s" "\<not> k_server c" "k_my c = k_peer s" "k_peer c = k_my s"
    and "choose_conf EVP_MD_size df s = Inr (s', skip)"
    and "kex_derive_keys L EVP_MD_size H df (s'\<lparr>k_session_id := Some sid\<rparr>) hash secret = Inr (ks, s'')"
  shows "\<exists>c' skip' kc c''. choose_conf EVP_MD_size df c = Inr (c', skip') \<and> outcome c' = outcome s' \<and>
    kex_derive_keys L EVP_MD_size H df (c'\<lparr>k_session_id := Some sid\<rparr>) hash secret = Inr (kc, c'') \<and>
    kc MODE_OUT = ks MODE_IN \<and> kc MODE_IN = ks MODE_OUT"
proof -
  obtain c' skip' where c': "choose_conf EVP_MD_size df c = Inr (c', skip')" "outcome c' = outcome s'"
    "k_newkeys c' MODE_OUT = k_newkeys s' MODE_IN" "k_newkeys c' MODE_IN = k_newkeys s' MODE_OUT"
    using negotiation_agrees [OF assms(1-5)] by blast
  have srv: "k_server s'" "\<not> k_server c'"
    using choose_conf_server [OF assms(5)] choose_conf_server [OF c'(1)] assms(1,2) by simp_all
  let ?s = "s'\<lparr>k_session_id := Some sid\<rparr>" and ?c = "c'\<lparr>k_session_id := Some sid\<rparr>"
  have "\<exists>kc c''. kex_derive_keys L EVP_MD_size H df ?c hash secret = Inr (kc, c'') \<and>
    kc MODE_OUT = ks MODE_IN \<and> kc MODE_IN = ks MODE_OUT"
    by (rule derive_keys_agree [OF _ _ _ _ _ _ assms(6)]) (use srv c' in \<open>simp_all add: outcome_def\<close>)
  then show ?thesis using c'(1,2) by blast
qed

theorem both_sides_agree_witness:
  "\<exists>b s' skip ks s''. choose_conf std_md_size 0 (start_kex True b) = Inr (s', skip) \<and>
     kex_derive_keys int_bn std_md_size zero_digest 0 (s'\<lparr>k_session_id := Some []\<rparr>) [] 5 = Inr (ks, s'') \<and>
     (\<exists>c' skip' kc c''. choose_conf std_md_size 0 (start_kex False b) = Inr (c', skip') \<and> outcome c' = outcome s' \<and>
       kex_derive_keys int_bn std_md_size zero_digest 0 (c'\<lparr>k_session_id := Some []\<rparr>) [] 5 = Inr (kc, c'') \<and>
       kc MODE_OUT = ks MODE_IN \<and> kc MODE_IN = ks MODE_OUT)"
proof -
  obtain b where b: "kex_buf2prop b = Inr (def_proposal, 0)" using default_proposal_buffer by blast
  obtain s' nk skip where s: "choose_conf std_md_size 0 (start_kex True b) = Inr (s', skip)"
    "k_newkeys s' MODE_IN = Some nk" "k_newkeys s' MODE_OUT = Some nk" "k_we_need s' = 32" "k_evp_md s' = EVP_sha1"
    using default_conf [OF b, of True] by blast
  have ok: "ok_bignum2 int_bn 5" by code_simp
  have "\<exists>k. derive_key int_bn std_md_size zero_digest 0 EVP_sha1 [] c 32 [] 5 = Inr k" for c
    using derive_key_kdf [OF ibn.openssl_bn_axioms ok, of zero_digest EVP_sha1 std_md_size 32 0 "[]" c "[]"]
    by (simp add: zero_digest_def std_md_size_def)
  then obtain key where key: "\<And>c. derive_key int_bn std_md_size zero_digest 0 EVP_sha1 [] c 32 [] 5 = Inr (key c)" by metis
  obtain ks s'' where d: "kex_derive_keys int_bn std_md_size zero_digest 0 (s'\<lparr>k_session_id := Some []\<rparr>) [] 5 = Inr (ks, s'')"
    using s by (simp add: kex_derive_keys_def key)
  have k: "k_server (start_kex True b)" "\<not> k_server (start_kex False b)"
    "k_my (start_kex False b) = k_peer (start_kex True b)" "k_peer (start_kex False b) = k_my (start_kex True b)"
    by (simp_all add: start_kex_def)
  show ?thesis using s(1) d both_sides_agree [OF k s(1) d] by blast
qed

text \<open>C12: key material is derived as RFC 4253 says, is at least as long as needed, and the computation never
  leaves the allocated block and ends (for a positive digest size, without the DERIVEKEY workaround).\<close>

theorem derive_key_rfc4253:
  assumes "openssl_bn L" "ok_bignum2 L secret" "\<And>x. length (H md x) = nat (EVP_MD_size md)"
    "0 < EVP_MD_size md" "0 < need" "unat need + nat (EVP_MD_size md) < 2 ^ 32" "df AND SSH_BUG_DERIVEKEY = 0"
  shows "\<exists>key. derive_key L EVP_MD_size H df md sid c need hash secret = Inr key \<and> unat need \<le> length key \<and>
    key = kdf (H md) (enc_bignum2 L secret @ hash) ([c] @ sid) (blocks (unat need) (nat (EVP_MD_size md)))"
proof -
  let ?m = "nat (EVP_MD_size md)"
  have "unat need \<le> blocks (unat need) ?m * ?m"
    using blocks_less [of ?m "blocks (unat need) ?m" "unat need"] assms(4) by (meson less_irrefl not_le_imp_less zero_less_nat_eq)
  then show ?thesis using derive_key_kdf [where H = H and EVP_MD_size = EVP_MD_size and md = md, OF assms] length_kdf [OF assms(3)] by simp
qed

theorem derive_key_rfc4253_witness:
  "\<exists>key. derive_key int_bn std_md_size zero_digest 0 EVP_sha1 [7] 0x41 32 [9] 5 = Inr key \<and> 32 \<le> length key \<and>
     key = kdf (zero_digest EVP_sha1) (enc_bignum2 int_bn 5 @ [9]) ([0x41] @ [7]) (blocks 32 20)"
proof -
  have ok: "ok_bignum2 int_bn 5" by code_simp
  show ?thesis
    using derive_key_rfc4253 [OF ibn.openssl_bn_axioms ok, of zero_digest EVP_sha1 std_md_size 32 0 "[7]" "0x41" "[9]"]
    by (simp add: zero_digest_def std_md_size_def del: kdf.simps)
qed

text \<open>C20: whatever a client proposes, the choice of cipher, MAC, compression, key exchange and host key type
  against the server's default lists either succeeds or stops because nothing matches: no name of the lists
  is missing in the tables, and encryption is never switched off.\<close>

theorem default_negotiation_supported:
  assumes "\<forall>md. 0 < EVP_MD_size md"
  shows "((\<exists>e. choose_enc client KEX_DEFAULT_ENCRYPT = Inr e \<and> enc_name e \<noteq> ''none'') \<or>
      choose_enc client KEX_DEFAULT_ENCRYPT = Inl (Fatal ''no matching cipher found'')) \<and>
    ((\<exists>m. choose_mac EVP_MD_size df client KEX_DEFAULT_MAC = Inr m) \<or>
      choose_mac EVP_MD_size df client KEX_DEFAULT_MAC = Inl (Fatal ''no matching mac found'')) \<and>
    ((\<exists>c. choose_comp client KEX_DEFAULT_COMP = Inr c) \<or>
      choose_comp client KEX_DEFAULT_COMP = Inl (Fatal ''no matching comp found'')) \<and>
    ((\<exists>k'. choose_kex k client KEX_DEFAULT_KEX = Inr k') \<or>
      choose_kex k client KEX_DEFAULT_KEX = Inl (Fatal ''Unable to negotiate a key exchange method'')) \<and>
    ((\<exists>k'. choose_hostkeyalg k client KEX_DEFAULT_PK_ALG = Inr k') \<or>
      choose_hostkeyalg k client KEX_DEFAULT_PK_ALG = Inl (Fatal ''no hostkey alg''))"
  using default_enc default_mac assms default_comp default_kex default_hostkey by blast

theorem default_negotiation_supported_witness:
  "(\<forall>md. 0 < std_md_size md) \<and>
   ((\<exists>e. choose_enc ''none,aes128-cbc'' KEX_DEFAULT_ENCRYPT = Inr e \<and> enc_name e \<noteq> ''none'') \<or>
      choose_enc ''none,aes128-cbc'' KEX_DEFAULT_ENCRYPT = Inl (Fatal ''no matching cipher found''))"
proof -
  have a: "\<forall>md. 0 < std_md_size md" by (simp add: std_md_size_def split: evp_md.split)
  show ?thesis using a default_negotiation_supported [OF a, of "''none,aes128-cbc''" 0] by blast
qed

text \<open>C33: the number of bytes of key material asked for covers the cipher key, the cipher block and the MAC key of
  both directions.\<close>

theorem we_need_is_enough:
  assumes "choose_conf EVP_MD_size df k = Inr (k', skip)"
  shows "\<exists>nk. k_newkeys k' mode = Some nk \<and> enc_key_len (nk_enc nk) \<le> k_we_need k' \<and>
    enc_block_size (nk_enc nk) \<le> k_we_need k' \<and> mac_key_len (nk_mac nk) \<le> k_we_need k'"
  by (rule choose_conf_need [OF assms])

theorem we_need_is_enough_witness:
  "\<exists>b k' skip nk. choose_conf std_md_size 0 (start_kex True b) = Inr (k', skip) \<and>
     k_newkeys k' MODE_OUT = Some nk \<and> enc_key_len (nk_enc nk) \<le> k_we_need k'"
proof -
  obtain b where b: "kex_buf2prop b = Inr (def_proposal, 0)" using default_proposal_buffer by blast
  obtain k' skip where k: "choose_conf std_md_size 0 (start_kex True b) = Inr (k', skip)"
    using default_conf [OF b, of True] by blast
  then show ?thesis using we_need_is_enough [OF k, of MODE_OUT] by blast
qed

text \<open>The proposals written into a KEXINIT message of at most 1 MB are the ones read from it, with the flag of
  a guessed packet cleared.\<close>

theorem kexinit_round_trip:
  assumes "buffer_inv b" "list_all ok_proposal ss" "length ss = PROPOSAL_MAX"
    and "kex_prop2buf b ss = Inr b'" "length (bytes b') \<le> unat BUFFER_MAX_CHUNK"
  shows "kex_buf2prop b' = Inr (ss, 0)"
  using kex_prop_round_trip [OF assms(1-4)] assms(5) by (simp add: BUFFER_MAX_CHUNK_def)

theorem kexinit_round_trip_witness:
  "\<exists>b'. kex_prop2buf buffer_init def_proposal = Inr b' \<and> kex_buf2prop b' = Inr (def_proposal, 0)"
proof -
  obtain b' where b': "kex_prop2buf buffer_init def_proposal = Inr b'" "length (bytes b') \<le> unat BUFFER_MAX_CHUNK"
    using default_proposal_buffer by (auto simp: BUFFER_MAX_CHUNK_def)
  show ?thesis using b'(1) kexinit_round_trip [OF buffer_init_inv def_proposal_ok b'] by blast
qed

text \<open>\<open>dh_gen_key\<close> always ends, and the public value it returns lies strictly between 1 and p - 1 and is no
  power of two; otherwise the connection ends.\<close>

theorem dh_gen_key_valid:
  "case dh_gen_key L p cand need of
     Inr (priv, pub) \<Rightarrow> 1 < pub \<and> pub < p - 1 \<and> bits_set L pub > 1
   | Inl e \<Rightarrow> \<exists>m. e = Fatal m"
proof (cases "dh_gen_key L p cand need")
  case (Inl e)
  then show ?thesis using dh_gen_key_safe [of L p cand need] by auto
next
  case (Inr r)
  then have "dh_pub_is_valid L p (snd r)" using dh_gen_loop_enough(1) [of 0 12 L p cand r] by (auto simp: dh_gen_key_def split: if_splits)
  then show ?thesis using Inr by (cases r) (auto simp: dh_pub_is_valid_def split: if_splits)
qed

end
