(* ===== verification/Sftp_Path.thy ===== *)
theory Sftp_Path
  imports Ssh_Prelude
begin

text \<open>
  The path classes of \<open>sftp.h\<close> and \<open>sftp-server.cpp\<close>: \<open>Path\<close>, \<open>ShieSSHPath\<close>, \<open>SFTPFilePath\<close> and
  \<open>SFTPFilePathFactory\<close>, which turn the path of an SFTP request into a Windows path below the
  home directory of the user. The lemmas show the confinement to the home directory and that a path
  printed for the client is parsed back to itself. The compile-time options are those at the top of
  \<open>sftp-server.cpp\<close> (\<open>MATT_PATHES\<close>, \<open>PREPEND_SLASH_TO_CLIENT\<close>, no \<open>DREAMWEAVER_BUG\<close>).
  \<open>ndebug\<close> tells whether \<open>assert\<close> is compiled out; what the messages of exceptions print is not modelled.
\<close>

section \<open>Wide strings\<close>

type_synonym wchar = "16 word"
type_synonym wstring = "wchar list"

abbreviation Backslash :: wchar where "Backslash \<equiv> 0x5c"
abbreviation Slash :: wchar where "Slash \<equiv> 0x2f"
abbreviation Colon :: wchar where "Colon \<equiv> 0x3a"
abbreviation Question :: wchar where "Question \<equiv> 0x3f"
abbreviation Asterisk :: wchar where "Asterisk \<equiv> 0x2a"
abbreviation Point :: wstring where "Point \<equiv> [0x2e]"
abbreviation Point2 :: wstring where "Point2 \<equiv> [0x2e, 0x2e]"

text \<open>\<open>std::tolower\<close> with \<open>Path::loc\<close>, which is the classic locale.\<close>

definition tolower :: "wchar \<Rightarrow> wchar" where
  "tolower c = (if 0x41 \<le> c \<and> c \<le> 0x5a then c + 0x20 else c)"

definition assertion :: "bool \<Rightarrow> bool \<Rightarrow> unit res" where
  "assertion ndebug c = (if c \<or> ndebug then Inr () else Inl Assertion_failed)"

section \<open>Path\<close>

record Path =
  p_path :: "wstring list"
  p_drive :: wchar
  p_isRelative :: bool

definition has_drive_letter :: "'a Path_scheme \<Rightarrow> bool" where
  "has_drive_letter p \<longleftrightarrow> p_drive p \<noteq> Question"

definition nDirs :: "'a Path_scheme \<Rightarrow> nat" where
  "nDirs p = length (p_path p)"

fun has_double_backslash :: "wstring \<Rightarrow> bool" where
  "has_double_backslash (a # b # s) \<longleftrightarrow> a = Backslash \<and> b = Backslash \<or> has_double_backslash (b # s)"
| "has_double_backslash _ \<longleftrightarrow> False"

definition separator :: "wchar \<Rightarrow> bool" where
  "separator c \<longleftrightarrow> c = Backslash \<or> c = Colon"

text \<open>
  The loop of \<open>parse_path\<close>: the string is the part from position \<open>from\<close> on. The test \<open>pos > 0\<close> of the
  source always holds at its place, since \<open>pos > from\<close> there.
\<close>

function parse_path :: "bool \<Rightarrow> wstring \<Rightarrow> bool \<Rightarrow> Path \<Rightarrow> Path res" where
  "parse_path ndebug s firstIsDrive p =
     (if s = [] then Inr p
      else let pos = length (takeWhile (\<lambda>c. \<not> separator c) s) in
        if pos = length s then Inr (p\<lparr>p_path := p_path p @ [s]\<rparr>)
        else if pos = 0 then parse_path ndebug (drop 1 s) firstIsDrive p
        else if firstIsDrive then
          bindR (assertion ndebug (pos = 1)) (\<lambda>_.
            parse_path ndebug (drop (pos + 1) s) False (p\<lparr>p_drive := tolower (s ! 0)\<rparr>))
        else parse_path ndebug (drop (pos + 1) s) False (p\<lparr>p_path := p_path p @ [take pos s]\<rparr>))"
  by pat_completeness auto
termination by (relation "measure (\<lambda>(_, s, _, _). length s)") auto

declare parse_path.simps [simp del]

definition path_init :: "bool \<Rightarrow> wstring \<Rightarrow> Path res" where
  "path_init ndebug pathStr =
     (if has_double_backslash pathStr then Inl Invalid_path
      else if Colon \<in> set (drop 2 pathStr) then Inl Invalid_path
      else
        let drive = (if length pathStr \<ge> 2 \<and> pathStr ! 1 = Colon then pathStr ! 0 else Question);
            has_drive = drive \<noteq> Question;
            isRelative = (\<not> (length pathStr \<ge> 1 \<and> pathStr ! 0 = Backslash \<or>
              length pathStr \<ge> 3 \<and> has_drive \<and> pathStr ! 2 = Backslash))
        in
        if \<not> isRelative \<and> \<not> has_drive then Inl Invalid_path
        else bindR (parse_path ndebug pathStr has_drive
            \<lparr>p_path = [], p_drive = drive, p_isRelative = isRelative\<rparr>) (\<lambda>p.
          bindR (assertion ndebug (p_isRelative p \<or> length (p_path p) \<ge> 1 \<or> has_drive_letter p)) (\<lambda>_.
          Inr p)))"

fun join_path :: "wchar \<Rightarrow> wstring list \<Rightarrow> wstring" where
  "join_path sep [] = []"
| "join_path sep [x] = x"
| "join_path sep (x # y # r) = x @ [sep] @ join_path sep (y # r)"

definition to_string_generic :: "bool \<Rightarrow> 'a Path_scheme \<Rightarrow> wchar \<Rightarrow> wstring res" where
  "to_string_generic ndebug p sep =
     bindR (assertion ndebug (p_isRelative p \<or> length (p_path p) \<ge> 1 \<or> has_drive_letter p)) (\<lambda>_.
     Inr (if \<not> p_isRelative p \<and> has_drive_letter p
          then [p_drive p, Colon, sep] @ join_path sep (p_path p)
          else join_path sep (p_path p)))"

definition to_wstring :: "bool \<Rightarrow> 'a Path_scheme \<Rightarrow> wstring res" where
  "to_wstring ndebug p = to_string_generic ndebug p Backslash"

text \<open>\<open>to_string (bool)\<close>; an empty string makes \<open>s[s.length () - 1]\<close> an access out of range.\<close>

definition to_wstring_end :: "bool \<Rightarrow> 'a Path_scheme \<Rightarrow> bool \<Rightarrow> wstring res" where
  "to_wstring_end ndebug p endWithSlash =
     (if endWithSlash \<and> p_isRelative p \<and> p_path p = [] then Inl Invalid_path
      else if \<not> endWithSlash \<and> \<not> p_isRelative p \<and> p_path p = [] then Inl Invalid_path
      else bindR (to_wstring ndebug p) (\<lambda>s.
        if \<not> endWithSlash then Inr s
        else if s = [] then Inl Mem_fault
        else Inr (if last s = Backslash then s else s @ [Backslash])))"

definition unix_form :: "bool \<Rightarrow> 'a Path_scheme \<Rightarrow> wstring res" where
  "unix_form ndebug p = bindR (to_string_generic ndebug p Slash) (\<lambda>s. Inr (Slash # s))"

definition is_root_dir :: "'a Path_scheme \<Rightarrow> bool" where
  "is_root_dir p \<longleftrightarrow> \<not> p_isRelative p \<and> p_path p = []"

text \<open>One round of the loop of \<open>normalize\<close> on \<open>res\<close> and \<open>normalized\<close>.\<close>

definition normalize_dir :: "wstring \<Rightarrow> wstring list \<times> bool \<Rightarrow> wstring list \<times> bool" where
  "normalize_dir c st =
     (let (res, normalized) = st in
      if c = Point then (res, normalized)
      else if c = Point2 then
        (if res \<noteq> [] \<and> last res \<noteq> Point2 then (butlast res, normalized)
         else (res @ [Point2], False))
      else (res @ [c], normalized))"

definition path_normalize :: "Path \<Rightarrow> bool \<times> Path" where
  "path_normalize p =
     (let (res, normalized) = fold normalize_dir (p_path p) ([], True)
      in (normalized, p\<lparr>p_path := res\<rparr>))"

definition n_first_dirs :: "'a Path_scheme \<Rightarrow> nat \<Rightarrow> Path res" where
  "n_first_dirs p n =
     (if n > nDirs p then Inl Out_of_range
      else Inr \<lparr>p_path = take n (p_path p), p_drive = p_drive p, p_isRelative = p_isRelative p\<rparr>)"

section \<open>ShieSSHPath, concatenation and comparison\<close>

definition get_standard_form :: "wstring \<Rightarrow> wstring res" where
  "get_standard_form sshPath =
     (if length sshPath < 1 \<or> sshPath ! 0 \<noteq> Backslash then Inl Invalid_path
      else Inr (drop 1 sshPath))"

definition ShieSSHPath :: "bool \<Rightarrow> wstring \<Rightarrow> Path res" where
  "ShieSSHPath ndebug s =
     bindR (get_standard_form s) (\<lambda>s.
     bindR (path_init ndebug s) (\<lambda>p.
     Inr (p\<lparr>p_isRelative := \<not> has_drive_letter p\<rparr>)))"

definition path_append :: "'a Path_scheme \<Rightarrow> 'b Path_scheme \<Rightarrow> Path res" where
  "path_append prefix suffix =
     (if \<not> p_isRelative suffix then Inl Invalid_path
      else if has_drive_letter suffix \<and>
          (\<not> has_drive_letter prefix \<or> p_drive suffix \<noteq> p_drive prefix) then Inl Invalid_path
      else Inr \<lparr>p_path = p_path prefix @ p_path suffix, p_drive = p_drive prefix,
                p_isRelative = p_isRelative prefix\<rparr>)"

definition is_equal_ignore_case :: "wstring \<Rightarrow> wstring \<Rightarrow> bool" where
  "is_equal_ignore_case a b \<longleftrightarrow> list_all2 (\<lambda>x y. tolower x = tolower y) a b"

definition path_eq :: "'a Path_scheme \<Rightarrow> 'b Path_scheme \<Rightarrow> bool" where
  "path_eq a b \<longleftrightarrow> p_isRelative a = p_isRelative b \<and> p_drive a = p_drive b \<and>
     list_all2 is_equal_ignore_case (p_path a) (p_path b)"

section \<open>SFTPFilePath and its factory\<close>

record SFTPFilePath = Path +
  nUserHomePos :: nat

definition mk_SFTPFilePath :: "Path \<Rightarrow> nat \<Rightarrow> SFTPFilePath res" where
  "mk_SFTPFilePath p n =
     (if p_isRelative p then Inl Invalid_path
      else Inr (Path.extend p (SFTPFilePath.fields n)))"

definition longPrefix :: wstring where
  "longPrefix = [Backslash, Backslash, Question, Backslash]"

definition get_for_call :: "bool \<Rightarrow> SFTPFilePath \<Rightarrow> wstring res" where
  "get_for_call ndebug p =
     bindR (assertion ndebug (\<not> p_isRelative p)) (\<lambda>_.
     bindR (to_wstring ndebug p) (\<lambda>s. Inr (longPrefix @ s)))"

definition get_mask_for_dir_search :: "bool \<Rightarrow> SFTPFilePath \<Rightarrow> wstring res" where
  "get_mask_for_dir_search ndebug p =
     bindR (assertion ndebug (\<not> p_isRelative p)) (\<lambda>_.
     bindR (to_wstring_end ndebug p True) (\<lambda>s. Inr (longPrefix @ s @ [Asterisk])))"

text \<open>A relative home directory makes the constructor follow the null pointer \<open>userHomeDir\<close>.\<close>

definition SFTPFilePathFactory :: "bool \<Rightarrow> wstring \<Rightarrow> SFTPFilePath res" where
  "SFTPFilePathFactory ndebug home_dir =
     bindR (path_init ndebug home_dir) (\<lambda>home.
       if p_isRelative home then Inl Mem_fault
       else let (normalized, home) = path_normalize home in
         if \<not> normalized then Inl Invalid_path
         else mk_SFTPFilePath home (nDirs home))"

fun squeeze :: "bool \<Rightarrow> wstring \<Rightarrow> wstring" where
  "squeeze last_was_slash [] = []"
| "squeeze last_was_slash (c # s) =
     (if c = Backslash then (if last_was_slash then squeeze True s else c # squeeze True s)
      else c # squeeze False s)"

definition to_windows_path :: "wstring \<Rightarrow> wstring" where
  "to_windows_path s =
     (let r = squeeze False (map (\<lambda>c. if c = Slash then Backslash else c) s)
      in if r = [] \<or> r ! 0 \<noteq> Backslash then Backslash # r else r)"

definition create_path :: "bool \<Rightarrow> SFTPFilePath \<Rightarrow> wstring \<Rightarrow> SFTPFilePath res" where
  "create_path ndebug userHomeDir pathStr =
     bindR (ShieSSHPath ndebug (to_windows_path pathStr)) (\<lambda>path.
       let (normalized, path) = path_normalize path in
       if \<not> normalized then Inl Invalid_path
       else if p_isRelative path then
         bindR (path_append userHomeDir path) (\<lambda>p. mk_SFTPFilePath p (nDirs userHomeDir))
       else
         (case n_first_dirs path (nDirs userHomeDir) of
            Inl e \<Rightarrow> Inl Invalid_path
          | Inr q \<Rightarrow>
              if path_eq q userHomeDir \<and>
                 (\<not> has_drive_letter path \<or> p_drive path = p_drive userHomeDir)
              then mk_SFTPFilePath path (nDirs userHomeDir)
              else Inl Invalid_path))"

section \<open>Parsing\<close>

text \<open>A directory name as the parser yields it, and one that names an entry of its parent directory.\<close>

definition plain_dir :: "wstring \<Rightarrow> bool" where
  "plain_dir c \<longleftrightarrow> c \<noteq> [] \<and> (\<forall>x \<in> set c. \<not> separator x)"

definition entry_dir :: "wstring \<Rightarrow> bool" where
  "entry_dir c \<longleftrightarrow> plain_dir c \<and> c \<noteq> Point \<and> c \<noteq> Point2"

lemma assertion_eq_Inr [res_simps]: "assertion nd c = Inr u \<longleftrightarrow> c \<or> nd"
  by (simp add: assertion_def)

lemma plain_dir_take:
  assumes "s \<noteq> []" "length (takeWhile (\<lambda>c. \<not> separator c) s) = n" "n \<noteq> 0"
  shows "plain_dir (take n s)"
proof -
  have "take n s = takeWhile (\<lambda>c. \<not> separator c) s"
    using assms(2) by (metis takeWhile_eq_take)
  then show ?thesis using assms by (auto simp: plain_dir_def dest: set_takeWhileD)
qed

lemma parse_path_dirs:
  "parse_path nd s f p = Inr q \<Longrightarrow>
     p_isRelative q = p_isRelative p \<and> (\<exists>cs. p_path q = p_path p @ cs \<and> list_all plain_dir cs)"
proof (induction nd s f p rule: parse_path.induct)
  case (1 nd s f p)
  let ?pos = "length (takeWhile (\<lambda>c. \<not> separator c) s)"
  note plain = plain_dir_take [of s ?pos, OF _ refl]
  consider "s = []" | "s \<noteq> []" "?pos = length s" | "s \<noteq> []" "?pos \<noteq> length s" "?pos = 0"
    | "s \<noteq> []" "?pos \<noteq> length s" "?pos \<noteq> 0" f | "s \<noteq> []" "?pos \<noteq> length s" "?pos \<noteq> 0" "\<not> f"
    by blast
  then show ?case
  proof cases
    case 1
    then show ?thesis using "1.prems" by (simp add: parse_path.simps)
  next
    case 2
    then show ?thesis using "1.prems" plain by (simp add: parse_path.simps) force
  next
    case 3
    then show ?thesis using "1.prems" "1.IH"(1) [OF 3(1) refl 3(2,3)]
      by (simp add: parse_path.simps [of nd s])
  next
    case 4
    then show ?thesis using "1.prems" "1.IH"(2) [OF 4(1) refl 4(2,3,4)]
      by (simp add: parse_path.simps [of nd s] Let_def res_simps)
  next
    case 5
    then have "parse_path nd (drop (?pos + 1) s) False (p\<lparr>p_path := p_path p @ [take ?pos s]\<rparr>) = Inr q"
      using "1.prems" by (simp add: parse_path.simps [of nd s] Let_def)
    from "1.IH"(3) [OF 5(1) refl 5(2,3,4) this] plain 5 show ?thesis by auto
  qed
qed

lemma path_init_dirs:
  assumes "path_init nd s = Inr p"
  shows "list_all plain_dir (p_path p)"
    and "\<not> p_isRelative p \<Longrightarrow> 2 \<le> length s \<and> s ! 1 = Colon"
proof -
  define d where "d = (if length s \<ge> 2 \<and> s ! 1 = Colon then s ! 0 else Question)"
  define r where "r = (\<not> (length s \<ge> 1 \<and> s ! 0 = Backslash \<or>
    length s \<ge> 3 \<and> d \<noteq> Question \<and> s ! 2 = Backslash))"
  have d: "\<not> r \<Longrightarrow> d \<noteq> Question"
    and p: "parse_path nd s (d \<noteq> Question) \<lparr>p_path = [], p_drive = d, p_isRelative = r\<rparr> = Inr p"
    using assms unfolding path_init_def Let_def d_def [symmetric] r_def [symmetric]
    by (auto simp: res_simps split: if_splits)
  have d': "d \<noteq> Question \<Longrightarrow> 2 \<le> length s \<and> s ! 1 = Colon" by (auto simp: d_def split: if_splits)
  from parse_path_dirs [OF p] show "list_all plain_dir (p_path p)" by auto
  show "2 \<le> length s \<and> s ! 1 = Colon" if "\<not> p_isRelative p"
    using parse_path_dirs [OF p] that d d' by simp
qed

text \<open>Parsing a printed list of directories gives the list back.\<close>

lemma takeWhile_plain:
  assumes "plain_dir c"
  shows "takeWhile (\<lambda>c. \<not> separator c) (c @ Backslash # s) = c"
    and "takeWhile (\<lambda>c. \<not> separator c) c = c"
  using assms by (auto simp: plain_dir_def takeWhile_eq_all_conv separator_def)

lemma parse_join:
  "list_all plain_dir cs \<Longrightarrow>
     parse_path nd (join_path Backslash cs) False p = Inr (p\<lparr>p_path := p_path p @ cs\<rparr>)"
proof (induction cs arbitrary: p rule: induct_list012)
  case 1
  then show ?case by (simp add: parse_path.simps)
next
  case (2 x)
  then show ?case by (simp add: parse_path.simps takeWhile_plain) (simp add: plain_dir_def)
next
  case (3 x y r)
  then have x: "x \<noteq> []" "plain_dir x" by (auto simp: plain_dir_def)
  have "parse_path nd (join_path Backslash (x # y # r)) False p =
      parse_path nd (join_path Backslash (y # r)) False (p\<lparr>p_path := p_path p @ [x]\<rparr>)"
    using x by (subst parse_path.simps) (simp add: takeWhile_plain)
  then show ?case using 3 by simp
qed

section \<open>Normalisation\<close>

text \<open>The state of the loop: first the dots that could not be resolved, then proper entries.\<close>

definition norm_inv :: "wstring list \<times> bool \<Rightarrow> bool" where
  "norm_inv st \<longleftrightarrow>
     (\<exists>k es. fst st = replicate k Point2 @ es \<and> list_all (\<lambda>c. c \<noteq> Point \<and> c \<noteq> Point2) es \<and> (snd st \<longleftrightarrow> k = 0))"

lemma norm_invI:
  "res = replicate k Point2 @ es \<Longrightarrow> list_all (\<lambda>c. c \<noteq> Point \<and> c \<noteq> Point2) es \<Longrightarrow> (n \<longleftrightarrow> k = 0) \<Longrightarrow>
     norm_inv (res, n)"
  by (auto simp: norm_inv_def)

lemma norm_inv_step:
  assumes "norm_inv st"
  shows "norm_inv (normalize_dir c st)"
proof -
  obtain k es n where st: "st = (replicate k Point2 @ es, n)"
    and es: "list_all (\<lambda>c. c \<noteq> Point \<and> c \<noteq> Point2) es" and n: "n \<longleftrightarrow> k = 0"
    using assms by (cases st) (auto simp: norm_inv_def)
  show ?thesis
  proof (cases "c = Point2")
    case False
    show ?thesis
    proof (cases "c = Point")
      case True
      then show ?thesis using norm_invI [OF refl es n] by (simp add: normalize_dir_def st)
    next
      case np: False
      have "norm_inv (replicate k Point2 @ es @ [c], n)"
        by (rule norm_invI [OF refl _ n]) (use es np False in simp)
      then show ?thesis using False np by (simp add: normalize_dir_def st)
    qed
  next
    case True
    show ?thesis
    proof (cases es rule: rev_cases)
      case Nil
      have "norm_inv (replicate k Point2 @ [Point2], False)"
        by (rule norm_invI [of _ "Suc k" "[]"]) (simp_all add: replicate_append_same)
      then show ?thesis using True Nil by (cases k) (simp_all add: normalize_dir_def st last_replicate del: replicate_Suc)
    next
      case (snoc fs f)
      have "norm_inv (replicate k Point2 @ fs, n)"
        by (rule norm_invI [OF refl _ n]) (use es snoc in simp)
      then show ?thesis using True snoc es by (simp add: normalize_dir_def st butlast_append)
    qed
  qed
qed

lemma norm_inv_fold: "norm_inv st \<Longrightarrow> norm_inv (fold normalize_dir cs st)"
  by (induction cs arbitrary: st) (simp_all add: norm_inv_step)

lemma normalize_subset: "set (fst (fold normalize_dir cs st)) \<subseteq> set (fst st) \<union> set cs"
proof (induction cs arbitrary: st)
  case (Cons c cs)
  have "set (fst (normalize_dir c st)) \<subseteq> insert c (set (fst st))"
    by (auto simp: normalize_dir_def Let_def split: prod.splits if_splits dest: in_set_butlastD)
  with Cons.IH [of "normalize_dir c st"] show ?case by auto
qed simp

lemma normalize_True:
  assumes "path_normalize p = (True, q)"
  shows "q = p\<lparr>p_path := p_path q\<rparr>" and "list_all (\<lambda>c. c \<noteq> Point \<and> c \<noteq> Point2) (p_path q)"
    and "set (p_path q) \<subseteq> set (p_path p)"
proof -
  obtain res where f: "fold normalize_dir (p_path p) ([], True) = (res, True)" and q: "q = p\<lparr>p_path := res\<rparr>"
    using assms by (auto simp: path_normalize_def split: prod.splits)
  have "norm_inv ([], True)" by (rule norm_invI [of _ 0 "[]"]) simp_all
  from norm_inv_fold [OF this, of "p_path p"] f
  have "list_all (\<lambda>c. c \<noteq> Point \<and> c \<noteq> Point2) res" by (auto simp: norm_inv_def)
  moreover have "set res \<subseteq> set (p_path p)" using normalize_subset [of "p_path p" "([], True)"] f by simp
  ultimately show "q = p\<lparr>p_path := p_path q\<rparr>" and "list_all (\<lambda>c. c \<noteq> Point \<and> c \<noteq> Point2) (p_path q)"
    and "set (p_path q) \<subseteq> set (p_path p)" by (simp_all add: q)
qed

lemma normalize_entries:
  assumes "path_normalize p = (True, q)" "list_all plain_dir (p_path p)"
  shows "list_all entry_dir (p_path q)"
  using normalize_True [OF assms(1)] assms(2) by (auto simp: list_all_iff entry_dir_def)

lemma normalize_clean: "list_all entry_dir (p_path p) \<Longrightarrow> path_normalize p = (True, p)"
proof -
  have "list_all entry_dir cs \<Longrightarrow> fold normalize_dir cs (res, True) = (res @ cs, True)" for cs res
    by (induction cs arbitrary: res) (auto simp: normalize_dir_def entry_dir_def)
  from this [of "p_path p" "[]"] show "list_all entry_dir (p_path p) \<Longrightarrow> path_normalize p = (True, p)"
    by (simp add: path_normalize_def)
qed

section \<open>Confinement to the home directory\<close>

definition below_home :: "SFTPFilePath \<Rightarrow> SFTPFilePath \<Rightarrow> bool" where
  "below_home home p \<longleftrightarrow>
     \<not> p_isRelative p \<and> p_drive p = p_drive home \<and> nDirs home \<le> nDirs p \<and>
     list_all2 is_equal_ignore_case (take (nDirs home) (p_path p)) (p_path home) \<and>
     list_all entry_dir (p_path p)"

lemma mk_SFTPFilePath_eq_Inr [res_simps]:
  "mk_SFTPFilePath p n = Inr q \<longleftrightarrow> \<not> p_isRelative p \<and> q = Path.extend p (SFTPFilePath.fields n)"
  by (auto simp: mk_SFTPFilePath_def)

lemma extend_sel [simp]:
  "p_path (Path.extend p m) = p_path p" "p_drive (Path.extend p m) = p_drive p"
  "p_isRelative (Path.extend p m) = p_isRelative p"
  by (simp_all add: Path.extend_def)

lemma is_equal_ignore_case_refl [simp]: "is_equal_ignore_case a a"
  by (simp add: is_equal_ignore_case_def list_all2_refl)

lemma factory_home:
  assumes "SFTPFilePathFactory nd h = Inr home"
  shows "\<not> p_isRelative home" "list_all entry_dir (p_path home)" "nUserHomePos home = nDirs home"
proof -
  obtain p q where p: "path_init nd h = Inr p" "\<not> p_isRelative p" "path_normalize p = (True, q)"
    "mk_SFTPFilePath q (nDirs q) = Inr home"
    using assms by (auto simp: SFTPFilePathFactory_def res_simps split: if_splits prod.splits)
  show "\<not> p_isRelative home" "list_all entry_dir (p_path home)" "nUserHomePos home = nDirs home"
    using p path_init_dirs(1) [OF p(1)] normalize_True(1) [OF p(3)] normalize_entries [OF p(3)]
    by (auto simp: res_simps nDirs_def Path.extend_def SFTPFilePath.fields_def)
qed

lemma create_path_below:
  assumes home: "\<not> p_isRelative home" "list_all entry_dir (p_path home)"
    and c: "create_path nd home s = Inr p"
  shows "below_home home p" and "nUserHomePos p = nDirs home"
proof -
  obtain a where a: "ShieSSHPath nd (to_windows_path s) = Inr a"
    using c by (auto simp: create_path_def res_simps)
  obtain n b where "path_normalize a = (n, b)" by fastforce
  then have b: "path_normalize a = (True, b)" using c a by (cases n) (simp_all add: create_path_def)
  have res: "if p_isRelative b then \<exists>q. path_append home b = Inr q \<and> mk_SFTPFilePath q (nDirs home) = Inr p
      else \<exists>q. n_first_dirs b (nDirs home) = Inr q \<and> path_eq q home \<and> mk_SFTPFilePath b (nDirs home) = Inr p"
    using c a b by (auto simp: create_path_def bindR_eq_Inr split: if_splits sum.splits)
  have "list_all plain_dir (p_path a)"
    using a path_init_dirs(1) by (auto simp: ShieSSHPath_def res_simps)
  then have e: "list_all entry_dir (p_path b)" by (rule normalize_entries [OF b])
  show "below_home home p" "nUserHomePos p = nDirs home"
    using res e home
    by (auto simp: below_home_def res_simps path_append_def n_first_dirs_def path_eq_def nDirs_def
        Path.extend_def SFTPFilePath.fields_def list.rel_refl split: if_splits)
qed

section \<open>Paths printed for the client\<close>

definition drive_letter :: "wchar \<Rightarrow> bool" where
  "drive_letter d \<longleftrightarrow> 0x61 \<le> d \<and> d \<le> 0x7a"

lemma drive_letter_facts:
  assumes "drive_letter d"
  shows "d \<noteq> Backslash" "d \<noteq> Slash" "d \<noteq> Colon" "d \<noteq> Question" "tolower d = d"
proof -
  show "d \<noteq> Backslash" "d \<noteq> Slash" "d \<noteq> Colon" "d \<noteq> Question"
    using assms by (auto simp: drive_letter_def)
  show "tolower d = d"
    using assms order.trans [of "0x61" d "0x5a"] by (auto simp: drive_letter_def tolower_def)
qed

lemma set_join_path: "set (join_path sep cs) \<subseteq> insert sep (\<Union> (set ` set cs))"
  by (induction sep cs rule: join_path.induct) auto

lemma map_join_path:
  "list_all (\<lambda>c. Slash \<notin> set c) cs \<Longrightarrow>
     map (\<lambda>c. if c = Slash then Backslash else c) (join_path Slash cs) = join_path Backslash cs"
proof (induction cs rule: induct_list012)
  case (2 x)
  then show ?case by (auto intro!: map_idI)
next
  case (3 x y r)
  then have "map (\<lambda>c. if c = Slash then Backslash else c) x = x" by (auto intro!: map_idI)
  then show ?case using 3 by simp
qed simp

lemma squeeze_plain: "Backslash \<notin> set c \<Longrightarrow> c \<noteq> [] \<Longrightarrow> squeeze b (c @ s) = c @ squeeze False s"
  by (induction c arbitrary: b) (auto simp: neq_Nil_conv, metis append_Nil list.exhaust squeeze.simps(2))

lemma squeeze_join: "list_all plain_dir cs \<Longrightarrow> squeeze True (join_path Backslash cs) = join_path Backslash cs"
proof (induction cs rule: induct_list012)
  case (2 x)
  then show ?case using squeeze_plain [of x True "[]"] by (auto simp: plain_dir_def separator_def)
next
  case (3 x y r)
  then show ?case using squeeze_plain [of x True "Backslash # join_path Backslash (y # r)"]
    by (auto simp: plain_dir_def separator_def)
qed simp

lemma double_backslash_plain:
  "Backslash \<notin> set c \<Longrightarrow> c \<noteq> [] \<Longrightarrow> has_double_backslash (c @ s) = has_double_backslash s"
proof (induction c)
  case (Cons a c)
  then show ?case by (cases c; cases s) auto
qed simp

lemma double_backslash_join:
  "list_all plain_dir cs \<Longrightarrow> \<not> has_double_backslash (Backslash # join_path Backslash cs)"
proof (induction cs rule: induct_list012)
  case (2 x)
  then show ?case using double_backslash_plain [of x "[]"]
    by (cases x) (auto simp: plain_dir_def separator_def)
next
  case (3 x y r)
  then have "\<not> has_double_backslash (x @ Backslash # join_path Backslash (y # r))"
    using double_backslash_plain [of x "Backslash # join_path Backslash (y # r)"]
    by (auto simp: plain_dir_def separator_def)
  with 3 show ?case by (cases x) (auto simp: plain_dir_def separator_def)
qed simp

lemma join_no_leading:
  "list_all plain_dir cs \<Longrightarrow> join_path Backslash cs \<noteq> [] \<Longrightarrow> join_path Backslash cs ! 0 \<noteq> Backslash"
  using double_backslash_join [of cs] by (cases "join_path Backslash cs") auto

lemma path_init_absolute:
  assumes d: "drive_letter d" and cs: "list_all plain_dir cs"
  shows "path_init nd ([d, Colon, Backslash] @ join_path Backslash cs) =
    Inr \<lparr>p_path = cs, p_drive = d, p_isRelative = False\<rparr>"
proof -
  let ?s = "[d, Colon, Backslash] @ join_path Backslash cs"
  note dl = drive_letter_facts [OF d]
  have nd: "\<not> has_double_backslash ?s" using double_backslash_join [OF cs] dl by simp
  have "Colon \<notin> set (join_path Backslash cs)"
    using set_join_path [THEN subsetD, of Colon Backslash cs] cs
    by (auto simp: list_all_iff plain_dir_def separator_def)
  then have nc: "Colon \<notin> set (drop 2 ?s)" by simp
  have "parse_path nd ?s True q =
      parse_path nd (Backslash # join_path Backslash cs) False (q\<lparr>p_drive := d\<rparr>)" for q
    using dl by (subst parse_path.simps) (simp add: separator_def assertion_def)
  moreover have "parse_path nd (Backslash # join_path Backslash cs) False q =
      parse_path nd (join_path Backslash cs) False q" for q
    by (subst parse_path.simps) (simp add: separator_def)
  ultimately have "parse_path nd ?s True q = Inr (q\<lparr>p_drive := d, p_path := p_path q @ cs\<rparr>)" for q
    using parse_join [OF cs] by simp
  then show ?thesis
    using nd nc dl by (simp add: path_init_def assertion_def has_drive_letter_def)
qed

lemma create_path_unix_form:
  assumes below: "below_home home p" "nUserHomePos p = nDirs home"
    and d: "drive_letter (p_drive home)" and sl: "list_all (\<lambda>c. Slash \<notin> set c) (p_path p)"
    and home: "\<not> p_isRelative home"
  shows "\<exists>u. unix_form nd p = Inr u \<and> create_path nd home u = Inr p"
proof -
  let ?j = "join_path Backslash (p_path p)"
  note dl = drive_letter_facts [OF d]
  have b: "\<not> p_isRelative p" "p_drive p = p_drive home" "nDirs home \<le> nDirs p"
    "list_all2 is_equal_ignore_case (take (nDirs home) (p_path p)) (p_path home)"
    "list_all entry_dir (p_path p)"
    using below(1) by (simp_all add: below_home_def)
  then have cs: "list_all plain_dir (p_path p)" by (auto simp: list_all_iff entry_dir_def)
  let ?u = "[Slash, p_drive home, Colon, Slash] @ join_path Slash (p_path p)"
  have u: "unix_form nd p = Inr ?u"
    using b dl by (simp add: unix_form_def to_string_generic_def has_drive_letter_def assertion_def)
  have w: "to_windows_path ?u = [Backslash, p_drive home, Colon, Backslash] @ ?j"
    using dl squeeze_join [OF cs] by (simp add: to_windows_path_def map_join_path [OF sl] Let_def)
  let ?q = "\<lparr>p_path = p_path p, p_drive = p_drive home, p_isRelative = False\<rparr>"
  have s: "ShieSSHPath nd (to_windows_path ?u) = Inr ?q"
    using path_init_absolute [OF d cs] dl
    unfolding w by (simp add: ShieSSHPath_def get_standard_form_def has_drive_letter_def)
  have n: "path_normalize ?q = (True, ?q)" using b(5) by (simp add: normalize_clean)
  have m: "mk_SFTPFilePath ?q (nDirs home) = Inr p"
    using b below(2) by (simp add: mk_SFTPFilePath_def Path.extend_def SFTPFilePath.fields_def)
  show ?thesis
    using u s n m b home by (simp add: create_path_def n_first_dirs_def nDirs_def path_eq_def)
qed

lemma path_init_relative:
  assumes cs: "list_all plain_dir cs"
  shows "path_init nd (join_path Backslash cs) = Inr \<lparr>p_path = cs, p_drive = Question, p_isRelative = True\<rparr>"
proof -
  let ?j = "join_path Backslash cs"
  have nc: "Colon \<notin> set ?j"
    using set_join_path [THEN subsetD, of Colon Backslash cs] cs
    by (auto simp: list_all_iff plain_dir_def separator_def)
  have db: "\<not> has_double_backslash ?j"
    using double_backslash_join [OF cs] by (cases ?j) auto
  have "\<not> (2 \<le> length ?j \<and> ?j ! 1 = Colon)"
  proof
    assume a: "2 \<le> length ?j \<and> ?j ! 1 = Colon"
    then have "?j ! 1 \<in> set ?j" by (intro nth_mem) simp
    with a nc show False by simp
  qed
  moreover have lead: "\<not> (1 \<le> length ?j \<and> ?j ! 0 = Backslash)" using join_no_leading [OF cs] by fastforce
  moreover have "Colon \<notin> set (drop 2 ?j)" using nc by (meson in_set_dropD)
  ultimately show ?thesis
    using db lead parse_join [OF cs]
    by (auto simp: path_init_def assertion_def Let_def)
qed

lemma create_path_relative:
  assumes cs: "list_all entry_dir cs" and sl: "list_all (\<lambda>c. Slash \<notin> set c) cs"
    and home: "\<not> p_isRelative home"
  shows "\<exists>p. create_path nd home (join_path Slash cs) = Inr p \<and> p_path p = p_path home @ cs \<and>
    p_drive p = p_drive home \<and> \<not> p_isRelative p"
proof -
  let ?j = "join_path Backslash cs"
  have plain: "list_all plain_dir cs" using cs by (auto simp: list_all_iff entry_dir_def)
  note nb = join_no_leading [OF plain]
  then have "squeeze False ?j = ?j" using squeeze_join [OF plain] by (cases ?j) auto
  then have w: "to_windows_path (join_path Slash cs) = Backslash # ?j"
    using nb by (auto simp: to_windows_path_def map_join_path [OF sl] Let_def)
  let ?q = "\<lparr>p_path = cs, p_drive = Question, p_isRelative = True\<rparr>"
  have s: "ShieSSHPath nd (to_windows_path (join_path Slash cs)) = Inr ?q"
    unfolding w using path_init_relative [OF plain]
    by (simp add: ShieSSHPath_def get_standard_form_def has_drive_letter_def)
  have n: "path_normalize ?q = (True, ?q)" using cs by (simp add: normalize_clean)
  show ?thesis
    using s n home by (simp add: create_path_def path_append_def has_drive_letter_def mk_SFTPFilePath_def)
qed

section \<open>Properties\<close>

text \<open>C11: whatever path an SFTP client sends, the path the server works on is absolute, on the drive of the home
  directory, starts with the directories of the home directory (up to the case of letters), and has no
  component that is empty, "." or ".." or that holds a separator.\<close>

theorem sftp_confinement:
  assumes "SFTPFilePathFactory ndebug home_dir = Inr home" "create_path ndebug home s = Inr p"
  shows "below_home home p"
  using create_path_below(1) [OF factory_home(1,2) [OF assms(1)] assms(2)] .

theorem sftp_confinement_witness:
  "\<exists>home p. SFTPFilePathFactory False [0x43, 0x3a, 0x5c, 0x68] = Inr home \<and>
     create_path False home [0x2f, 0x61, 0x2f, 0x2e, 0x2e, 0x2f, 0x62] = Inr p \<and> below_home home p"
proof -
  let ?home = "\<lparr>p_path = [[0x68]], p_drive = 0x63, p_isRelative = False, nUserHomePos = 1\<rparr> :: SFTPFilePath"
  let ?p = "\<lparr>p_path = [[0x68], [0x62]], p_drive = 0x63, p_isRelative = False, nUserHomePos = 1\<rparr> :: SFTPFilePath"
  have h: "SFTPFilePathFactory False [0x43, 0x3a, 0x5c, 0x68] = Inr ?home" by code_simp
  have p: "create_path False ?home [0x2f, 0x61, 0x2f, 0x2e, 0x2e, 0x2f, 0x62] = Inr ?p" by code_simp
  show ?thesis using h p sftp_confinement [OF h p] by blast
qed

text \<open>C29: a path below the home directory that is printed for the client with \<open>unix_form\<close> (as in the replies to
  REALPATH) and sent back names the same file, if the home directory is on a letter drive and no name
  holds a slash.\<close>

theorem realpath_round_trip:
  assumes "SFTPFilePathFactory ndebug home_dir = Inr home" "drive_letter (p_drive home)"
    and "create_path ndebug home s = Inr p" "list_all (\<lambda>c. Slash \<notin> set c) (p_path p)"
  shows "\<exists>u. unix_form ndebug p = Inr u \<and> create_path ndebug home u = Inr p"
proof -
  note h = factory_home [OF assms(1)]
  show ?thesis by (rule create_path_unix_form [OF create_path_below [OF h(1,2) assms(3)] assms(2,4) h(1)])
qed

theorem realpath_round_trip_witness:
  "\<exists>home p u. SFTPFilePathFactory False [0x43, 0x3a, 0x5c, 0x68] = Inr home \<and>
     create_path False home [0x62] = Inr p \<and> unix_form False p = Inr u \<and> create_path False home u = Inr p"
proof -
  let ?home = "\<lparr>p_path = [[0x68]], p_drive = 0x63, p_isRelative = False, nUserHomePos = 1\<rparr> :: SFTPFilePath"
  let ?p = "\<lparr>p_path = [[0x68], [0x62]], p_drive = 0x63, p_isRelative = False, nUserHomePos = 1\<rparr> :: SFTPFilePath"
  have h: "SFTPFilePathFactory False [0x43, 0x3a, 0x5c, 0x68] = Inr ?home" by code_simp
  have d: "drive_letter (p_drive ?home)" by code_simp
  have p: "create_path False ?home [0x62] = Inr ?p" by code_simp
  have s: "list_all (\<lambda>c. Slash \<notin> set c) (p_path ?p)" by code_simp
  show ?thesis using h p realpath_round_trip [OF h d p s] by blast
qed

text \<open>a request for a relative path of proper names succeeds and names exactly that path below the home
  directory.\<close>

theorem sftp_relative_path:
  assumes "SFTPFilePathFactory ndebug home_dir = Inr home"
    and "list_all entry_dir cs" "list_all (\<lambda>c. Slash \<notin> set c) cs"
  shows "\<exists>p. create_path ndebug home (join_path Slash cs) = Inr p \<and> p_path p = p_path home @ cs \<and>
    p_drive p = p_drive home \<and> \<not> p_isRelative p"
  by (rule create_path_relative [OF assms(2,3) factory_home(1) [OF assms(1)]])

theorem sftp_relative_path_witness:
  "\<exists>home p. SFTPFilePathFactory False [0x43, 0x3a, 0x5c, 0x68] = Inr home \<and>
     create_path False home (join_path Slash [[0x61], [0x62]]) = Inr p \<and> p_path p = p_path home @ [[0x61], [0x62]]"
proof -
  let ?home = "\<lparr>p_path = [[0x68]], p_drive = 0x63, p_isRelative = False, nUserHomePos = 1\<rparr> :: SFTPFilePath"
  have h: "SFTPFilePathFactory False [0x43, 0x3a, 0x5c, 0x68] = Inr ?home" by code_simp
  have c: "list_all entry_dir [[0x61], [0x62]]" "list_all (\<lambda>c. Slash \<notin> set c) [[0x61], [0x62]]"
    by code_simp+
  show ?thesis using h sftp_relative_path [OF h c] by blast
qed

end
