(* ===== verification/Crypt.thy ===== *)
theory Crypt
  imports Ssh_Prelude Buf Wire Algs
begin

text \<open>
  Cipher contexts (\<open>cipher.cpp\<close>) and message authentication (\<open>mac.cpp\<close>) over the functions of OpenSSL, of
  \<open>umac.cpp\<close> and of zlib, which are the fields of the parameter \<open>crypto\<close>. The contract a pair of cipher
  contexts has to meet, that what one side encrypts the other decrypts in the two pieces the packet layer
  reads, is the locale \<open>evp_sync\<close>.
\<close>

section \<open>The libraries\<close>

text \<open>
  \<open>'ev\<close> is \<open>EVP_CIPHER_CTX\<close>, \<open>'z\<close> is \<open>z_stream\<close>. The two forms of \<open>EVP_CipherInit\<close> the code uses are two
  fields: with a type and an IV and no key, and with a key only. \<open>deflate z input avail_out\<close> is one call with
  \<open>Z_PARTIAL_FLUSH\<close>: the status, the output of at most \<open>avail_out\<close> bytes, the input left and the new stream.
\<close>

record ('ev, 'z) crypto =
  EVP_CipherInit :: "evp_cipher \<Rightarrow> byte list option \<Rightarrow> bool \<Rightarrow> 'ev option"
  EVP_CTX_key_length :: "'ev \<Rightarrow> int"
  EVP_CTX_set_key_length :: "'ev \<Rightarrow> u32 \<Rightarrow> 'ev option"
  EVP_CipherInit_key :: "'ev \<Rightarrow> byte list \<Rightarrow> 'ev option"
  EVP_Cipher :: "'ev \<Rightarrow> byte list \<Rightarrow> (byte list \<times> 'ev) option"
  EVP_MAX_MD_SIZE :: nat
  HMAC :: "evp_md \<Rightarrow> byte list \<Rightarrow> byte list \<Rightarrow> byte list"
  UMAC :: "byte list \<Rightarrow> byte list \<Rightarrow> byte list \<Rightarrow> byte list"
  deflateInit :: "int \<Rightarrow> 'z"
  deflate :: "'z \<Rightarrow> byte list \<Rightarrow> nat \<Rightarrow> int \<times> byte list \<times> byte list \<times> 'z"
  inflateInit :: 'z
  inflate :: "'z \<Rightarrow> byte list \<Rightarrow> nat \<Rightarrow> int \<times> byte list \<times> byte list \<times> 'z"
  arc4random :: "nat \<Rightarrow> u32"

section \<open>Cipher contexts\<close>

record 'ev CipherContext =
  cc_plaintext :: bool
  cc_evp :: 'ev
  cc_cipher :: Cipher

definition SSH_CIPHER_DES :: int where "SSH_CIPHER_DES = 2"

text \<open>\<open>key\<close> is the memory the key pointer points to, of which \<open>keylen\<close> bytes belong to the key.\<close>

definition cipher_init ::
  "('ev, 'z) crypto \<Rightarrow> Cipher \<Rightarrow> byte list \<Rightarrow> u32 \<Rightarrow> byte list option \<Rightarrow> u32 \<Rightarrow> bool \<Rightarrow> 'ev CipherContext res" where
  "cipher_init C cipher key keylen iv ivlen do_encrypt =
     (let keylen = (if c_number cipher = SSH_CIPHER_DES \<and> keylen > 8 then 8 else keylen) in
      bindR (guardR (\<not> keylen < c_key_len cipher) ''cipher_init: key length is insufficient'') (\<lambda>_.
      bindR (guardR (iv = None \<or> \<not> ivlen < c_block_size cipher) ''cipher_init: iv length is insufficient'') (\<lambda>_.
      bindR (someR (EVP_CipherInit C (c_evptype cipher) iv do_encrypt) ''cipher_init: EVP_CipherInit failed'') (\<lambda>evp.
      let klen = EVP_CTX_key_length C evp in
      bindR (if klen > 0 \<and> keylen \<noteq> word_of_int klen
             then someR (EVP_CTX_set_key_length C evp keylen) ''cipher_init: set keylen failed'' else Inr evp) (\<lambda>evp.
      bindR (someR (EVP_CipherInit_key C evp key) ''cipher_init: EVP_CipherInit: set key failed'') (\<lambda>evp.
      bindR (if c_discard_len cipher > 0
             then bindR (xmalloc (unat (c_discard_len cipher))) (\<lambda>junk.
                  bindR (someR (EVP_Cipher C evp junk) ''evp_crypt: EVP_Cipher failed during discard'') (\<lambda>(_, evp).
                  Inr evp))
             else Inr evp) (\<lambda>evp.
      Inr \<lparr>cc_plaintext = (c_number cipher = SSH_CIPHER_NONE), cc_evp = evp, cc_cipher = cipher\<rparr>)))))))"

definition cipher_crypt ::
  "('ev, 'z) crypto \<Rightarrow> 'ev CipherContext \<Rightarrow> byte list \<Rightarrow> (byte list \<times> 'ev CipherContext) res" where
  "cipher_crypt C cc src =
     bindR (modR (of_nat (length src)) (c_block_size (cc_cipher cc))) (\<lambda>m.
     bindR (guardR (m = 0) ''cipher_encrypt: bad plaintext length'') (\<lambda>_.
     bindR (someR (EVP_Cipher C (cc_evp cc) src) ''evp_crypt: EVP_Cipher failed'') (\<lambda>(dest, evp).
     Inr (dest, cc\<lparr>cc_evp := evp\<rparr>))))"

section \<open>Message authentication codes\<close>

text \<open>\<open>mac_init\<close> keys the context with \<open>mac_key\<close>, and \<open>mac_compute\<close> starts it afresh, so that the code is a
  function of the key, the sequence number and the data. The result says whether \<open>mac_init\<close> returned 0.\<close>

definition mac_init :: "Mac \<Rightarrow> bool res" where
  "mac_init mac =
     (if mac_key mac = None then Inl (Fatal ''mac_init: no key'')
      else Inr (case mac_ty mac of SSH_EVP \<Rightarrow> mac_evp_md mac \<noteq> None | SSH_UMAC \<Rightarrow> True))"

definition mac_compute :: "('ev, 'z) crypto \<Rightarrow> Mac \<Rightarrow> u32 \<Rightarrow> byte list \<Rightarrow> byte list res" where
  "mac_compute C mac seqno data =
     (if unat (mac_len mac) > EVP_MAX_MD_SIZE C then Inl (Fatal ''mac_compute: mac too long'')
      else
        let key = (case mac_key mac of None \<Rightarrow> [] | Some k \<Rightarrow> k) in
        case mac_ty mac of
          SSH_EVP \<Rightarrow> (case mac_evp_md mac of None \<Rightarrow> Inl Mem_fault
             | Some md \<Rightarrow> Inr (HMAC C md (take (unat (mac_key_len mac)) key) (put_u32 seqno @ data)))
        | SSH_UMAC \<Rightarrow> Inr (UMAC C key (put_u64 (ucast seqno)) data))"

definition mac_clear :: "Mac \<Rightarrow> Mac" where
  "mac_clear mac = mac\<lparr>mac_evp_md := None\<rparr>"

section \<open>The contract of a pair of contexts\<close>

text \<open>
  \<open>rel s r\<close>: what the sender encrypts under context \<open>s\<close> the receiver can decrypt under \<open>r\<close>. The packet layer
  encrypts a packet at once and decrypts its first block before the rest, so the law is about two pieces that
  are multiples of the block size.
\<close>

locale evp_sync =
  fixes do_cipher :: "'ev \<Rightarrow> byte list \<Rightarrow> (byte list \<times> 'ev) option" and bsize :: nat and rel :: "'ev \<Rightarrow> 'ev \<Rightarrow> bool"
  assumes enc_total: "rel s r \<Longrightarrow> bsize dvd length p \<Longrightarrow> \<exists>c s'. do_cipher s p = Some (c, s')"
    and enc_length: "rel s r \<Longrightarrow> do_cipher s p = Some (c, s') \<Longrightarrow> length c = length p"
    and dec_two: "rel s r \<Longrightarrow> bsize dvd length p \<Longrightarrow> bsize dvd length q \<Longrightarrow>
      do_cipher s (p @ q) = Some (c, s') \<Longrightarrow>
      \<exists>r1 r'. do_cipher r (take (length p) c) = Some (p, r1) \<and> do_cipher r1 (drop (length p) c) = Some (q, r') \<and> rel s' r'"
begin

lemma crypt_pair:
  assumes "rel s r" "bsize dvd length p" "bsize dvd length q"
  obtains c1 c2 s' r1 r' where "do_cipher s (p @ q) = Some (c1 @ c2, s')" "length c1 = length p" "length c2 = length q"
    "do_cipher r c1 = Some (p, r1)" "do_cipher r1 c2 = Some (q, r')" "rel s' r'"
proof -
  obtain c s' where e: "do_cipher s (p @ q) = Some (c, s')" using enc_total [OF assms(1), of "p @ q"] assms by auto
  obtain r1 r' where d: "do_cipher r (take (length p) c) = Some (p, r1)"
      "do_cipher r1 (drop (length p) c) = Some (q, r')" "rel s' r'" using dec_two [OF assms e] by blast
  have "length c = length p + length q" using enc_length [OF assms(1) e] by simp
  then show ?thesis using that [of "take (length p) c" "drop (length p) c" s' r1 r'] e d by simp
qed

end

text \<open>The null cipher of OpenSSL, the one of a connection before its first key exchange, copies its input.\<close>

definition null_cipher :: "'ev \<Rightarrow> byte list \<Rightarrow> (byte list \<times> 'ev) option" where
  "null_cipher ev src = Some (src, ev)"

interpretation null: evp_sync null_cipher 1 "\<lambda>s r. True"
  by unfold_locales (auto simp: null_cipher_def)

end
