(* ===== verification/Aes_Ctr.thy ===== *)
theory Aes_Ctr
  imports Ssh_Prelude Bignum Crypt
begin

text \<open>
  AES in counter mode (\<open>cipher-ctr.cpp\<close>): the counter, the cipher loop and its context. The AES block
  function of OpenSSL is the parameter \<open>AES_encrypt\<close>, its key schedule is opaque. The loop is shown to be
  counter mode: block \<open>i\<close> of the key stream is the encryption of the counter plus \<open>i\<close>.
\<close>

section \<open>The cipher\<close>

definition AES_BLOCK_SIZE :: nat where "AES_BLOCK_SIZE = 16"

record 'k ssh_aes_ctr_ctx =
  aes_ctx :: 'k
  aes_counter :: "byte list"

text \<open>The loop of \<open>ssh_ctr_inc\<close>: the argument is one more than its index \<open>i\<close>.\<close>

fun ctr_inc_loop :: "nat \<Rightarrow> byte list \<Rightarrow> byte list" where
  "ctr_inc_loop 0 ctr = ctr"
| "ctr_inc_loop (Suc i) ctr =
     (let ctr = ctr[i := ctr ! i + 1] in if ctr ! i \<noteq> 0 then ctr else ctr_inc_loop i ctr)"

definition ssh_ctr_inc :: "byte list \<Rightarrow> nat \<Rightarrow> byte list" where
  "ssh_ctr_inc ctr len = ctr_inc_loop len ctr"

fun aes_ctr_loop ::
  "(byte list \<Rightarrow> 'k \<Rightarrow> byte list) \<Rightarrow> 'k ssh_aes_ctr_ctx \<Rightarrow> nat \<Rightarrow> byte list \<Rightarrow> byte list \<Rightarrow>
   byte list \<times> 'k ssh_aes_ctr_ctx" where
  "aes_ctr_loop AES_encrypt c n buf [] = ([], c)"
| "aes_ctr_loop AES_encrypt c n buf (s # src) =
     (let (buf, c) =
        (if n = 0 then (AES_encrypt (aes_counter c) (aes_ctx c),
                        c\<lparr>aes_counter := ssh_ctr_inc (aes_counter c) AES_BLOCK_SIZE\<rparr>)
         else (buf, c));
      (dest, c') = aes_ctr_loop AES_encrypt c ((n + 1) mod AES_BLOCK_SIZE) buf src
      in ((s XOR buf ! n) # dest, c'))"

text \<open>The application data of the context is \<open>None\<close> before \<open>ssh_aes_ctr_init\<close>; then only the empty input is
  accepted.\<close>

definition ssh_aes_ctr ::
  "(byte list \<Rightarrow> 'k \<Rightarrow> byte list) \<Rightarrow> 'k ssh_aes_ctr_ctx option \<Rightarrow> byte list \<Rightarrow>
   (byte list \<times> 'k ssh_aes_ctr_ctx option) option" where
  "ssh_aes_ctr AES_encrypt ctx src =
     (if src = [] then Some ([], ctx)
      else case ctx of None \<Rightarrow> None
        | Some c \<Rightarrow> (case aes_ctr_loop AES_encrypt c 0 (replicate AES_BLOCK_SIZE 0) src of
            (dest, c) \<Rightarrow> Some (dest, Some c)))"

definition ssh_aes_ctr_init ::
  "(byte list \<Rightarrow> 'k) \<Rightarrow> 'k \<Rightarrow> nat \<Rightarrow> 'k ssh_aes_ctr_ctx option \<Rightarrow> byte list option \<Rightarrow> byte list option \<Rightarrow>
   'k ssh_aes_ctr_ctx option res" where
  "ssh_aes_ctr_init AES_set_encrypt_key raw key_length ctx key iv =
     (let c = (case ctx of None \<Rightarrow> \<lparr>aes_ctx = raw, aes_counter = replicate AES_BLOCK_SIZE 0\<rparr> | Some c \<Rightarrow> c) in
      bindR (case key of None \<Rightarrow> Inr c
             | Some k \<Rightarrow> bindR (mem_read k 0 key_length) (\<lambda>k. Inr (c\<lparr>aes_ctx := AES_set_encrypt_key k\<rparr>))) (\<lambda>c.
      case iv of None \<Rightarrow> Inr (Some c)
      | Some v \<Rightarrow> bindR (mem_read v 0 AES_BLOCK_SIZE) (\<lambda>d. Inr (Some (c\<lparr>aes_counter := d\<rparr>)))))"

definition ssh_aes_ctr_cleanup :: "'k ssh_aes_ctr_ctx option \<Rightarrow> 'k ssh_aes_ctr_ctx option" where
  "ssh_aes_ctr_cleanup ctx = None"

text \<open>With \<open>doset\<close> the counter's first \<open>len\<close> bytes are replaced, without it they are returned in \<open>iv\<close>.\<close>

definition ssh_aes_ctr_iv ::
  "'k ssh_aes_ctr_ctx option \<Rightarrow> bool \<Rightarrow> byte list \<Rightarrow> nat \<Rightarrow> (byte list \<times> 'k ssh_aes_ctr_ctx option) res" where
  "ssh_aes_ctr_iv ctx doset iv len =
     (case ctx of None \<Rightarrow> Inl (Fatal ''ssh_aes_ctr_iv: no context'')
      | Some c \<Rightarrow>
          if doset then
            bindR (mem_read iv 0 len) (\<lambda>d. bindR (mem_write (aes_counter c) 0 d) (\<lambda>ctr.
            Inr (iv, Some (c\<lparr>aes_counter := ctr\<rparr>))))
          else
            bindR (mem_read (aes_counter c) 0 len) (\<lambda>d. bindR (mem_write iv 0 d) (\<lambda>iv. Inr (iv, ctx))))"

section \<open>The counter counts\<close>

lemma ctr_inc_loop_length [simp]: "length (ctr_inc_loop n ctr) = length ctr"
  by (induction n ctr rule: ctr_inc_loop.induct) (simp_all add: Let_def)

lemma unat_byte_less: "unat (x :: byte) < 256"
  using unsigned_less [of x, where 'a = nat] by simp

lemma be_val_append: "be_val (xs @ ys) = be_val xs * 256 ^ length ys + be_val ys"
proof (induction ys rule: rev_induct)
  case (snoc y ys)
  have "be_val (xs @ ys @ [y]) = be_val (xs @ ys) * 256 + unat y"
    using be_val_snoc [of "xs @ ys" y] by simp
  then show ?case using snoc by (simp add: algebra_simps)
qed simp

lemma be_val_less: "be_val xs < 256 ^ length xs"
proof (induction xs rule: rev_induct)
  case (snoc x xs)
  have "unat x < 256" by (rule unat_byte_less)
  then have "be_val xs * 256 + unat x < be_val xs * 256 + 256" by simp
  also have "\<dots> \<le> 256 ^ length xs * 256" using snoc by (simp add: Suc_leI flip: mult_Suc)
  finally show ?case by (simp add: mult.commute)
qed simp

lemma ctr_inc_loop_append:
  "n \<le> length xs \<Longrightarrow> ctr_inc_loop n (xs @ ys) = ctr_inc_loop n xs @ ys"
proof (induction n arbitrary: xs)
  case (Suc n)
  then have n: "n < length xs" by simp
  then have "ctr_inc_loop n (xs[n := xs ! n + 1] @ ys) = ctr_inc_loop n (xs[n := xs ! n + 1]) @ ys"
    by (intro Suc.IH) simp
  with n show ?case by (auto simp: Let_def nth_append list_update_append)
qed simp

lemma ctr_inc_loop_value:
  "be_val (ctr_inc_loop (length ctr) ctr) = (be_val ctr + 1) mod 256 ^ length ctr"
proof (induction ctr rule: rev_induct)
  case (snoc x ctr)
  let ?n = "length ctr"
  have less: "be_val ctr < 256 ^ ?n" by (rule be_val_less)
  show ?case
  proof (cases "x + 1 = 0")
    case True
    then have "x = 255" by (simp add: add_eq_0_iff2)
    then have x: "unat x = 255" by simp
    have "ctr_inc_loop (Suc ?n) (ctr @ [x]) = ctr_inc_loop ?n ctr @ [0]"
      using True by (simp add: Let_def ctr_inc_loop_append)
    then have "be_val (ctr_inc_loop (Suc ?n) (ctr @ [x])) = (be_val ctr + 1) mod 256 ^ ?n * 256"
      using snoc by simp
    also have "\<dots> = (be_val ctr + 1) * 256 mod (256 ^ ?n * 256)" by (simp add: mult_mod_left)
    also have "(be_val ctr + 1) * 256 = be_val (ctr @ [x]) + 1" using x by simp
    finally show ?thesis by (simp add: mult.commute)
  next
    case False
    then have x: "unat (x + 1) = unat x + 1" by (metis Suc_eq_plus1 add.commute unatSuc)
    have "unat (x + 1) < 256" by (rule unat_byte_less)
    then have "be_val (ctr @ [x]) + 1 < be_val ctr * 256 + 256" using x by simp
    also have "\<dots> \<le> 256 ^ ?n * 256" using less by (simp add: Suc_leI flip: mult_Suc)
    finally have b: "be_val (ctr @ [x]) + 1 < 256 ^ length (ctr @ [x])" by (simp add: mult.commute)
    have "ctr_inc_loop (Suc ?n) (ctr @ [x]) = ctr @ [x + 1]" using False by (simp add: Let_def)
    then show ?thesis using b x by simp
  qed
qed simp

lemma be_bytes_be_val: "be_bytes (length xs) (be_val xs) = xs"
proof (induction xs rule: rev_induct)
  case (snoc x xs)
  have "unat x < 256" by (rule unat_byte_less)
  then have "(be_val xs * 256 + unat x) div 256 = be_val xs" "(be_val xs * 256 + unat x) mod 256 = unat x"
    by simp_all
  then show ?case using snoc by simp
qed simp

lemma be_val_zeros: "be_val (replicate n 0) = 0"
  by (induction n) simp_all

definition block_at :: "nat \<Rightarrow> byte list" where
  "block_at v = be_bytes AES_BLOCK_SIZE (v mod 256 ^ AES_BLOCK_SIZE)"

lemma length_block_at [simp]: "length (block_at v) = AES_BLOCK_SIZE"
  by (simp add: block_at_def)

lemma be_val_block_at [simp]: "be_val (block_at v) = v mod 256 ^ AES_BLOCK_SIZE"
  by (simp add: block_at_def be_val_be_bytes)

lemma block_at_shift: "block_at (be_val (block_at v) + i) = block_at (v + i)"
  unfolding be_val_block_at by (simp add: block_at_def mod_simps)

lemma block_at_be_val: "length ctr = AES_BLOCK_SIZE \<Longrightarrow> block_at (be_val ctr) = ctr"
  using be_val_less [of ctr] be_bytes_be_val [of ctr] by (simp add: block_at_def)

lemma ctr_inc_block_at: "ssh_ctr_inc (block_at v) AES_BLOCK_SIZE = block_at (v + 1)"
proof -
  let ?c = "ctr_inc_loop (length (block_at v)) (block_at v)"
  have "be_val ?c = (v + 1) mod 256 ^ AES_BLOCK_SIZE"
    by (subst ctr_inc_loop_value) (simp add: mod_simps)
  then have "block_at (be_val ?c) = block_at (v + 1)" by (simp add: block_at_def)
  moreover have "block_at (be_val ?c) = ?c" by (rule block_at_be_val) simp
  ultimately show ?thesis by (simp add: ssh_ctr_inc_def)
qed

section \<open>The loop is counter mode\<close>

text \<open>Byte \<open>j\<close> of the key stream that starts at counter value \<open>v\<close> (RFC 4344, section 4).\<close>

definition key_stream :: "(byte list \<Rightarrow> 'k \<Rightarrow> byte list) \<Rightarrow> 'k \<Rightarrow> nat \<Rightarrow> nat \<Rightarrow> byte" where
  "key_stream E k v j = E (block_at (v + j div AES_BLOCK_SIZE)) k ! (j mod AES_BLOCK_SIZE)"

definition blocks_of :: "nat \<Rightarrow> nat" where
  "blocks_of n = (n + (AES_BLOCK_SIZE - 1)) div AES_BLOCK_SIZE"

lemma blocks_of_eq:
  "blocks_of j = (if j mod AES_BLOCK_SIZE = 0 then j div AES_BLOCK_SIZE else j div AES_BLOCK_SIZE + 1)"
proof -
  let ?q = "j div 16" and ?r = "j mod 16"
  have "j + 15 = ?r + 15 + ?q * 16" by simp
  then have e: "(j + 15) div 16 = (?r + 15) div 16 + ?q" by (metis div_mult_self1 add.commute zero_neq_numeral)
  have "?r + 15 = (?r - 1) + 16" if "?r \<noteq> 0" using that by simp
  then have "(?r + 15) div 16 = 1" if "?r \<noteq> 0" using that by (metis add_diff_inverse_nat div_add_self2 div_less
      less_imp_diff_less mod_less_divisor one_plus_numeral_commute plus_nat.add_0 zero_less_numeral zero_neq_numeral add_0)
  then show ?thesis using e by (simp add: blocks_of_def AES_BLOCK_SIZE_def)
qed

lemma blocks_of_Suc: "blocks_of (Suc j) = (if j mod AES_BLOCK_SIZE = 0 then blocks_of j + 1 else blocks_of j)"
  by (auto simp: blocks_of_eq div_Suc mod_Suc AES_BLOCK_SIZE_def)

lemma aes_ctr_loop_stream:
  assumes "aes_counter c = block_at (v + blocks_of j)"
    and "j mod AES_BLOCK_SIZE \<noteq> 0 \<Longrightarrow> buf = E (block_at (v + j div AES_BLOCK_SIZE)) (aes_ctx c)"
  shows "aes_ctr_loop E c (j mod AES_BLOCK_SIZE) buf src =
    (map (\<lambda>(i, s). s XOR key_stream E (aes_ctx c) v i) (zip [j ..< j + length src] src),
     c\<lparr>aes_counter := block_at (v + blocks_of (j + length src))\<rparr>)"
  using assms
proof (induction src arbitrary: c j buf)
  case (Cons s src)
  let ?n = "j mod AES_BLOCK_SIZE"
  let ?c = "if ?n = 0 then c\<lparr>aes_counter := ssh_ctr_inc (aes_counter c) AES_BLOCK_SIZE\<rparr> else c"
  let ?buf = "E (block_at (v + j div AES_BLOCK_SIZE)) (aes_ctx c)"
  have buf: "(if ?n = 0 then E (aes_counter c) (aes_ctx c) else buf) = ?buf"
    using Cons.prems blocks_of_eq [of j] by (cases "?n = 0") simp_all
  have ctr: "aes_counter ?c = block_at (v + blocks_of (Suc j))"
    using Cons.prems blocks_of_Suc [of j] by (simp add: ctr_inc_block_at)
  have "AES_BLOCK_SIZE > 0" by (simp add: AES_BLOCK_SIZE_def)
  have div: "Suc j div AES_BLOCK_SIZE = j div AES_BLOCK_SIZE" if "Suc j mod AES_BLOCK_SIZE \<noteq> 0"
    using that by (simp add: div_Suc)
  have IH: "aes_ctr_loop E ?c (Suc j mod AES_BLOCK_SIZE) ?buf src =
    (map (\<lambda>(i, s). s XOR key_stream E (aes_ctx c) v i) (zip [Suc j ..< Suc j + length src] src),
     c\<lparr>aes_counter := block_at (v + blocks_of (Suc j + length src))\<rparr>)"
    using Cons.IH [of ?c "Suc j" ?buf] ctr div by (simp split: if_splits)
  have step: "aes_ctr_loop E c ?n buf (s # src) =
    (let (dest, c') = aes_ctr_loop E ?c (Suc j mod AES_BLOCK_SIZE) ?buf src in ((s XOR ?buf ! ?n) # dest, c'))"
    using buf by (auto simp: Let_def mod_Suc_eq split: prod.splits if_splits)
  have "[j ..< j + length (s # src)] = j # [Suc j ..< Suc j + length src]"
    by (subst upt_conv_Cons) simp_all
  then show ?case by (simp only: step IH) (simp add: key_stream_def)
qed simp

text \<open>One call, as a function of the counter's value.\<close>

lemma ssh_aes_ctr_stream:
  assumes "length (aes_counter c) = AES_BLOCK_SIZE"
  shows "ssh_aes_ctr E (Some c) src =
    Some (map (\<lambda>(i, s). s XOR key_stream E (aes_ctx c) (be_val (aes_counter c)) i) (zip [0 ..< length src] src),
      Some (c\<lparr>aes_counter := block_at (be_val (aes_counter c) + blocks_of (length src))\<rparr>))"
proof (cases "src = []")
  case True
  have "blocks_of 0 = 0" by (simp add: blocks_of_def AES_BLOCK_SIZE_def)
  then show ?thesis using True assms by (simp add: ssh_aes_ctr_def block_at_be_val)
next
  case False
  have "blocks_of 0 = 0" by (simp add: blocks_of_def AES_BLOCK_SIZE_def)
  then show ?thesis
    using False assms aes_ctr_loop_stream [of c "be_val (aes_counter c)" 0 "replicate AES_BLOCK_SIZE 0" E src]
    by (simp add: ssh_aes_ctr_def block_at_be_val)
qed

section \<open>The contract of the packet layer\<close>

lemma zip_xor_append:
  "map (\<lambda>(i, s). s XOR f i) (zip [0 ..< length (p @ q)] (p @ q)) =
     map (\<lambda>(i, s). s XOR f i) (zip [0 ..< length p] p) @
     map (\<lambda>(i, s). s XOR f (length p + i)) (zip [0 ..< length q] q)"
  by (rule nth_equalityI) (auto simp: nth_append)

lemma zip_xor_twice:
  "map (\<lambda>(i, s). s XOR f i) (zip [0 ..< length p] (map (\<lambda>(i, s). s XOR f i) (zip [0 ..< length p] p))) =
     (p :: byte list)"
  by (rule nth_equalityI) (auto simp: xor.assoc)

lemma key_stream_shift:
  assumes "AES_BLOCK_SIZE dvd n"
  shows "key_stream E k v (n + i) = key_stream E k (be_val (block_at (v + blocks_of n))) i"
proof -
  have p: "AES_BLOCK_SIZE > 0" by (simp add: AES_BLOCK_SIZE_def)
  obtain m where n: "n = AES_BLOCK_SIZE * m" using assms by (elim dvdE)
  have "blocks_of n = m" using p n by (simp add: blocks_of_eq)
  moreover have "(n + i) div AES_BLOCK_SIZE = m + i div AES_BLOCK_SIZE" "(n + i) mod AES_BLOCK_SIZE = i mod AES_BLOCK_SIZE"
    using p n by simp_all
  ultimately show ?thesis unfolding key_stream_def block_at_shift by (simp add: add.assoc)
qed

definition ctr_ready :: "'k ssh_aes_ctr_ctx option \<Rightarrow> 'k ssh_aes_ctr_ctx option \<Rightarrow> bool" where
  "ctr_ready s r \<longleftrightarrow> s = r \<and> (\<exists>c. s = Some c \<and> length (aes_counter c) = AES_BLOCK_SIZE)"

interpretation ctr: evp_sync "ssh_aes_ctr E" AES_BLOCK_SIZE ctr_ready
proof
  fix s r :: "'a ssh_aes_ctr_ctx option" and p q c s'
  assume rel: "ctr_ready s r"
  then obtain x where x: "s = Some x" "r = Some x" "length (aes_counter x) = AES_BLOCK_SIZE"
    by (auto simp: ctr_ready_def)
  note st = ssh_aes_ctr_stream [of _ E]
  show "\<exists>c s'. ssh_aes_ctr E s p = Some (c, s')" using st [OF x(3)] x by simp
  show "length c = length p" if "ssh_aes_ctr E s p = Some (c, s')" using that st [OF x(3), of p] x by auto
  assume d: "AES_BLOCK_SIZE dvd length p" "AES_BLOCK_SIZE dvd length q"
    and e: "ssh_aes_ctr E s (p @ q) = Some (c, s')"
  let ?v = "be_val (aes_counter x)" and ?ks = "key_stream E (aes_ctx x)"
  let ?y = "x\<lparr>aes_counter := block_at (?v + blocks_of (length p))\<rparr>"
  let ?w = "be_val (aes_counter ?y)"
  have y: "length (aes_counter ?y) = AES_BLOCK_SIZE" by simp
  have b: "blocks_of (length p + length q) = blocks_of (length p) + blocks_of (length q)"
    using d by (auto simp: blocks_of_eq elim!: dvdE)
  have ks: "?ks ?v (length p + i) = ?ks ?w i" for i using key_stream_shift [OF d(1)] by simp
  have c: "c = map (\<lambda>(i, s). s XOR ?ks ?v i) (zip [0 ..< length p] p) @
      map (\<lambda>(i, s). s XOR ?ks ?w i) (zip [0 ..< length q] q)"
    and s': "s' = Some (x\<lparr>aes_counter := block_at (?v + blocks_of (length (p @ q)))\<rparr>)"
    using e st [OF x(3), of "p @ q"] x(1) unfolding zip_xor_append ks by auto
  have "ssh_aes_ctr E r (take (length p) c) = Some (p, Some ?y)"
    using st [OF x(3), of "take (length p) c"] x(2) c by (simp add: zip_xor_twice)
  moreover have "ssh_aes_ctr E (Some ?y) (drop (length p) c) =
      Some (q, Some (?y\<lparr>aes_counter := block_at (?w + blocks_of (length q))\<rparr>))"
    using st [OF y, of "drop (length p) c"] c by (simp add: zip_xor_twice)
  moreover have "block_at (?w + blocks_of (length q)) = block_at (?v + blocks_of (length (p @ q)))"
    using b by (simp add: block_at_shift add.assoc del: be_val_block_at)
  ultimately show "\<exists>r1 r'. ssh_aes_ctr E r (take (length p) c) = Some (p, r1) \<and>
      ssh_aes_ctr E r1 (drop (length p) c) = Some (q, r') \<and> ctr_ready s' r'"
    using s' by (auto simp: ctr_ready_def)
qed

section \<open>Properties\<close>

text \<open>C15: \<open>ssh_aes_ctr\<close> is AES in counter mode as RFC 4344 defines it: byte \<open>j\<close> of the output is byte \<open>j\<close> of
  the input combined with byte \<open>j mod 16\<close> of the encryption of the counter plus \<open>j div 16\<close> (as a 128-bit
  big-endian number that wraps around), and the counter is left at the first unused value.\<close>

theorem aes_ctr_is_counter_mode:
  assumes "length (aes_counter c) = AES_BLOCK_SIZE"
  shows "\<exists>dest c'. ssh_aes_ctr E (Some c) src = Some (dest, Some c') \<and> length dest = length src \<and>
    (\<forall>j < length src. dest ! j = src ! j XOR
       E (be_bytes 16 ((be_val (aes_counter c) + j div 16) mod 2 ^ 128)) (aes_ctx c) ! (j mod 16)) \<and>
    aes_ctx c' = aes_ctx c \<and>
    be_val (aes_counter c') = (be_val (aes_counter c) + (length src + 15) div 16) mod 2 ^ 128"
proof -
  have "(256 :: nat) ^ 16 = 2 ^ 128" by simp
  then show ?thesis using ssh_aes_ctr_stream [OF assms, of E src]
    by (simp add: key_stream_def block_at_def blocks_of_def AES_BLOCK_SIZE_def be_val_be_bytes)
qed

theorem aes_ctr_is_counter_mode_witness:
  "\<exists>dest c'. ssh_aes_ctr (\<lambda>b k. map (\<lambda>x. x + k) b)
      (Some \<lparr>aes_ctx = 3, aes_counter = replicate 15 0 @ [7]\<rparr>) (replicate 20 1) = Some (dest, Some c') \<and>
    length dest = 20 \<and> be_val (aes_counter c') = 9"
proof -
  let ?c = "\<lparr>aes_ctx = 3, aes_counter = replicate 15 0 @ [7]\<rparr> :: byte ssh_aes_ctr_ctx"
  have v: "be_val (aes_counter ?c) = 7" by (simp only: ssh_aes_ctr_ctx.simps be_val_snoc be_val_zeros) simp
  have "length (aes_counter ?c) = AES_BLOCK_SIZE" by (simp add: AES_BLOCK_SIZE_def)
  from aes_ctr_is_counter_mode [OF this, of "\<lambda>b k. map (\<lambda>x. x + k) b" "replicate 20 1", unfolded v]
  show ?thesis by (elim exE conjE, intro exI conjI) (assumption | simp)+
qed

end
