(* ===== verification/Packet.thy ===== *)
theory Packet
  imports Ssh_Prelude Buf Wire Bignum Algs Kex Crypt
begin

text \<open>
  The packet layer of \<open>CoreConnection.cpp\<close>: building, padding, authenticating and encrypting outgoing packets,
  the queue that holds them back while keys are exchanged, and the reverse for incoming packets. The state is
  the part of \<open>CoreConnection\<close> (\<open>CoreConnection.h\<close>) these member functions use; each of them is a procedure
  over it. The record can be extended, which the later layers do.
\<close>

section \<open>Message numbers (ssh2.h)\<close>

definition SSH_MSG_NONE :: byte where "SSH_MSG_NONE = 0"
definition SSH2_MSG_TRANSPORT_MIN :: byte where "SSH2_MSG_TRANSPORT_MIN = 1"
definition SSH2_MSG_TRANSPORT_MAX :: byte where "SSH2_MSG_TRANSPORT_MAX = 49"
definition SSH2_MSG_MIN :: byte where "SSH2_MSG_MIN = 1"
definition SSH2_MSG_LOCAL_MIN :: byte where "SSH2_MSG_LOCAL_MIN = 192"
definition SSH2_MSG_DISCONNECT :: byte where "SSH2_MSG_DISCONNECT = 1"
definition SSH2_MSG_IGNORE :: byte where "SSH2_MSG_IGNORE = 2"
definition SSH2_MSG_UNIMPLEMENTED :: byte where "SSH2_MSG_UNIMPLEMENTED = 3"
definition SSH2_MSG_DEBUG :: byte where "SSH2_MSG_DEBUG = 4"
definition SSH2_MSG_NEWKEYS :: byte where "SSH2_MSG_NEWKEYS = 21"
definition SSH2_MSG_USERAUTH_SUCCESS :: byte where "SSH2_MSG_USERAUTH_SUCCESS = 52"
definition SSH2_DISCONNECT_PROTOCOL_ERROR :: u32 where "SSH2_DISCONNECT_PROTOCOL_ERROR = 2"

lemmas msg_consts = SSH_MSG_NONE_def SSH2_MSG_TRANSPORT_MIN_def SSH2_MSG_TRANSPORT_MAX_def SSH2_MSG_MIN_def
  SSH2_MSG_LOCAL_MIN_def SSH2_MSG_DISCONNECT_def SSH2_MSG_IGNORE_def SSH2_MSG_UNIMPLEMENTED_def SSH2_MSG_DEBUG_def
  SSH2_MSG_NEWKEYS_def SSH2_MSG_USERAUTH_SUCCESS_def SSH2_MSG_KEXINIT_def

section \<open>State\<close>

record packet_state =
  ps_seqnr :: u32
  ps_packets :: u32
  ps_blocks :: u64
  ps_bytes :: u64

text \<open>
  What the operating system answers is the last group of fields: the results of the coming calls of \<open>recv\<close>
  (\<open>None\<close> an error, the empty list a closed connection), of \<open>send\<close> and of \<open>select\<close>, and what was sent so far.
  An error carries whether it is \<open>WSAEINTR\<close> or \<open>WSAEWOULDBLOCK\<close>, one of \<open>select\<close> also the milliseconds it took.
\<close>

datatype send_result = Sent nat | Send_error bool

datatype select_result = Sel_ready | Sel_timeout | Sel_error bool nat

record ('ev, 'z) Packets =
  pk_datafellows :: u32
  pk_packets_initialized :: bool
  pk_receive_context :: "'ev CipherContext"
  pk_send_context :: "'ev CipherContext"
  pk_input :: Buffer
  pk_output :: Buffer
  pk_outgoing_packet :: Buffer
  pk_incoming_packet :: Buffer
  pk_compression_buffer :: Buffer
  pk_compression_buffer_ready :: bool
  pk_packet_compression :: bool
  pk_newkeys :: "kex_mode \<Rightarrow> Newkeys option"
  pk_current_keys :: "kex_mode \<Rightarrow> Newkeys option"
  pk_p_read :: packet_state
  pk_p_send :: packet_state
  pk_max_blocks_in :: u64
  pk_max_blocks_out :: u64
  pk_rekey_limit :: u32
  pk_extra_pad :: byte
  pk_outgoing :: "(byte \<times> Buffer) list"
  pk_keep_alive_timeouts :: int
  pk_packet_timeout_ms :: int
  pk_after_authentication :: bool
  pk_incoming_stream :: 'z
  pk_outgoing_stream :: 'z
  pk_compress_init_send_called :: bool
  pk_compress_init_recv_called :: bool
  pk_inflate_failed :: bool
  pk_deflate_failed :: bool
  pk_poll2_packet_length :: u32
  pk_send2_rekeying :: bool
  pk_pd_disconnecting :: bool
  pk_arc4 :: nat
  pk_recv :: "byte list option list"
  pk_sends :: "send_result list"
  pk_selects :: "select_result list"
  pk_net :: "byte list"

type_synonym ('ev, 'z, 'm, 'a) pproc = "(('ev, 'z, 'm) Packets_scheme, 'a) proc"

definition server_side :: bool where "server_side \<longleftrightarrow> False"

text \<open>Operations on one of the buffers, with and without a result.\<close>

abbreviation on_input :: "(Buffer \<Rightarrow> Buffer res) \<Rightarrow> ('ev, 'z, 'm, unit) pproc" where
  "on_input \<equiv> setR pk_input (\<lambda>b s. s\<lparr>pk_input := b\<rparr>)"
abbreviation on_output :: "(Buffer \<Rightarrow> Buffer res) \<Rightarrow> ('ev, 'z, 'm, unit) pproc" where
  "on_output \<equiv> setR pk_output (\<lambda>b s. s\<lparr>pk_output := b\<rparr>)"
abbreviation on_outgoing :: "(Buffer \<Rightarrow> Buffer res) \<Rightarrow> ('ev, 'z, 'm, unit) pproc" where
  "on_outgoing \<equiv> setR pk_outgoing_packet (\<lambda>b s. s\<lparr>pk_outgoing_packet := b\<rparr>)"
abbreviation on_incoming :: "(Buffer \<Rightarrow> Buffer res) \<Rightarrow> ('ev, 'z, 'm, unit) pproc" where
  "on_incoming \<equiv> setR pk_incoming_packet (\<lambda>b s. s\<lparr>pk_incoming_packet := b\<rparr>)"
abbreviation from_incoming :: "(Buffer \<Rightarrow> ('a \<times> Buffer) res) \<Rightarrow> ('ev, 'z, 'm, 'a) pproc" where
  "from_incoming \<equiv> updR pk_incoming_packet (\<lambda>b s. s\<lparr>pk_incoming_packet := b\<rparr>)"

text \<open>Reading and writing the memory behind \<open>buffer_ptr\<close>, and the memory \<open>buffer_append_space\<close> returned.\<close>

definition buffer_peek :: "Buffer \<Rightarrow> nat \<Rightarrow> nat \<Rightarrow> byte list res" where
  "buffer_peek b i n = mem_read (b_buf b) (unat (b_offset b) + i) n"

definition buffer_poke :: "Buffer \<Rightarrow> nat \<Rightarrow> byte list \<Rightarrow> Buffer res" where
  "buffer_poke b i d = bindR (mem_write (b_buf b) (unat (b_offset b) + i) d) (\<lambda>m. Inr (b\<lparr>b_buf := m\<rparr>))"

definition buffer_fill :: "nat \<Rightarrow> byte list \<Rightarrow> Buffer \<Rightarrow> Buffer res" where
  "buffer_fill p d b = bindR (mem_write (b_buf b) p d) (\<lambda>m. Inr (b\<lparr>b_buf := m\<rparr>))"

section \<open>Building a packet\<close>

definition packet_start :: "byte \<Rightarrow> ('ev, 'z, 'm, unit) pproc" where
  "packet_start type = on_outgoing (\<lambda>b. buffer_append (buffer_clear b) (replicate 5 0 @ [type]))"

definition packet_put_char :: "byte \<Rightarrow> ('ev, 'z, 'm, unit) pproc" where
  "packet_put_char v = on_outgoing (\<lambda>b. buffer_append b [v])"

definition packet_put_int :: "u32 \<Rightarrow> ('ev, 'z, 'm, unit) pproc" where
  "packet_put_int v = on_outgoing (\<lambda>b. buffer_put_int b v)"

definition packet_put_string :: "byte list \<Rightarrow> ('ev, 'z, 'm, unit) pproc" where
  "packet_put_string d = on_outgoing (\<lambda>b. buffer_put_string b d)"

definition packet_put_cstring :: "string \<Rightarrow> ('ev, 'z, 'm, unit) pproc" where
  "packet_put_cstring str = on_outgoing (\<lambda>b. buffer_put_cstring b (Some (bytes_of_string str)))"

definition packet_put_raw :: "byte list \<Rightarrow> ('ev, 'z, 'm, unit) pproc" where
  "packet_put_raw d = on_outgoing (\<lambda>b. buffer_append b d)"

definition packet_put_bignum2 :: "bn_lib \<Rightarrow> int \<Rightarrow> ('ev, 'z, 'm, unit) pproc" where
  "packet_put_bignum2 L v = on_outgoing (\<lambda>b. buffer_put_bignum2 L b v)"

section \<open>Reading a packet\<close>

definition packet_remaining :: "('ev, 'z, 'm, u32) pproc" where
  "packet_remaining = getP (\<lambda>s. buffer_len (pk_incoming_packet s))"

definition packet_get_char :: "('ev, 'z, 'm, byte) pproc" where
  "packet_get_char = from_incoming (\<lambda>b. bindR (buffer_get b 1) (\<lambda>(d, b). Inr (d ! 0, b)))"

definition packet_get_int :: "('ev, 'z, 'm, u32) pproc" where
  "packet_get_int = from_incoming buffer_get_int"

definition packet_get_bignum2 :: "bn_lib \<Rightarrow> ('ev, 'z, 'm, int) pproc" where
  "packet_get_bignum2 L = from_incoming (buffer_get_bignum2 L)"

definition packet_get_raw :: "('ev, 'z, 'm, byte list) pproc" where
  "packet_get_raw = from_incoming (\<lambda>b. bindR (buffer_peek b 0 (unat (buffer_len b))) (\<lambda>d. Inr (d, b)))"

definition packet_get_string :: "('ev, 'z, 'm, byte list) pproc" where
  "packet_get_string = from_incoming buffer_get_string"

definition packet_get_string_ptr :: "('ev, 'z, 'm, byte list) pproc" where
  "packet_get_string_ptr = from_incoming buffer_get_string_ptr"

section \<open>Compression\<close>

definition Z_OK :: int where "Z_OK = 0"
definition Z_BUF_ERROR :: int where "Z_BUF_ERROR = - 5"

definition packet_init_compression :: "('ev, 'z, 'm, unit) pproc" where
  "packet_init_compression =
     bindP (getP pk_compression_buffer_ready) (\<lambda>ready.
     whenP (\<not> ready) (modP (\<lambda>s. s\<lparr>pk_compression_buffer_ready := True, pk_compression_buffer := buffer_init\<rparr>)))"

definition buffer_compress_init_send :: "('ev, 'z) crypto \<Rightarrow> int \<Rightarrow> ('ev, 'z, 'm, unit) pproc" where
  "buffer_compress_init_send C level =
     bindP (modP (\<lambda>s. s\<lparr>pk_compress_init_send_called := True\<rparr>)) (\<lambda>_.
     if level < 1 \<or> level > 9 then raiseP (Fatal ''Bad compression level'')
     else modP (\<lambda>s. s\<lparr>pk_outgoing_stream := deflateInit C level\<rparr>))"

definition buffer_compress_init_recv :: "('ev, 'z) crypto \<Rightarrow> ('ev, 'z, 'm, unit) pproc" where
  "buffer_compress_init_recv C =
     modP (\<lambda>s. s\<lparr>pk_compress_init_recv_called := True, pk_incoming_stream := inflateInit C\<rparr>)"

definition packet_start_compression :: "('ev, 'z) crypto \<Rightarrow> int \<Rightarrow> ('ev, 'z, 'm, unit) pproc" where
  "packet_start_compression C level =
     bindP (modP (\<lambda>s. s\<lparr>pk_packet_compression := True\<rparr>)) (\<lambda>_.
     bindP packet_init_compression (\<lambda>_.
     bindP (buffer_compress_init_send C level) (\<lambda>_.
     buffer_compress_init_recv C)))"

text \<open>
  The two loops end when zlib leaves room in the 4096 bytes of output, or reports that it cannot go on. Not
  ending is the result \<open>None\<close>. \<open>Inl\<close> tells whether zlib failed, with the exception.
\<close>

partial_function (option) compress_loop ::
  "('z \<Rightarrow> byte list \<Rightarrow> nat \<Rightarrow> int \<times> byte list \<times> byte list \<times> 'z) \<Rightarrow> 'z \<Rightarrow> byte list \<Rightarrow> Buffer \<Rightarrow> (bool \<times> exn + 'z \<times> Buffer) option"
where
  "compress_loop deflt z inp out =
     (case deflt z inp 4096 of (status, d, rest, z) \<Rightarrow>
        if status = Z_OK then
          (case buffer_append out d of
             Inl e \<Rightarrow> Some (Inl (False, e))
           | Inr out \<Rightarrow> if length d = 4096 then compress_loop deflt z rest out else Some (Inr (z, out)))
        else Some (Inl (True, Fatal ''buffer_compress: deflate returned'')))"

partial_function (option) uncompress_loop ::
  "('z \<Rightarrow> byte list \<Rightarrow> nat \<Rightarrow> int \<times> byte list \<times> byte list \<times> 'z) \<Rightarrow> 'z \<Rightarrow> byte list \<Rightarrow> Buffer \<Rightarrow> (bool \<times> exn + 'z \<times> Buffer) option"
where
  "uncompress_loop inflt z inp out =
     (case inflt z inp 4096 of (status, d, rest, z) \<Rightarrow>
        if status = Z_OK then
          (case buffer_append out d of
             Inl e \<Rightarrow> Some (Inl (False, e))
           | Inr out \<Rightarrow> uncompress_loop inflt z rest out)
        else if status = Z_BUF_ERROR then Some (Inr (z, out))
        else Some (Inl (True, Fatal ''buffer_uncompress: inflate returned'')))"

text \<open>\<open>buffer_compress\<close> from the outgoing packet, \<open>buffer_uncompress\<close> from the incoming packet, both into the
  compression buffer, as the packet layer calls them.\<close>

definition buffer_compress :: "('ev, 'z) crypto \<Rightarrow> ('ev, 'z, 'm, unit) pproc" where
  "buffer_compress C =
     bindP (getP (\<lambda>s. s)) (\<lambda>s.
     if buffer_len (pk_outgoing_packet s) = 0 then retP ()
     else bindP (liftR (buffer_peek (pk_outgoing_packet s) 0 (unat (buffer_len (pk_outgoing_packet s))))) (\<lambda>inp.
       case compress_loop (deflate C) (pk_outgoing_stream s) inp (pk_compression_buffer s) of
         None \<Rightarrow> raiseP Diverge
       | Some (Inl (failed, e)) \<Rightarrow> bindP (whenP failed (modP (\<lambda>s. s\<lparr>pk_deflate_failed := True\<rparr>))) (\<lambda>_. raiseP e)
       | Some (Inr (z, out)) \<Rightarrow> modP (\<lambda>s. s\<lparr>pk_outgoing_stream := z, pk_compression_buffer := out\<rparr>)))"

definition buffer_uncompress :: "('ev, 'z) crypto \<Rightarrow> ('ev, 'z, 'm, unit) pproc" where
  "buffer_uncompress C =
     bindP (getP (\<lambda>s. s)) (\<lambda>s.
     bindP (liftR (buffer_peek (pk_incoming_packet s) 0 (unat (buffer_len (pk_incoming_packet s))))) (\<lambda>inp.
       case uncompress_loop (inflate C) (pk_incoming_stream s) inp (pk_compression_buffer s) of
         None \<Rightarrow> raiseP Diverge
       | Some (Inl (failed, e)) \<Rightarrow> bindP (whenP failed (modP (\<lambda>s. s\<lparr>pk_inflate_failed := True\<rparr>))) (\<lambda>_. raiseP e)
       | Some (Inr (z, out)) \<Rightarrow> modP (\<lambda>s. s\<lparr>pk_incoming_stream := z, pk_compression_buffer := out\<rparr>)))"

section \<open>Changing keys\<close>

definition kex_get_newkeys :: "kex_mode \<Rightarrow> ('ev, 'z, 'm, Newkeys option) pproc" where
  "kex_get_newkeys mode =
     bindP (getP (\<lambda>s. pk_current_keys s mode)) (\<lambda>ret.
     bindP (modP (\<lambda>s. s\<lparr>pk_current_keys := (pk_current_keys s)(mode := None)\<rparr>)) (\<lambda>_.
     retP ret))"

definition put_newkeys :: "kex_mode \<Rightarrow> Newkeys option \<Rightarrow> ('ev, 'z, 'm, unit) pproc" where
  "put_newkeys mode nk = modP (\<lambda>s. s\<lparr>pk_newkeys := (pk_newkeys s)(mode := nk)\<rparr>)"

text \<open>Compression is switched on for one direction: the common part of \<open>set_newkeys\<close> and
  \<open>packet_enable_delayed_compress\<close>.\<close>

definition start_comp :: "('ev, 'z) crypto \<Rightarrow> kex_mode \<Rightarrow> Newkeys \<Rightarrow> ('ev, 'z, 'm, unit) pproc" where
  "start_comp C mode nk =
     bindP packet_init_compression (\<lambda>_.
     bindP (if mode = MODE_OUT then buffer_compress_init_send C 6 else buffer_compress_init_recv C) (\<lambda>_.
     put_newkeys mode (Some (nk\<lparr>nk_comp := (nk_comp nk)\<lparr>comp_enabled := True\<rparr>\<rparr>))))"

definition max_blocks_of :: "u32 \<Rightarrow> u32 \<Rightarrow> u64" where
  "max_blocks_of block_size rekey_limit =
     (let m = (if block_size \<ge> 16 then push_bit (unat (block_size * 2)) 1
               else push_bit 30 1 div ucast block_size)
      in if rekey_limit \<noteq> 0 then min m (ucast (rekey_limit div block_size)) else m)"

text \<open>The part of \<open>set_newkeys\<close> after the keys were taken.\<close>

definition use_newkeys :: "('ev, 'z) crypto \<Rightarrow> kex_mode \<Rightarrow> Newkeys \<Rightarrow> ('ev, 'z, 'm, unit) pproc" where
  "use_newkeys C mode nk =
     (let enc = nk_enc nk in
      bindP (liftR (mac_init (nk_mac nk))) (\<lambda>ok.
      let nk = (if ok then nk\<lparr>nk_mac := (nk_mac nk)\<lparr>mac_enabled := True\<rparr>\<rparr> else nk) in
      bindP (put_newkeys mode (Some nk)) (\<lambda>_.
      bindP (liftR (case enc_key enc of None \<Rightarrow> Inl Mem_fault
          | Some key \<Rightarrow> cipher_init C (enc_cipher enc) key (enc_key_len enc) (enc_iv enc) (enc_block_size enc)
              (mode = MODE_OUT))) (\<lambda>cc.
      bindP (modP (\<lambda>s. case mode of MODE_OUT \<Rightarrow> s\<lparr>pk_send_context := cc\<rparr>
          | MODE_IN \<Rightarrow> s\<lparr>pk_receive_context := cc\<rparr>)) (\<lambda>_.
      bindP (getP pk_after_authentication) (\<lambda>after.
      bindP (whenP ((comp_ty (nk_comp nk) = COMP_ZLIB \<or> comp_ty (nk_comp nk) = COMP_DELAYED \<and> after) \<and>
          \<not> comp_enabled (nk_comp nk)) (start_comp C mode nk)) (\<lambda>_.
      if enc_block_size enc = 0 then raiseP Div_by_zero
      else modP (\<lambda>s. case mode of
          MODE_OUT \<Rightarrow> s\<lparr>pk_max_blocks_out := max_blocks_of (enc_block_size enc) (pk_rekey_limit s)\<rparr>
        | MODE_IN \<Rightarrow> s\<lparr>pk_max_blocks_in := max_blocks_of (enc_block_size enc) (pk_rekey_limit s)\<rparr>))))))))"

definition set_newkeys :: "('ev, 'z) crypto \<Rightarrow> kex_mode \<Rightarrow> ('ev, 'z, 'm, unit) pproc" where
  "set_newkeys C mode =
     bindP (modP (\<lambda>s. case mode of
         MODE_OUT \<Rightarrow> s\<lparr>pk_p_send := (pk_p_send s)\<lparr>ps_packets := 0, ps_blocks := 0\<rparr>\<rparr>
       | MODE_IN \<Rightarrow> s\<lparr>pk_p_read := (pk_p_read s)\<lparr>ps_packets := 0, ps_blocks := 0\<rparr>\<rparr>)) (\<lambda>_.
     bindP (kex_get_newkeys mode) (\<lambda>nk.
     bindP (put_newkeys mode nk) (\<lambda>_.
     case nk of None \<Rightarrow> raiseP (Fatal ''newkeys: no keys for mode'')
     | Some nk \<Rightarrow> use_newkeys C mode nk)))"

definition delayed_compress :: "('ev, 'z) crypto \<Rightarrow> kex_mode \<Rightarrow> ('ev, 'z, 'm, unit) pproc" where
  "delayed_compress C mode =
     bindP (getP (\<lambda>s. pk_newkeys s mode)) (\<lambda>nk.
     case nk of None \<Rightarrow> retP ()
     | Some nk \<Rightarrow> whenP (\<not> comp_enabled (nk_comp nk) \<and> comp_ty (nk_comp nk) = COMP_DELAYED) (start_comp C mode nk))"

definition packet_enable_delayed_compress :: "('ev, 'z) crypto \<Rightarrow> ('ev, 'z, 'm, unit) pproc" where
  "packet_enable_delayed_compress C =
     bindP (modP (\<lambda>s. s\<lparr>pk_after_authentication := True\<rparr>)) (\<lambda>_.
     bindP (delayed_compress C MODE_IN) (\<lambda>_.
     delayed_compress C MODE_OUT))"

section \<open>Sending a packet\<close>

definition packet_compress :: "('ev, 'z) crypto \<Rightarrow> ('ev, 'z, 'm, unit) pproc" where
  "packet_compress C =
     bindP (on_outgoing (\<lambda>b. buffer_consume b 5)) (\<lambda>_.
     bindP (modP (\<lambda>s. s\<lparr>pk_compression_buffer := buffer_clear (pk_compression_buffer s)\<rparr>)) (\<lambda>_.
     bindP (buffer_compress C) (\<lambda>_.
     bindP (on_outgoing (\<lambda>b. buffer_append (buffer_clear b) (replicate 5 0))) (\<lambda>_.
     bindP (getP pk_compression_buffer) (\<lambda>c.
     bindP (liftR (buffer_peek c 0 (unat (buffer_len c)))) (\<lambda>d.
     on_outgoing (\<lambda>b. buffer_append b d)))))))"

text \<open>The length of the padding, as an \<open>u_char\<close>, in the arithmetic of the source.\<close>

definition pad_length :: "u32 \<Rightarrow> u32 \<Rightarrow> byte \<Rightarrow> byte res" where
  "pad_length block_size len extra_pad =
     bindR (modR len block_size) (\<lambda>m.
       let padlen = ucast (block_size - m) :: byte;
           padlen = (if padlen < 4 then padlen + ucast block_size else padlen)
       in if extra_pad = 0 then Inr padlen
          else let extra_pad = ucast (roundup (ucast extra_pad) block_size) :: byte in
            bindR (modR (len + ucast padlen) (ucast extra_pad)) (\<lambda>r. Inr (padlen + (extra_pad - ucast r))))"

text \<open>Random bytes, four from each call of \<open>arc4random\<close>: \<open>calls\<close> counts the calls, \<open>i\<close> is the loop variable.\<close>

fun random_bytes :: "(nat \<Rightarrow> u32) \<Rightarrow> nat \<Rightarrow> u32 \<Rightarrow> nat \<Rightarrow> nat \<Rightarrow> byte list \<times> nat" where
  "random_bytes rand calls rnd i 0 = ([], calls)"
| "random_bytes rand calls rnd i (Suc n) =
     (let (rnd, calls) = (if i mod 4 = 0 then (rand calls, calls + 1) else (rnd, calls));
          (bs, calls) = random_bytes rand calls (drop_bit 8 rnd) (i + 1) n
      in ((ucast rnd AND 0xff) # bs, calls))"

definition add_padding :: "('ev, 'z) crypto \<Rightarrow> bool \<Rightarrow> u32 \<Rightarrow> ('ev, 'z, 'm, byte) pproc" where
  "add_padding C has_enc block_size =
     bindP (getP (\<lambda>s. s)) (\<lambda>s.
     bindP (liftR (pad_length block_size (buffer_len (pk_outgoing_packet s)) (pk_extra_pad s))) (\<lambda>padlen.
     bindP (modP (\<lambda>s. s\<lparr>pk_extra_pad := 0\<rparr>)) (\<lambda>_.
     bindP (updR pk_outgoing_packet (\<lambda>b s. s\<lparr>pk_outgoing_packet := b\<rparr>) (\<lambda>b. buffer_append_space b (ucast padlen))) (\<lambda>p.
     if has_enc \<and> \<not> cc_plaintext (pk_send_context s) then
       let (pad, calls) = random_bytes (arc4random C) (pk_arc4 s) 0 0 (unat padlen) in
       bindP (modP (\<lambda>s. s\<lparr>pk_arc4 := calls\<rparr>)) (\<lambda>_.
       bindP (on_outgoing (buffer_fill p pad)) (\<lambda>_. retP padlen))
     else bindP (on_outgoing (buffer_fill p (replicate (unat padlen) 0))) (\<lambda>_. retP padlen)))))"

text \<open>The length and padding length fields; the result is \<open>packet_length\<close>.\<close>

definition put_header :: "byte \<Rightarrow> ('ev, 'z, 'm, u32) pproc" where
  "put_header padlen =
     bindP (getP (\<lambda>s. buffer_len (pk_outgoing_packet s) - 4)) (\<lambda>packet_length.
     bindP (on_outgoing (\<lambda>b. buffer_poke b 0 (put_u32 packet_length))) (\<lambda>_.
     bindP (on_outgoing (\<lambda>b. buffer_poke b 4 [padlen])) (\<lambda>_.
     retP packet_length)))"

definition mac_on :: "Newkeys option \<Rightarrow> bool" where
  "mac_on nk = (case nk of None \<Rightarrow> False | Some k \<Rightarrow> mac_enabled (nk_mac k))"

definition comp_on :: "Newkeys option \<Rightarrow> bool" where
  "comp_on nk = (case nk of None \<Rightarrow> False | Some k \<Rightarrow> comp_enabled (nk_comp k))"

definition block_size_of :: "Newkeys option \<Rightarrow> u32" where
  "block_size_of nk = (case nk of None \<Rightarrow> 8 | Some k \<Rightarrow> enc_block_size (nk_enc k))"

text \<open>The authentication code of a packet, cut to its length; nothing when there is none.\<close>

definition packet_mac :: "('ev, 'z) crypto \<Rightarrow> Newkeys option \<Rightarrow> u32 \<Rightarrow> Buffer \<Rightarrow> byte list res" where
  "packet_mac C nk seqnr b =
     (case nk of None \<Rightarrow> Inr []
      | Some k \<Rightarrow>
          if mac_enabled (nk_mac k) then
            bindR (buffer_peek b 0 (unat (buffer_len b))) (\<lambda>d.
            bindR (mac_compute C (nk_mac k) seqnr d) (\<lambda>m. Inr (take (unat (mac_len (nk_mac k))) m)))
          else Inr [])"

definition encrypt_packet :: "('ev, 'z) crypto \<Rightarrow> ('ev, 'z, 'm, unit) pproc" where
  "encrypt_packet C =
     bindP (getP pk_outgoing_packet) (\<lambda>b.
     bindP (updR pk_output (\<lambda>b s. s\<lparr>pk_output := b\<rparr>) (\<lambda>out. buffer_append_space out (buffer_len b))) (\<lambda>p.
     bindP (liftR (buffer_peek b 0 (unat (buffer_len b)))) (\<lambda>d.
     bindP (updR pk_send_context (\<lambda>c s. s\<lparr>pk_send_context := c\<rparr>) (\<lambda>cc. cipher_crypt C cc d)) (\<lambda>dest.
     on_output (buffer_fill p dest)))))"

text \<open>Sequence number and counters of one more packet in one direction.\<close>

definition packet_get_state :: "kex_mode \<Rightarrow> ('ev, 'z, 'm) Packets_scheme \<Rightarrow> packet_state" where
  "packet_get_state mode s = (if mode = MODE_IN then pk_p_read s else pk_p_send s)"

definition packet_set_state :: "kex_mode \<Rightarrow> packet_state \<Rightarrow> ('ev, 'z, 'm) Packets_scheme \<Rightarrow> ('ev, 'z, 'm) Packets_scheme" where
  "packet_set_state mode st s = (if mode = MODE_IN then s\<lparr>pk_p_read := st\<rparr> else s\<lparr>pk_p_send := st\<rparr>)"

definition count_packet :: "kex_mode \<Rightarrow> u32 \<Rightarrow> u32 \<Rightarrow> ('ev, 'z, 'm, unit) pproc" where
  "count_packet mode block_size packet_length =
     bindP (getP (packet_get_state mode)) (\<lambda>st.
     let st = st\<lparr>ps_seqnr := ps_seqnr st + 1, ps_packets := ps_packets st + 1\<rparr> in
     bindP (modP (packet_set_state mode st)) (\<lambda>_.
     bindP (getP pk_datafellows) (\<lambda>df.
     if ps_packets st = 0 \<and> df AND SSH_BUG_NOREKEY = 0 then raiseP (Fatal ''XXX too many packets with same key'')
     else modP (packet_set_state mode (st\<lparr>ps_blocks := ps_blocks st + ucast ((packet_length + 4) div block_size),
            ps_bytes := ps_bytes st + ucast (packet_length + 4)\<rparr>)))))"

text \<open>Everything \<open>packet_send2_wrapped\<close> does before it looks at the type of the packet, which is the result.\<close>

definition seal_packet :: "('ev, 'z) crypto \<Rightarrow> ('ev, 'z, 'm, byte) pproc" where
  "seal_packet C =
     bindP (getP (\<lambda>s. pk_newkeys s MODE_OUT)) (\<lambda>nk.
     bindP (getP pk_outgoing_packet) (\<lambda>b.
     bindP (liftR (buffer_peek b 5 1)) (\<lambda>type.
     bindP (whenP (comp_on nk) (packet_compress C)) (\<lambda>_.
     bindP (add_padding C (nk \<noteq> None) (block_size_of nk)) (\<lambda>padlen.
     bindP (put_header padlen) (\<lambda>packet_length.
     bindP (getP (\<lambda>s. s)) (\<lambda>s.
     bindP (liftR (packet_mac C nk (ps_seqnr (pk_p_send s)) (pk_outgoing_packet s))) (\<lambda>mac.
     bindP (encrypt_packet C) (\<lambda>_.
     bindP (whenP (mac_on nk) (on_output (\<lambda>b. buffer_append b mac))) (\<lambda>_.
     bindP (count_packet MODE_OUT (block_size_of nk) packet_length) (\<lambda>_.
     bindP (on_outgoing (\<lambda>b. Inr (buffer_clear b))) (\<lambda>_.
     retP (type ! 0)))))))))))))"

definition packet_send2_wrapped :: "('ev, 'z) crypto \<Rightarrow> ('ev, 'z, 'm, unit) pproc" where
  "packet_send2_wrapped C =
     bindP (seal_packet C) (\<lambda>type.
     if type = SSH2_MSG_NEWKEYS then set_newkeys C MODE_OUT
     else whenP (type = SSH2_MSG_USERAUTH_SUCCESS \<and> server_side) (packet_enable_delayed_compress C))"

text \<open>The queue of packets held back is sent from its head; one round per queued packet.\<close>

fun flush_queue :: "nat \<Rightarrow> ('ev, 'z) crypto \<Rightarrow> ('ev, 'z, 'm, unit) pproc" where
  "flush_queue 0 C = raiseP Diverge"
| "flush_queue (Suc n) C =
     bindP (getP pk_outgoing) (\<lambda>q.
     case q of [] \<Rightarrow> retP ()
     | (type, payload) # q \<Rightarrow>
         bindP (modP (\<lambda>s. s\<lparr>pk_outgoing_packet := payload, pk_outgoing := q\<rparr>)) (\<lambda>_.
         bindP (packet_send2_wrapped C) (\<lambda>_.
         flush_queue n C)))"

definition transport_type :: "byte \<Rightarrow> bool" where
  "transport_type type \<longleftrightarrow> SSH2_MSG_TRANSPORT_MIN \<le> type \<and> type \<le> SSH2_MSG_TRANSPORT_MAX"

definition packet_send2 :: "('ev, 'z) crypto \<Rightarrow> ('ev, 'z, 'm, unit) pproc" where
  "packet_send2 C =
     bindP (getP pk_outgoing_packet) (\<lambda>b.
     bindP (liftR (buffer_peek b 5 1)) (\<lambda>t.
     bindP (getP pk_send2_rekeying) (\<lambda>rekeying.
     let type = t ! 0 in
     if rekeying \<and> \<not> transport_type type then
       modP (\<lambda>s. s\<lparr>pk_outgoing := pk_outgoing s @ [(type, b)], pk_outgoing_packet := buffer_init\<rparr>)
     else
       bindP (whenP (type = SSH2_MSG_KEXINIT) (modP (\<lambda>s. s\<lparr>pk_send2_rekeying := True\<rparr>))) (\<lambda>_.
       bindP (packet_send2_wrapped C) (\<lambda>_.
       whenP (type = SSH2_MSG_NEWKEYS)
         (bindP (modP (\<lambda>s. s\<lparr>pk_send2_rekeying := False\<rparr>)) (\<lambda>_.
          bindP (getP (\<lambda>s. length (pk_outgoing s))) (\<lambda>n.
          flush_queue (Suc n) C))))))))"

definition packet_send :: "('ev, 'z) crypto \<Rightarrow> ('ev, 'z, 'm, unit) pproc" where
  "packet_send C = packet_send2 C"

section \<open>Writing to the socket\<close>

definition packet_have_data_to_write :: "('ev, 'z, 'm) Packets_scheme \<Rightarrow> bool" where
  "packet_have_data_to_write s \<longleftrightarrow> buffer_len (pk_output s) \<noteq> 0"

definition packet_write_poll :: "('ev, 'z, 'm, unit) pproc" where
  "packet_write_poll =
     bindP (getP (\<lambda>s. s)) (\<lambda>s.
     whenP (packet_have_data_to_write s)
       (case pk_sends s of [] \<Rightarrow> raiseP Blocked
        | r # rs \<Rightarrow>
            bindP (modP (\<lambda>s. s\<lparr>pk_sends := rs\<rparr>)) (\<lambda>_.
            case r of
              Send_error again \<Rightarrow> if again then retP () else raiseP (Fatal ''Write failed'')
            | Sent len \<Rightarrow>
                if len = 0 then raiseP (Fatal ''Write connection closed'')
                else bindP (liftR (buffer_peek (pk_output s) 0 len)) (\<lambda>d.
                  bindP (modP (\<lambda>s. s\<lparr>pk_net := pk_net s @ d\<rparr>)) (\<lambda>_.
                  on_output (\<lambda>b. buffer_consume b (of_nat len)))))))"

text \<open>The inner loop around \<open>select\<close>: its result \<open>ret\<close> is 0 for a timeout and -1 for an error that is not
  retried.\<close>

fun select_loop :: "int \<Rightarrow> int \<Rightarrow> select_result list \<Rightarrow> (int \<times> select_result list) res" where
  "select_loop timeout_ms ms_remain [] = Inl Blocked"
| "select_loop timeout_ms ms_remain (r # rs) =
     (case r of
        Sel_ready \<Rightarrow> Inr (1, rs)
      | Sel_timeout \<Rightarrow> Inr (0, rs)
      | Sel_error again elapsed \<Rightarrow>
          if \<not> again then Inr (- 1, rs)
          else if timeout_ms = - 1 then select_loop timeout_ms ms_remain rs
          else if ms_remain - int elapsed \<le> 0 then Inr (0, rs)
          else select_loop timeout_ms (ms_remain - int elapsed) rs)"

definition wait_socket :: "string \<Rightarrow> ('ev, 'z, 'm, unit) pproc" where
  "wait_socket msg =
     bindP (getP pk_packet_timeout_ms) (\<lambda>ms.
     bindP (updR pk_selects (\<lambda>r s. s\<lparr>pk_selects := r\<rparr>) (select_loop ms ms)) (\<lambda>ret.
     whenP (ret = 0) (raiseP (Cleanup_exit msg))))"

text \<open>Each round of the loop makes one call of \<open>send\<close>, so that the results still to come bound the rounds.\<close>

fun write_wait_loop :: "nat \<Rightarrow> ('ev, 'z, 'm, unit) pproc" where
  "write_wait_loop 0 = raiseP Diverge"
| "write_wait_loop (Suc n) =
     bindP (getP packet_have_data_to_write) (\<lambda>more.
     whenP more
       (bindP (wait_socket ''timed out while waiting to write'') (\<lambda>_.
        bindP packet_write_poll (\<lambda>_. write_wait_loop n))))"

definition packet_write_wait :: "('ev, 'z, 'm, unit) pproc" where
  "packet_write_wait =
     bindP packet_write_poll (\<lambda>_.
     bindP (getP (\<lambda>s. length (pk_sends s))) (\<lambda>n. write_wait_loop (Suc (Suc n))))"

section \<open>Ending a connection\<close>

definition packet_close :: "('ev, 'z, 'm, unit) pproc" where
  "packet_close =
     modP (\<lambda>s. if \<not> pk_packets_initialized s then s
       else s\<lparr>pk_packets_initialized := False, pk_input := buffer_free (pk_input s), pk_output := buffer_free (pk_output s),
          pk_outgoing_packet := buffer_free (pk_outgoing_packet s), pk_incoming_packet := buffer_free (pk_incoming_packet s),
          pk_compression_buffer := (if pk_compression_buffer_ready s then buffer_free (pk_compression_buffer s)
             else pk_compression_buffer s)\<rparr>)"

text \<open>The message is formatted into 1024 bytes.\<close>

definition packet_disconnect :: "('ev, 'z) crypto \<Rightarrow> string \<Rightarrow> ('ev, 'z, 'm, 'a) pproc" where
  "packet_disconnect C msg =
     (let buf = take 1023 msg in
      bindP (getP pk_pd_disconnecting) (\<lambda>again.
      if again then raiseP (Fatal ''packet_disconnect called recursively.'')
      else
        bindP (modP (\<lambda>s. s\<lparr>pk_pd_disconnecting := True\<rparr>)) (\<lambda>_.
        bindP (packet_start SSH2_MSG_DISCONNECT) (\<lambda>_.
        bindP (packet_put_int SSH2_DISCONNECT_PROTOCOL_ERROR) (\<lambda>_.
        bindP (packet_put_cstring buf) (\<lambda>_.
        bindP (packet_put_cstring []) (\<lambda>_.
        bindP (packet_send C) (\<lambda>_.
        bindP packet_write_wait (\<lambda>_.
        bindP packet_close (\<lambda>_.
        raiseP (Disconnect buf)))))))))))"

definition packet_check_eom :: "('ev, 'z) crypto \<Rightarrow> ('ev, 'z, 'm, unit) pproc" where
  "packet_check_eom C =
     bindP packet_remaining (\<lambda>len. whenP (len > 0) (packet_disconnect C ''Packet integrity error.''))"

section \<open>Receiving a packet\<close>

text \<open>The messages of \<open>packet_disconnect\<close> in \<open>packet_read_poll2\<close>.\<close>

definition bad_length_msg :: "u32 \<Rightarrow> string" where
  "bad_length_msg len = ''Bad packet length '' @ pad_right 10 (fmt_u (unat len))"

definition bad_padlen_msg :: "byte \<Rightarrow> string" where
  "bad_padlen_msg padlen = ''Corrupted padlen '' @ fmt_u (unat padlen) @ '' on input.''"

definition bad_type_msg :: "byte \<Rightarrow> string" where
  "bad_type_msg type = ''Invalid ssh2 packet type: '' @ fmt_u (unat type)"

definition MAC_MSG :: string where "MAC_MSG = ''Corrupted MAC on input.''"

text \<open>Decrypt the next \<open>n\<close> bytes of the input onto the incoming packet; the input is consumed by the caller.\<close>

definition decrypt_input :: "('ev, 'z) crypto \<Rightarrow> u32 \<Rightarrow> ('ev, 'z, 'm, unit) pproc" where
  "decrypt_input C n =
     bindP (updR pk_incoming_packet (\<lambda>b s. s\<lparr>pk_incoming_packet := b\<rparr>) (\<lambda>b. buffer_append_space b n)) (\<lambda>p.
     bindP (getP pk_input) (\<lambda>b.
     bindP (liftR (buffer_peek b 0 (unat n))) (\<lambda>d.
     bindP (updR pk_receive_context (\<lambda>c s. s\<lparr>pk_receive_context := c\<rparr>) (\<lambda>cc. cipher_crypt C cc d)) (\<lambda>dest.
     on_incoming (buffer_fill p dest)))))"

text \<open>The first block: it gives the length of the packet. \<open>False\<close> when there is not enough input for it.\<close>

definition read_first_block :: "('ev, 'z) crypto \<Rightarrow> u32 \<Rightarrow> ('ev, 'z, 'm, bool) pproc" where
  "read_first_block C block_size =
     bindP (getP (\<lambda>s. s)) (\<lambda>s.
     if pk_poll2_packet_length s \<noteq> 0 then retP True
     else if buffer_len (pk_input s) < block_size then retP False
     else
       bindP (on_incoming (\<lambda>b. Inr (buffer_clear b))) (\<lambda>_.
       bindP (decrypt_input C block_size) (\<lambda>_.
       bindP (from_incoming (\<lambda>b. bindR (buffer_peek b 0 4) (\<lambda>d. Inr (get_u32 d, b)))) (\<lambda>len.
       bindP (modP (\<lambda>s. s\<lparr>pk_poll2_packet_length := len\<rparr>)) (\<lambda>_.
       bindP (whenP (len < 1 + 4 \<or> len > 256 * 1024) (packet_disconnect C (bad_length_msg len))) (\<lambda>_.
       bindP (on_input (\<lambda>b. buffer_consume b block_size)) (\<lambda>_.
       retP True)))))))"

text \<open>The authentication code of the packet is compared with the bytes that follow it.\<close>

definition check_mac :: "('ev, 'z) crypto \<Rightarrow> Newkeys option \<Rightarrow> ('ev, 'z, 'm, unit) pproc" where
  "check_mac C nk =
     (case nk of None \<Rightarrow> retP ()
      | Some k \<Rightarrow> whenP (mac_enabled (nk_mac k))
          (bindP (getP (\<lambda>s. s)) (\<lambda>s.
           bindP (liftR (packet_mac C nk (ps_seqnr (pk_p_read s)) (pk_incoming_packet s))) (\<lambda>macbuf.
           bindP (liftR (buffer_peek (pk_input s) 0 (unat (mac_len (nk_mac k))))) (\<lambda>d.
           bindP (whenP (macbuf \<noteq> d) (packet_disconnect C MAC_MSG)) (\<lambda>_.
           on_input (\<lambda>b. buffer_consume b (mac_len (nk_mac k)))))))))"

definition strip_packet :: "('ev, 'z) crypto \<Rightarrow> ('ev, 'z, 'm, unit) pproc" where
  "strip_packet C =
     bindP (from_incoming (\<lambda>b. bindR (buffer_peek b 4 1) (\<lambda>d. Inr (d ! 0, b)))) (\<lambda>padlen.
     bindP (whenP (padlen < 4) (packet_disconnect C (bad_padlen_msg padlen))) (\<lambda>_.
     bindP (on_incoming (\<lambda>b. buffer_consume b (4 + 1))) (\<lambda>_.
     on_incoming (\<lambda>b. buffer_consume_end b (ucast padlen)))))"

definition packet_uncompress :: "('ev, 'z) crypto \<Rightarrow> ('ev, 'z, 'm, unit) pproc" where
  "packet_uncompress C =
     bindP (modP (\<lambda>s. s\<lparr>pk_compression_buffer := buffer_clear (pk_compression_buffer s)\<rparr>)) (\<lambda>_.
     bindP (buffer_uncompress C) (\<lambda>_.
     bindP (on_incoming (\<lambda>b. Inr (buffer_clear b))) (\<lambda>_.
     bindP (getP pk_compression_buffer) (\<lambda>c.
     bindP (liftR (buffer_peek c 0 (unat (buffer_len c)))) (\<lambda>d.
     on_incoming (\<lambda>b. buffer_append b d))))))"

text \<open>The type of the packet, and what the packet layer itself does with it.\<close>

definition take_type :: "('ev, 'z) crypto \<Rightarrow> ('ev, 'z, 'm, byte) pproc" where
  "take_type C =
     bindP (from_incoming buffer_get_char) (\<lambda>type.
     bindP (whenP (type < SSH2_MSG_MIN \<or> type \<ge> SSH2_MSG_LOCAL_MIN) (packet_disconnect C (bad_type_msg type))) (\<lambda>_.
     bindP (if type = SSH2_MSG_NEWKEYS then set_newkeys C MODE_IN
            else whenP (type = SSH2_MSG_USERAUTH_SUCCESS \<and> \<not> server_side) (packet_enable_delayed_compress C)) (\<lambda>_.
     bindP (modP (\<lambda>s. s\<lparr>pk_poll2_packet_length := 0\<rparr>)) (\<lambda>_.
     retP type))))"

text \<open>The packet is complete in the input: decrypt, authenticate, count, strip and uncompress it.\<close>

definition read_rest :: "('ev, 'z) crypto \<Rightarrow> Newkeys option \<Rightarrow> u32 \<Rightarrow> u32 \<Rightarrow> ('ev, 'z, 'm, byte) pproc" where
  "read_rest C nk need packet_length =
     bindP (decrypt_input C need) (\<lambda>_.
     bindP (on_input (\<lambda>b. buffer_consume b need)) (\<lambda>_.
     bindP (check_mac C nk) (\<lambda>_.
     bindP (count_packet MODE_IN (block_size_of nk) packet_length) (\<lambda>_.
     bindP (strip_packet C) (\<lambda>_.
     bindP (whenP (comp_on nk) (packet_uncompress C)) (\<lambda>_.
     take_type C))))))"

text \<open>The result is the type of the packet and its sequence number, \<open>SSH_MSG_NONE\<close> when there is no complete
  packet yet.\<close>

definition packet_read_poll2 :: "('ev, 'z) crypto \<Rightarrow> ('ev, 'z, 'm, byte \<times> u32) pproc" where
  "packet_read_poll2 C =
     bindP (getP (\<lambda>s. pk_newkeys s MODE_IN)) (\<lambda>nk.
     let maclen = (case nk of None \<Rightarrow> 0 | Some k \<Rightarrow> if mac_enabled (nk_mac k) then mac_len (nk_mac k) else 0);
         block_size = block_size_of nk in
     bindP (read_first_block C block_size) (\<lambda>started.
     bindP (getP (\<lambda>s. ps_seqnr (pk_p_read s))) (\<lambda>seqnr.
     if \<not> started then retP (SSH_MSG_NONE, seqnr)
     else
       bindP (getP pk_poll2_packet_length) (\<lambda>packet_length.
       let need = 4 + packet_length - block_size in
       bindP (liftR (modR need block_size)) (\<lambda>m.
       bindP (whenP (m \<noteq> 0) (packet_disconnect C (bad_length_msg packet_length))) (\<lambda>_.
       bindP (getP (\<lambda>s. buffer_len (pk_input s) < need + maclen)) (\<lambda>short.
       if short then retP (SSH_MSG_NONE, seqnr)
       else
         bindP (read_rest C nk need packet_length) (\<lambda>type.
         retP (type, seqnr)))))))))"

section \<open>Packets the transport layer handles itself\<close>

text \<open>What the loop of \<open>packet_read_poll_seqnr\<close> does with a packet of each type: \<open>None\<close> to go on, \<open>Some\<close> the
  result. \<open>poll_once\<close> is the body of the loop.\<close>

definition poll_dispatch :: "byte \<Rightarrow> u32 \<Rightarrow> ('ev, 'z, 'm, (byte \<times> u32) option) pproc" where
  "poll_dispatch type seqnr =
     bindP (whenP (type \<noteq> 0) (modP (\<lambda>s. s\<lparr>pk_keep_alive_timeouts := 0\<rparr>))) (\<lambda>_.
     if type = SSH2_MSG_IGNORE then retP None
     else if type = SSH2_MSG_DEBUG then
       bindP packet_get_char (\<lambda>_. bindP packet_get_string (\<lambda>_. bindP packet_get_string (\<lambda>_. retP None)))
     else if type = SSH2_MSG_DISCONNECT then
       bindP packet_get_int (\<lambda>_. bindP packet_get_string (\<lambda>_. raiseP (Cleanup_exit ''Received disconnect'')))
     else if type = SSH2_MSG_UNIMPLEMENTED then bindP packet_get_int (\<lambda>_. retP None)
     else retP (Some (type, seqnr)))"

definition poll_once :: "('ev, 'z) crypto \<Rightarrow> ('ev, 'z, 'm, (byte \<times> u32) option) pproc" where
  "poll_once C = bindP (packet_read_poll2 C) (\<lambda>(type, seqnr). poll_dispatch type seqnr)"

text \<open>Every packet takes at least one block of the input, but for the first, of which that block may be read
  already; so the length of the input bounds the rounds.\<close>

fun poll_loop :: "nat \<Rightarrow> ('ev, 'z) crypto \<Rightarrow> ('ev, 'z, 'm, byte \<times> u32) pproc" where
  "poll_loop 0 C = raiseP Diverge"
| "poll_loop (Suc n) C =
     bindP (poll_once C) (\<lambda>r. case r of None \<Rightarrow> poll_loop n C | Some x \<Rightarrow> retP x)"

definition packet_read_poll_seqnr :: "('ev, 'z) crypto \<Rightarrow> ('ev, 'z, 'm, byte \<times> u32) pproc" where
  "packet_read_poll_seqnr C =
     bindP (getP (\<lambda>s. unat (buffer_len (pk_input s)))) (\<lambda>n. poll_loop (Suc (Suc n)) C)"

definition packet_process_incoming :: "byte list \<Rightarrow> ('ev, 'z, 'm, unit) pproc" where
  "packet_process_incoming d = on_input (\<lambda>b. buffer_append b d)"

text \<open>Each round of the outer loop makes one call of \<open>recv\<close>; its results still to come bound the rounds.\<close>

fun read_loop :: "nat \<Rightarrow> ('ev, 'z) crypto \<Rightarrow> ('ev, 'z, 'm, byte \<times> u32) pproc" where
  "read_loop 0 C = raiseP Diverge"
| "read_loop (Suc n) C =
     bindP (packet_read_poll_seqnr C) (\<lambda>(type, seqnr).
     if type \<noteq> SSH_MSG_NONE then retP (type, seqnr)
     else
       bindP (wait_socket ''timed out while waiting to read'') (\<lambda>_.
       bindP (getP pk_recv) (\<lambda>rs.
       case rs of [] \<Rightarrow> raiseP Blocked
       | r # rs \<Rightarrow>
           bindP (modP (\<lambda>s. s\<lparr>pk_recv := rs\<rparr>)) (\<lambda>_.
           case r of None \<Rightarrow> raiseP (S_exception ''SocketException'')
           | Some d \<Rightarrow>
               if d = [] then raiseP (Cleanup_exit ''Connection closed by'')
               else bindP (packet_process_incoming d) (\<lambda>_. read_loop n C)))))"

definition packet_read_seqnr :: "('ev, 'z) crypto \<Rightarrow> ('ev, 'z, 'm, byte \<times> u32) pproc" where
  "packet_read_seqnr C =
     bindP packet_write_wait (\<lambda>_.
     bindP (getP (\<lambda>s. length (pk_recv s))) (\<lambda>n. read_loop (Suc n) C))"

definition packet_read :: "('ev, 'z) crypto \<Rightarrow> ('ev, 'z, 'm, byte) pproc" where
  "packet_read C = bindP (packet_read_seqnr C) (\<lambda>(type, _). retP type)"

definition packet_read_expect :: "('ev, 'z) crypto \<Rightarrow> byte \<Rightarrow> ('ev, 'z, 'm, unit) pproc" where
  "packet_read_expect C expected =
     bindP (packet_read C) (\<lambda>type.
     whenP (type \<noteq> expected)
       (packet_disconnect C (''Protocol error: expected packet type '' @ fmt_u (unat expected) @ '', got '' @ fmt_u (unat type))))"

section \<open>Setting up, and the need for new keys\<close>

definition packet_set_connection :: "('ev, 'z) crypto \<Rightarrow> ('ev, 'z, 'm, unit) pproc" where
  "packet_set_connection C =
     (case cipher_by_name ''none'' of None \<Rightarrow> raiseP (Fatal ''packet_set_connection: cannot load cipher none'')
      | Some none \<Rightarrow>
          bindP (liftR (cipher_init C none [] 0 None 0 True)) (\<lambda>sc.
          bindP (modP (\<lambda>s. s\<lparr>pk_send_context := sc\<rparr>)) (\<lambda>_.
          bindP (liftR (cipher_init C none [] 0 None 0 False)) (\<lambda>rc.
          modP (\<lambda>s.
            let s = s\<lparr>pk_receive_context := rc, pk_newkeys := (\<lambda>_. None)\<rparr> in
            if pk_packets_initialized s then s
            else s\<lparr>pk_packets_initialized := True, pk_input := buffer_init, pk_output := buffer_init,
              pk_outgoing_packet := buffer_init, pk_incoming_packet := buffer_init, pk_outgoing := [],
              pk_p_send := (pk_p_send s)\<lparr>ps_packets := 0\<rparr>, pk_p_read := (pk_p_read s)\<lparr>ps_packets := 0\<rparr>\<rparr>)))))"

text \<open>The constructor: \<open>raw\<close> is the memory of the object, the fields it does not initialise keep their content.\<close>

definition CoreConnection_new :: "('ev, 'z) crypto \<Rightarrow> ('ev, 'z, 'm) Packets_scheme \<Rightarrow> unit res \<times> ('ev, 'z, 'm) Packets_scheme" where
  "CoreConnection_new C raw =
     packet_set_connection C (raw\<lparr>pk_datafellows := 0, pk_packets_initialized := False,
       pk_compression_buffer_ready := False, pk_packet_compression := False, pk_keep_alive_timeouts := 0,
       pk_packet_timeout_ms := - 1, pk_compress_init_send_called := False, pk_compress_init_recv_called := False,
       pk_inflate_failed := False, pk_deflate_failed := False, pk_after_authentication := False, pk_extra_pad := 0,
       pk_poll2_packet_length := 0, pk_send2_rekeying := False, pk_pd_disconnecting := False,
       pk_p_read := \<lparr>ps_seqnr = 0, ps_packets = 0, ps_blocks = 0, ps_bytes = 0\<rparr>,
       pk_p_send := \<lparr>ps_seqnr = 0, ps_packets = 0, ps_blocks = 0, ps_bytes = 0\<rparr>\<rparr>)"

definition INT_MAX :: int where "INT_MAX = 2147483647"

definition packet_set_timeout :: "int \<Rightarrow> int \<Rightarrow> ('ev, 'z, 'm) Packets_scheme \<Rightarrow> ('ev, 'z, 'm) Packets_scheme" where
  "packet_set_timeout timeout count s =
     (if timeout = 0 \<or> count = 0 then s\<lparr>pk_packet_timeout_ms := - 1\<rparr>
      else if (INT_MAX div 1000) div count < timeout then s\<lparr>pk_packet_timeout_ms := INT_MAX\<rparr>
      else s\<lparr>pk_packet_timeout_ms := timeout * count * 1000\<rparr>)"

definition packet_need_rekeying :: "('ev, 'z, 'm) Packets_scheme \<Rightarrow> bool" where
  "packet_need_rekeying s \<longleftrightarrow>
     pk_datafellows s AND SSH_BUG_NOREKEY = 0 \<and>
     (ps_packets (pk_p_send s) > push_bit 31 1 \<or> ps_packets (pk_p_read s) > push_bit 31 1 \<or>
      pk_max_blocks_out s \<noteq> 0 \<and> ps_blocks (pk_p_send s) > pk_max_blocks_out s \<or>
      pk_max_blocks_in s \<noteq> 0 \<and> ps_blocks (pk_p_read s) > pk_max_blocks_in s)"

end
