(* ===== verification/Packet_Props.thy ===== *)
theory Packet_Props
  imports Packet Aes_Ctr
begin

text \<open>
  What the packet layer guarantees: the shape of an encrypted packet, that the receiver of a packet gets the
  message of the sender when the two ends are in step and that they stay in step, that nothing but key exchange
  messages leaves while keys are exchanged, and that every loop of the layer ends.
\<close>

section \<open>Memory behind the buffers\<close>

lemma buffer_peek_ok:
  assumes "buffer_inv b" "i + n \<le> length (bytes b)"
  shows "buffer_peek b i n = Inr (take n (drop i (bytes b)))"
proof -
  let ?k = "unat (b_end b) - unat (b_offset b)"
  have "length (bytes b) = ?k" using assms(1) by (rule length_bytes)
  then have n: "i + n \<le> ?k" using assms(2) by simp
  then have "unat (b_offset b) + i + n \<le> length (b_buf b)"
    using assms(1) unfolding buffer_inv_nat by linarith
  moreover have "take n (drop i (bytes b)) = take n (drop (unat (b_offset b) + i) (b_buf b))"
    using n by (simp add: bytes_def drop_take min_absorb1 add.commute)
  ultimately show ?thesis by (simp add: buffer_peek_def mem_read_def)
qed

lemma buffer_peek_all: "buffer_inv b \<Longrightarrow> buffer_peek b 0 (unat (buffer_len b)) = Inr (bytes b)"
  by (simp add: buffer_peek_ok unat_buffer_len)

lemma buffer_poke_ok:
  assumes "room b n" "i + length d \<le> length (bytes b)"
  shows "\<exists>b'. buffer_poke b i d = Inr b' \<and> room b' n \<and>
    bytes b' = take i (bytes b) @ d @ drop (i + length d) (bytes b)"
proof -
  let ?o = "unat (b_offset b)" and ?m = "b_buf b"
  let ?m' = "take (?o + i) ?m @ d @ drop (?o + i + length d) ?m"
  have inv: "buffer_inv b" using assms(1) by (rule room_inv)
  have len: "length (bytes b) = unat (b_end b) - ?o" using inv by (rule length_bytes)
  have fit: "?o + i + length d \<le> length ?m" "unat (b_end b) \<le> length ?m" "?o \<le> unat (b_end b)"
    using inv len assms(2) by (auto simp: buffer_inv_nat)
  have poke: "buffer_poke b i d = Inr (b\<lparr>b_buf := ?m'\<rparr>)"
    using fit by (simp add: buffer_poke_def mem_write_def)
  have room: "room (b\<lparr>b_buf := ?m'\<rparr>) n" using assms(1) fit by (auto simp: room_def buffer_inv_nat)
  have "bytes (b\<lparr>b_buf := ?m'\<rparr>) = take i (bytes b) @ d @ drop (i + length d) (bytes b)"
  proof -
    let ?k = "unat (b_end b) - ?o"
    have k: "i + length d \<le> ?k" using len assms(2) by simp
    have "bytes (b\<lparr>b_buf := ?m'\<rparr>) = take ?k (take i (drop ?o ?m) @ d @ drop (?o + i + length d) ?m)"
      using fit by (simp add: bytes_def drop_take add.commute)
    also have "\<dots> = take i (drop ?o ?m) @ d @ take (?k - (i + length d)) (drop (?o + i + length d) ?m)"
      using k fit by (simp add: min_absorb2 add.assoc)
    also have "take i (drop ?o ?m) = take i (bytes b)" using k by (simp add: bytes_def min_absorb1)
    also have "take (?k - (i + length d)) (drop (?o + i + length d) ?m) = drop (i + length d) (bytes b)"
      by (simp add: bytes_def drop_take add.commute add.left_commute)
    finally show ?thesis .
  qed
  with poke room show ?thesis by blast
qed

lemma space_room:
  assumes "room b (unat len + 0x7fff + n)" "unat len \<le> 0x100000"
  shows "\<exists>p c. buffer_append_space b len = Inr (p, c) \<and>
    (\<forall>d. length d = unat len \<longrightarrow> (\<exists>b'. buffer_fill p d c = Inr b' \<and> room b' n \<and> bytes b' = bytes b @ d))"
proof -
  have app: "\<exists>b'. buffer_append b d = Inr b' \<and> room b' n \<and> bytes b' = bytes b @ d"
    if "length d = unat len" for d
    using append_room [of b d n] assms that by simp
  have word: "of_nat (unat len) = len" by simp
  obtain b0 where "buffer_append b (replicate (unat len) 0) = Inr b0"
    using app [of "replicate (unat len) 0"] by auto
  then obtain p c where sp: "buffer_append_space b len = Inr (p, c)"
    by (auto simp: buffer_append_def word bindR_eq_Inr)
  have "\<exists>b'. buffer_fill p d c = Inr b' \<and> room b' n \<and> bytes b' = bytes b @ d" if d: "length d = unat len" for d
    using app [OF d] sp by (simp add: buffer_append_def buffer_fill_def d word)
  with sp show ?thesis by blast
qed

lemma room_clear: "room b n \<Longrightarrow> room (buffer_clear b) n"
  by (auto simp: room_def) (simp add: buffer_clear_def)

section \<open>Padding\<close>

lemma unat_ucast_byte: "unat (w :: u32) < 256 \<Longrightarrow> unat (ucast w :: byte) = unat w"
  by (simp add: unsigned_ucast_eq take_bit_nat_eq_self)

lemma unat_ucast_word: "unat (ucast (w :: byte) :: u32) = unat w"
proof -
  have "unat w < 256" by (rule unat_byte_less)
  then show ?thesis by (simp add: unsigned_ucast_eq take_bit_nat_eq_self)
qed

lemma unat_plus_byte: "unat (a :: byte) + unat b < 256 \<Longrightarrow> unat (a + b) = unat a + unat b"
  by (simp add: unat_word_ariths)

lemma pad_length_ok:
  assumes "8 \<le> unat bs" "unat bs \<le> 128"
  obtains p where "pad_length bs len 0 = Inr p" "4 \<le> unat p" "unat p < unat bs + 4" "unat bs dvd unat len + unat p"
proof -
  let ?b = "unat bs" and ?m = "unat len mod unat bs"
  have pos: "0 < ?b" using assms by simp
  have bs0: "bs \<noteq> 0" using assms by auto
  have m: "?m < ?b" using pos by simp
  have um: "unat (len mod bs) = ?m" by (simp add: unat_mod)
  have le: "len mod bs \<le> bs" using m um by (simp add: word_le_nat_alt)
  have q: "unat (ucast (bs - len mod bs) :: byte) = ?b - ?m"
    using assms le um by (subst unat_ucast_byte) (simp_all add: unat_minus_u32)
  have ub: "unat (ucast bs :: byte) = ?b" using assms by (simp add: unat_ucast_byte)
  have dvd0: "?b dvd unat len + (?b - ?m)"
  proof -
    have "unat len + (?b - ?m) = (unat len div ?b) * ?b + ?b" using m div_mult_mod_eq [of "unat len" ?b] by linarith
    then show ?thesis by simp
  qed
  let ?q = "ucast (bs - len mod bs) :: byte"
  show ?thesis
  proof (cases "?q < 4")
    case True
    then have lt: "?b - ?m < 4" using q by (simp add: word_less_nat_alt)
    have s: "unat (?q + ucast bs) = ?b - ?m + ?b" using q ub lt assms by (subst unat_plus_byte) simp_all
    have "?b dvd unat len + (?b - ?m + ?b)" using dvd0 by (metis dvd_add_triv_right_iff add.assoc)
    then have g: "4 \<le> unat (?q + ucast bs)" "unat (?q + ucast bs) < ?b + 4" "?b dvd unat len + unat (?q + ucast bs)"
      unfolding s using lt assms(1) by linarith+
    have "pad_length bs len 0 = Inr (?q + ucast bs)" using True bs0 by (simp add: pad_length_def modR_def)
    then show ?thesis using g by (rule that)
  next
    case False
    then have "4 \<le> ?b - ?m" using q by (simp add: word_less_nat_alt)
    then show ?thesis using False bs0 q m dvd0
      by (intro that [of ?q]) (simp_all add: pad_length_def modR_def)
  qed
qed

lemma length_random_bytes: "length (fst (random_bytes rand calls rnd i n)) = n"
  by (induction n arbitrary: calls rnd i) (simp_all add: Let_def case_prod_beta)

text \<open>The padding is appended, whatever its bytes are.\<close>

lemma add_padding_run:
  fixes s :: "('ev, 'z, 'm) Packets_scheme"
  assumes "pad_length bs (buffer_len (pk_outgoing_packet s)) (pk_extra_pad s) = Inr p"
    and "room (pk_outgoing_packet s) (unat p + 0x7fff + n)"
  shows "\<exists>pad b a. add_padding C has_enc bs s =
      (Inr p, s\<lparr>pk_extra_pad := 0, pk_outgoing_packet := b, pk_arc4 := a\<rparr>) \<and>
    length pad = unat p \<and> room b n \<and> bytes b = bytes (pk_outgoing_packet s) @ pad"
proof -
  have p: "unat (ucast p :: u32) = unat p" by (rule unat_ucast_word)
  have "unat p < 256" by (rule unat_byte_less)
  then have "unat (ucast p :: u32) \<le> 0x100000" by (simp add: p)
  from space_room [OF _ this, unfolded p, OF assms(2)]
  obtain q c where sp: "buffer_append_space (pk_outgoing_packet s) (ucast p) = Inr (q, c)"
    and fill: "\<And>d. length d = unat p \<Longrightarrow>
      \<exists>b'. buffer_fill q d c = Inr b' \<and> room b' n \<and> bytes b' = bytes (pk_outgoing_packet s) @ d"
    by blast
  let ?r = "random_bytes (arc4random C) (pk_arc4 s) 0 0 (unat p)"
  obtain b1 where b1: "buffer_fill q (fst ?r) c = Inr b1" "room b1 n" "bytes b1 = bytes (pk_outgoing_packet s) @ fst ?r"
    using fill [OF length_random_bytes] by blast
  obtain b2 where b2: "buffer_fill q (replicate (unat p) 0) c = Inr b2" "room b2 n"
      "bytes b2 = bytes (pk_outgoing_packet s) @ replicate (unat p) 0"
    using fill [OF length_replicate] by blast
  show ?thesis
  proof (cases "has_enc \<and> \<not> cc_plaintext (pk_send_context s)")
    case True
    then have "add_padding C has_enc bs s =
        (Inr p, s\<lparr>pk_extra_pad := 0, pk_outgoing_packet := b1, pk_arc4 := snd ?r\<rparr>)"
      using assms(1) sp b1(1) by (simp add: add_padding_def run_simps case_prod_beta)
    then show ?thesis using b1(2,3) length_random_bytes by (intro exI conjI) (assumption | rule refl)+
  next
    case False
    then have "add_padding C has_enc bs s =
        (Inr p, s\<lparr>pk_extra_pad := 0, pk_outgoing_packet := b2, pk_arc4 := pk_arc4 s\<rparr>)"
      using assms(1) sp b2(1) by (auto simp: add_padding_def run_simps case_prod_beta)
    then show ?thesis using b2(2,3) length_replicate by (intro exI conjI) (assumption | rule refl)+
  qed
qed

section \<open>What is sent\<close>

text \<open>A packet as RFC 4253 lays it out, before encryption.\<close>

definition packet_bytes :: "byte list \<Rightarrow> byte list \<Rightarrow> byte list" where
  "packet_bytes payload pad =
     put_u32 (of_nat (length payload + length pad + 1)) @ [of_nat (length pad)] @ payload @ pad"

lemma length_packet_bytes [simp]: "length (packet_bytes payload pad) = length payload + length pad + 5"
  by (simp add: packet_bytes_def)

definition maclen_of :: "Newkeys option \<Rightarrow> u32" where
  "maclen_of nk = (case nk of None \<Rightarrow> 0 | Some k \<Rightarrow> if mac_enabled (nk_mac k) then mac_len (nk_mac k) else 0)"

definition mac_bytes :: "('ev, 'z) crypto \<Rightarrow> Newkeys option \<Rightarrow> u32 \<Rightarrow> byte list \<Rightarrow> byte list res" where
  "mac_bytes C nk seqnr d =
     (case nk of None \<Rightarrow> Inr []
      | Some k \<Rightarrow>
          if mac_enabled (nk_mac k) then
            bindR (mac_compute C (nk_mac k) seqnr d) (\<lambda>m. Inr (take (unat (mac_len (nk_mac k))) m))
          else Inr [])"

lemma packet_mac_bytes: "buffer_inv b \<Longrightarrow> packet_mac C nk seqnr b = mac_bytes C nk seqnr (bytes b)"
  by (simp add: packet_mac_def mac_bytes_def buffer_peek_all split: option.split)

text \<open>Keys whose block size the padding can serve and whose authentication codes are as long as they say.\<close>

definition good_keys :: "('ev, 'z) crypto \<Rightarrow> Newkeys option \<Rightarrow> bool" where
  "good_keys C nk \<longleftrightarrow> 8 \<le> unat (block_size_of nk) \<and> unat (block_size_of nk) \<le> 128 \<and> \<not> comp_on nk \<and>
     unat (maclen_of nk) \<le> 64 \<and>
     (\<forall>seqnr d. \<exists>m. mac_bytes C nk seqnr d = Inr m \<and> length m = unat (maclen_of nk))"

lemma put_header_run:
  fixes s :: "('ev, 'z, 'm) Packets_scheme"
  assumes "room (pk_outgoing_packet s) n" "bytes (pk_outgoing_packet s) = replicate 5 0 @ payload @ pad"
    and "length pad = unat p" "length payload \<le> 0x40000"
  shows "\<exists>b. put_header p s = (Inr (of_nat (length payload + length pad + 1)), s\<lparr>pk_outgoing_packet := b\<rparr>) \<and>
    room b n \<and> bytes b = packet_bytes payload pad"
proof -
  let ?b = "pk_outgoing_packet s" and ?l = "length payload + length pad + 1"
  have h: "unat (buffer_len ?b) = ?l + 4" using assms(1,2) by (simp add: room_inv unat_buffer_len)
  have "buffer_len ?b = of_nat (unat (buffer_len ?b))" by simp
  then have "buffer_len ?b = of_nat (?l + 4)" by (simp only: h)
  then have len: "buffer_len ?b - 4 = of_nat ?l" by simp
  obtain b1 where b1: "buffer_poke ?b 0 (put_u32 (of_nat ?l)) = Inr b1" "room b1 n"
      "bytes b1 = put_u32 (of_nat ?l) @ drop 4 (bytes ?b)"
    using buffer_poke_ok [OF assms(1), of 0 "put_u32 (of_nat ?l)"] assms(2) by auto
  have "drop 4 (bytes ?b) = 0 # payload @ pad" using assms(2) by (simp add: numeral_eq_Suc)
  then have eb1: "bytes b1 = put_u32 (of_nat ?l) @ 0 # payload @ pad" using b1(3) by simp
  obtain b2 where b2: "buffer_poke b1 4 [p] = Inr b2" "room b2 n"
      "bytes b2 = put_u32 (of_nat ?l) @ [p] @ payload @ pad"
    using buffer_poke_ok [OF b1(2), of 4 "[p]"] eb1 by auto
  have "p = of_nat (length pad)" using assms(3) by simp
  then have "bytes b2 = packet_bytes payload pad" using b2(3) by (simp add: packet_bytes_def)
  moreover have "put_header p s = (Inr (of_nat ?l), s\<lparr>pk_outgoing_packet := b2\<rparr>)"
    using b1(1) b2(1) len by (simp add: put_header_def run_simps)
  ultimately show ?thesis using b2(2) by (intro exI conjI) (assumption | rule refl)+
qed

lemma encrypt_packet_run:
  fixes s :: "('ev, 'z, 'm) Packets_scheme"
  assumes "buffer_inv (pk_outgoing_packet s)" "length (bytes (pk_outgoing_packet s)) \<le> 0x100000"
    and "room (pk_output s) (length (bytes (pk_outgoing_packet s)) + 0x7fff + n)"
    and "cipher_crypt C (pk_send_context s) (bytes (pk_outgoing_packet s)) = Inr (c, cc)"
    and "length c = length (bytes (pk_outgoing_packet s))"
  shows "\<exists>out. encrypt_packet C s = (Inr (), s\<lparr>pk_output := out, pk_send_context := cc\<rparr>) \<and>
    room out n \<and> bytes out = bytes (pk_output s) @ c"
proof -
  let ?b = "pk_outgoing_packet s"
  have l: "unat (buffer_len ?b) = length (bytes ?b)" using assms(1) by (rule unat_buffer_len)
  obtain q d where sp: "buffer_append_space (pk_output s) (buffer_len ?b) = Inr (q, d)"
    and fill: "\<And>e. length e = unat (buffer_len ?b) \<Longrightarrow>
      \<exists>b'. buffer_fill q e d = Inr b' \<and> room b' n \<and> bytes b' = bytes (pk_output s) @ e"
    using space_room [of "pk_output s" "buffer_len ?b" n] assms(2,3) unfolding l by blast
  obtain out where o: "buffer_fill q c d = Inr out" "room out n" "bytes out = bytes (pk_output s) @ c"
    using fill [of c] assms(5) l by auto
  have "encrypt_packet C s = (Inr (), s\<lparr>pk_output := out, pk_send_context := cc\<rparr>)"
    using sp o(1) assms(4) by (simp add: encrypt_packet_def run_simps buffer_peek_all [OF assms(1)])
  then show ?thesis using o(2,3) by (intro exI conjI)
qed

lemma cipher_crypt_ok:
  assumes "unat (c_block_size (cc_cipher cc)) dvd length d" "length d < 4294967296" "c_block_size (cc_cipher cc) \<noteq> 0"
    and "EVP_Cipher C (cc_evp cc) d = Some (c, ev)"
  shows "cipher_crypt C cc d = Inr (c, cc\<lparr>cc_evp := ev\<rparr>)"
proof -
  have "unat (of_nat (length d) mod c_block_size (cc_cipher cc)) = 0"
    using assms(1,2) by (simp add: unat_mod)
  then have "of_nat (length d) mod c_block_size (cc_cipher cc) = 0" by (simp only: unat_eq_zero)
  then show ?thesis using assms(3,4) by (simp add: cipher_crypt_def modR_def guardR_def someR_def)
qed

text \<open>The message becomes a packet.\<close>

lemma frame_run:
  fixes s :: "('ev, 'z, 'm) Packets_scheme"
  assumes bs: "8 \<le> unat bs" "unat bs \<le> 128"
    and buf: "room (pk_outgoing_packet s) 0x80fe" "bytes (pk_outgoing_packet s) = replicate 5 0 @ payload"
      "length payload \<le> 0x40000" "pk_extra_pad s = 0"
  shows "\<exists>p pad b b' a. add_padding C he bs s = (Inr p, s\<lparr>pk_extra_pad := 0, pk_outgoing_packet := b, pk_arc4 := a\<rparr>) \<and>
    put_header p (s\<lparr>pk_extra_pad := 0, pk_outgoing_packet := b, pk_arc4 := a\<rparr>) =
      (Inr (of_nat (length payload + length pad + 1)), s\<lparr>pk_extra_pad := 0, pk_outgoing_packet := b', pk_arc4 := a\<rparr>) \<and>
    4 \<le> length pad \<and> length pad < unat bs + 4 \<and> unat bs dvd length (packet_bytes payload pad) \<and>
    buffer_inv b' \<and> bytes b' = packet_bytes payload pad"
proof -
  let ?b = "pk_outgoing_packet s"
  have blen: "unat (buffer_len ?b) = 5 + length payload" using room_inv [OF buf(1)] buf(2) by (simp add: unat_buffer_len)
  obtain p where p: "pad_length bs (buffer_len ?b) 0 = Inr p" "4 \<le> unat p" "unat p < unat bs + 4"
      "unat bs dvd unat (buffer_len ?b) + unat p"
    using pad_length_ok [OF bs] by blast
  have roomb: "room ?b (unat p + 0x7fff + 0)" by (rule room_mono [OF buf(1)]) (use unat_byte_less [of p] in simp)
  obtain pad b a where a: "add_padding C he bs s = (Inr p, s\<lparr>pk_extra_pad := 0, pk_outgoing_packet := b, pk_arc4 := a\<rparr>)"
      "length pad = unat p" "room b 0" "bytes b = bytes ?b @ pad"
    using add_padding_run [of bs s p 0, OF _ roomb] p(1) buf(4) by metis
  let ?s = "s\<lparr>pk_extra_pad := 0, pk_outgoing_packet := b, pk_arc4 := a\<rparr>"
  obtain b' where h: "put_header p ?s = (Inr (of_nat (length payload + length pad + 1)), ?s\<lparr>pk_outgoing_packet := b'\<rparr>)"
      "room b' 0" "bytes b' = packet_bytes payload pad"
    using put_header_run [of ?s 0 payload pad p] a(2-4) buf(2,3) by auto
  have d: "unat bs dvd length (packet_bytes payload pad)" using p(4) blen a(2) by (simp add: add.commute add.left_commute)
  show ?thesis
    apply (rule exI [of _ p], rule exI [of _ pad], rule exI [of _ b], rule exI [of _ b'], rule exI [of _ a])
    using a(1,2) h d p(2,3) room_inv [OF h(2)] by simp
qed

text \<open>One packet goes out: padded, with its header, encrypted, followed by its authentication code.\<close>

lemma seal_run:
  fixes s :: "('ev, 'z, 'm) Packets_scheme"
  defines "nk \<equiv> pk_newkeys s MODE_OUT"
  assumes keys: "good_keys C nk"
    and buf: "room (pk_outgoing_packet s) 0x80fe" "bytes (pk_outgoing_packet s) = replicate 5 0 @ payload"
      "payload \<noteq> []" "length payload \<le> 0x40000" "pk_extra_pad s = 0"
    and out: "room (pk_output s) (length payload + 0x10142 + n)"
    and crypt: "\<forall>d. unat (block_size_of nk) dvd length d \<longrightarrow>
      (\<exists>c ev. EVP_Cipher C (cc_evp (pk_send_context s)) d = Some (c, ev) \<and> length c = length d)"
    and cbs: "c_block_size (cc_cipher (pk_send_context s)) = block_size_of nk"
    and cnt: "ps_packets (pk_p_send s) + 1 \<noteq> 0"
  shows "\<exists>b a out st pad c ev mac.
    seal_packet C s = (Inr (hd payload), s\<lparr>pk_extra_pad := 0, pk_outgoing_packet := b, pk_arc4 := a,
      pk_output := out, pk_send_context := (pk_send_context s)\<lparr>cc_evp := ev\<rparr>, pk_p_send := st\<rparr>) \<and>
    4 \<le> length pad \<and> length pad < unat (block_size_of nk) + 4 \<and> unat (block_size_of nk) dvd length (packet_bytes payload pad) \<and>
    EVP_Cipher C (cc_evp (pk_send_context s)) (packet_bytes payload pad) = Some (c, ev) \<and>
    mac_bytes C nk (ps_seqnr (pk_p_send s)) (packet_bytes payload pad) = Inr mac \<and>
    bytes out = bytes (pk_output s) @ c @ mac \<and> room out n \<and> buffer_inv b \<and>
    ps_seqnr st = ps_seqnr (pk_p_send s) + 1"
proof -
  let ?bs = "block_size_of nk" and ?b = "pk_outgoing_packet s" and ?cc = "pk_send_context s"
  have bs: "8 \<le> unat ?bs" "unat ?bs \<le> 128" and comp: "\<not> comp_on nk" and ml: "unat (maclen_of nk) \<le> 64"
    using keys by (simp_all add: good_keys_def)
  have peek: "buffer_peek ?b 5 1 = Inr [hd payload]"
    using room_inv [OF buf(1)] buf(2,3) by (cases payload) (simp_all add: buffer_peek_ok)
  obtain p pad b b' a where f: "add_padding C (nk \<noteq> None) ?bs s = (Inr p, s\<lparr>pk_extra_pad := 0, pk_outgoing_packet := b, pk_arc4 := a\<rparr>)"
      "put_header p (s\<lparr>pk_extra_pad := 0, pk_outgoing_packet := b, pk_arc4 := a\<rparr>) =
        (Inr (of_nat (length payload + length pad + 1)), s\<lparr>pk_extra_pad := 0, pk_outgoing_packet := b', pk_arc4 := a\<rparr>)"
      "4 \<le> length pad" "length pad < unat ?bs + 4" "unat ?bs dvd length (packet_bytes payload pad)"
      "buffer_inv b'" "bytes b' = packet_bytes payload pad"
    using frame_run [OF bs buf(1,2,4,5), of C "nk \<noteq> None"] by metis
  let ?s = "s\<lparr>pk_extra_pad := 0, pk_outgoing_packet := b', pk_arc4 := a\<rparr>" and ?P = "packet_bytes payload pad"
  obtain c ev where c: "EVP_Cipher C (cc_evp ?cc) ?P = Some (c, ev)" "length c = length ?P" using crypt [rule_format, OF f(5)] by blast
  obtain mac where mac: "mac_bytes C nk (ps_seqnr (pk_p_send s)) ?P = Inr mac" "length mac = unat (maclen_of nk)"
    using keys by (auto simp: good_keys_def)
  have cr: "cipher_crypt C ?cc ?P = Inr (c, ?cc\<lparr>cc_evp := ev\<rparr>)"
    using f(4,5) buf(4) bs cbs c(1) by (intro cipher_crypt_ok) auto
  have r1: "room (pk_output ?s) (length (bytes (pk_outgoing_packet ?s)) + 0x7fff + (64 + 0x7fff + n))"
    by (rule room_mono) (use out f(4,7) bs in auto)
  obtain o1 where e: "encrypt_packet C ?s = (Inr (), ?s\<lparr>pk_output := o1, pk_send_context := ?cc\<lparr>cc_evp := ev\<rparr>\<rparr>)"
      "room o1 (64 + 0x7fff + n)" "bytes o1 = bytes (pk_output s) @ c"
    using encrypt_packet_run [OF _ _ r1, of C c "?cc\<lparr>cc_evp := ev\<rparr>"] f(4,6,7) buf(4) bs cr c(2) by auto
  have "room o1 (length mac + 0x7fff + n)" by (rule room_mono [OF e(2)]) (use mac(2) ml in simp)
  then obtain o2 where o2: "buffer_append o1 mac = Inr o2" "room o2 n" "bytes o2 = bytes o1 @ mac"
    using append_room [of o1 mac n] mac(2) ml by auto
  let ?o = "if mac_on nk then o2 else o1"
  have m0: "mac = []" if "\<not> mac_on nk"
    using that mac(1) by (auto simp: mac_on_def mac_bytes_def split: option.splits if_splits)
  have o: "bytes ?o = bytes (pk_output s) @ c @ mac" "room ?o n"
    using o2 e m0 by (auto intro: room_mono)
  let ?p0 = "pk_p_send s" and ?len = "of_nat (length payload + length pad + 1) :: u32"
  let ?st = "?p0\<lparr>ps_seqnr := ps_seqnr ?p0 + 1, ps_packets := ps_packets ?p0 + 1,
      ps_blocks := ps_blocks ?p0 + ucast ((?len + 4) div ?bs), ps_bytes := ps_bytes ?p0 + ucast (?len + 4)\<rparr>"
  note run = seal_packet_def run_simps count_packet_def packet_get_state_def packet_set_state_def Let_def
  have "seal_packet C s = (Inr (hd payload), s\<lparr>pk_extra_pad := 0, pk_outgoing_packet := buffer_clear b', pk_arc4 := a,
      pk_output := ?o, pk_send_context := ?cc\<lparr>cc_evp := ev\<rparr>, pk_p_send := ?st\<rparr>)"
    using peek f(1,2) comp e(1) o2(1) mac(1) cnt
    by (simp add: run packet_mac_bytes [OF f(6)] f(7) flip: nk_def)
  moreover have "buffer_inv (buffer_clear b')" "ps_seqnr ?st = ps_seqnr (pk_p_send s) + 1" using f(6) by simp_all
  ultimately show ?thesis using f(3,4,5) c(1) mac(1) o by (intro exI conjI)
qed

lemma send2_wrapped_run:
  fixes s :: "('ev, 'z, 'm) Packets_scheme"
  defines "nk \<equiv> pk_newkeys s MODE_OUT"
  assumes "good_keys C nk"
    and "room (pk_outgoing_packet s) 0x80fe" "bytes (pk_outgoing_packet s) = replicate 5 0 @ payload"
      "payload \<noteq> []" "length payload \<le> 0x40000" "pk_extra_pad s = 0"
    and "room (pk_output s) (length payload + 0x10142 + n)"
    and "\<forall>d. unat (block_size_of nk) dvd length d \<longrightarrow>
      (\<exists>c ev. EVP_Cipher C (cc_evp (pk_send_context s)) d = Some (c, ev) \<and> length c = length d)"
    and "c_block_size (cc_cipher (pk_send_context s)) = block_size_of nk"
    and "ps_packets (pk_p_send s) + 1 \<noteq> 0" and type: "hd payload \<noteq> SSH2_MSG_NEWKEYS"
  shows "\<exists>t pad c ev mac. packet_send2_wrapped C s = (Inr (), t) \<and>
    4 \<le> length pad \<and> length pad < unat (block_size_of nk) + 4 \<and> unat (block_size_of nk) dvd length (packet_bytes payload pad) \<and>
    EVP_Cipher C (cc_evp (pk_send_context s)) (packet_bytes payload pad) = Some (c, ev) \<and>
    mac_bytes C nk (ps_seqnr (pk_p_send s)) (packet_bytes payload pad) = Inr mac \<and>
    bytes (pk_output t) = bytes (pk_output s) @ c @ mac \<and> pk_newkeys t = pk_newkeys s \<and>
    pk_send_context t = (pk_send_context s)\<lparr>cc_evp := ev\<rparr> \<and>
    ps_seqnr (pk_p_send t) = ps_seqnr (pk_p_send s) + 1 \<and> pk_extra_pad t = 0"
proof -
  obtain b a out st pad c ev mac where sealed:
    "seal_packet C s = (Inr (hd payload), s\<lparr>pk_extra_pad := 0, pk_outgoing_packet := b, pk_arc4 := a,
      pk_output := out, pk_send_context := (pk_send_context s)\<lparr>cc_evp := ev\<rparr>, pk_p_send := st\<rparr>)"
    "4 \<le> length pad" "length pad < unat (block_size_of nk) + 4" "unat (block_size_of nk) dvd length (packet_bytes payload pad)"
    "EVP_Cipher C (cc_evp (pk_send_context s)) (packet_bytes payload pad) = Some (c, ev)"
    "mac_bytes C nk (ps_seqnr (pk_p_send s)) (packet_bytes payload pad) = Inr mac"
    "bytes out = bytes (pk_output s) @ c @ mac" "ps_seqnr st = ps_seqnr (pk_p_send s) + 1"
    using seal_run [of C s payload n, folded nk_def, OF assms(2-11)] by (elim exE conjE) (rule that)
  then show ?thesis using type
    by (intro exI [of _ "s\<lparr>pk_extra_pad := 0, pk_outgoing_packet := b, pk_arc4 := a,
      pk_output := out, pk_send_context := (pk_send_context s)\<lparr>cc_evp := ev\<rparr>, pk_p_send := st\<rparr>"]
      exI [of _ pad] exI [of _ c] exI [of _ ev] exI [of _ mac])
      (simp add: packet_send2_wrapped_def server_side_def run_simps)
qed

section \<open>What is received\<close>

lemma decrypt_input_run:
  fixes r :: "('ev, 'z, 'm) Packets_scheme"
  assumes "buffer_inv (pk_input r)" "bytes (pk_input r) = c @ rest" "unat n = length c" "length c \<le> 0x100000"
    and "room (pk_incoming_packet r) (length c + 0x7fff + k)"
    and "unat (c_block_size (cc_cipher (pk_receive_context r))) dvd length c" "c_block_size (cc_cipher (pk_receive_context r)) \<noteq> 0"
    and "EVP_Cipher C (cc_evp (pk_receive_context r)) c = Some (d, ev)" "length d = length c"
  shows "\<exists>b. decrypt_input C n r =
      (Inr (), r\<lparr>pk_incoming_packet := b, pk_receive_context := (pk_receive_context r)\<lparr>cc_evp := ev\<rparr>\<rparr>) \<and>
    room b k \<and> bytes b = bytes (pk_incoming_packet r) @ d"
proof -
  let ?cc = "pk_receive_context r"
  obtain q e where sp: "buffer_append_space (pk_incoming_packet r) n = Inr (q, e)"
    and fill: "\<And>x. length x = unat n \<Longrightarrow>
      \<exists>b'. buffer_fill q x e = Inr b' \<and> room b' k \<and> bytes b' = bytes (pk_incoming_packet r) @ x"
    using space_room [of "pk_incoming_packet r" n k] assms(4,5) unfolding assms(3) by blast
  obtain b where b: "buffer_fill q d e = Inr b" "room b k" "bytes b = bytes (pk_incoming_packet r) @ d"
    using fill [of d] assms(3,9) by auto
  have peek: "buffer_peek (pk_input r) 0 (unat n) = Inr c" using assms(1-3) by (simp add: buffer_peek_ok)
  have "cipher_crypt C ?cc c = Inr (d, ?cc\<lparr>cc_evp := ev\<rparr>)" using assms(4,6-8) by (intro cipher_crypt_ok) auto
  then have "decrypt_input C n r = (Inr (), r\<lparr>pk_incoming_packet := b, pk_receive_context := ?cc\<lparr>cc_evp := ev\<rparr>\<rparr>)"
    using sp peek b(1) by (simp add: decrypt_input_def run_simps)
  then show ?thesis using b(2,3) by (intro exI conjI)
qed

lemma consume_exact:
  assumes "buffer_inv b" "bytes b = c @ rest" "unat n = length c"
  shows "\<exists>b'. buffer_consume b n = Inr b' \<and> buffer_inv b' \<and> bytes b' = rest"
  using buffer_consume_spec(2) [OF assms(1), of n] assms(2,3) by auto

lemma consume_end_exact:
  assumes "buffer_inv b" "bytes b = c @ pad" "unat n = length pad"
  shows "\<exists>b'. buffer_consume_end b n = Inr b' \<and> buffer_inv b' \<and> bytes b' = c"
  using buffer_consume_end_spec(2) [OF assms(1), of n] assms(2,3) by auto

lemma get_u32_prefix: "get_u32 (take 4 (put_u32 v @ x)) = v"
  by (simp add: get_put_u32)

text \<open>The first block of a packet whose length is in bounds.\<close>

lemma read_first_block_run:
  fixes r :: "('ev, 'z, 'm) Packets_scheme"
  assumes "pk_poll2_packet_length r = 0" "buffer_inv (pk_input r)" "bytes (pk_input r) = c @ rest" "unat bs = length c"
    and "8 \<le> unat bs" "unat bs \<le> 128" "c_block_size (cc_cipher (pk_receive_context r)) = bs"
    and "room (pk_incoming_packet r) (0x8080 + k)"
    and "EVP_Cipher C (cc_evp (pk_receive_context r)) c = Some (d, ev)" "length d = length c"
    and "take 4 d = put_u32 len" "5 \<le> unat len" "unat len \<le> 0x40000"
  shows "\<exists>b i. read_first_block C bs r = (Inr True, r\<lparr>pk_incoming_packet := b, pk_input := i, pk_poll2_packet_length := len,
        pk_receive_context := (pk_receive_context r)\<lparr>cc_evp := ev\<rparr>\<rparr>) \<and>
    room b k \<and> bytes b = d \<and> buffer_inv i \<and> bytes i = rest"
proof -
  let ?r = "r\<lparr>pk_incoming_packet := buffer_clear (pk_incoming_packet r)\<rparr>"
  have bs0: "bs \<noteq> 0" using assms(5) by auto
  have "room (pk_incoming_packet ?r) (length c + 0x7fff + k)"
    using room_mono [OF room_clear [OF assms(8)], of "length c + 0x7fff + k"] assms(4,6) by simp
  then obtain b where b: "decrypt_input C bs ?r =
        (Inr (), ?r\<lparr>pk_incoming_packet := b, pk_receive_context := (pk_receive_context ?r)\<lparr>cc_evp := ev\<rparr>\<rparr>)"
      "room b k" "bytes b = d"
    using decrypt_input_run [of ?r c rest bs k C d ev] assms bs0 by auto
  have "buffer_peek b 0 4 = Inr (put_u32 len)"
    using buffer_peek_ok [OF room_inv [OF b(2)], of 0 4] b(3) assms(4,5,10,11) by simp
  moreover have "get_u32 (put_u32 len) = len" by (rule get_put_u32)
  moreover obtain i where i: "buffer_consume (pk_input r) bs = Inr i" "buffer_inv i" "bytes i = rest"
    using consume_exact [OF assms(2-4)] by blast
  moreover have "\<not> buffer_len (pk_input r) < bs"
    using assms(2-4) by (simp add: word_less_nat_alt unat_buffer_len)
  moreover have "\<not> (len < 1 + 4 \<or> len > 256 * 1024)"
    using assms(12,13) by (simp add: word_less_nat_alt)
  ultimately have "read_first_block C bs r = (Inr True, r\<lparr>pk_incoming_packet := b, pk_input := i,
      pk_poll2_packet_length := len, pk_receive_context := (pk_receive_context r)\<lparr>cc_evp := ev\<rparr>\<rparr>)"
    using b(1) assms(1) by (simp add: read_first_block_def run_simps)
  then show ?thesis using b(2,3) i(2,3) by (intro exI conjI)
qed

lemma check_mac_run:
  fixes r :: "('ev, 'z, 'm) Packets_scheme"
  assumes "mac_bytes C nk (ps_seqnr (pk_p_read r)) (bytes (pk_incoming_packet r)) = Inr mac" "length mac = unat (maclen_of nk)"
    and "buffer_inv (pk_incoming_packet r)" "buffer_inv (pk_input r)" "bytes (pk_input r) = mac @ rest"
  shows "\<exists>i. check_mac C nk r = (Inr (), r\<lparr>pk_input := i\<rparr>) \<and> buffer_inv i \<and> bytes i = rest"
proof (cases "mac_on nk")
  case False
  then have "mac = []" using assms(1) by (auto simp: mac_on_def mac_bytes_def split: option.splits if_splits)
  moreover have "check_mac C nk r = (Inr (), r\<lparr>pk_input := pk_input r\<rparr>)"
    using False by (auto simp: check_mac_def mac_on_def run_simps split: option.split)
  ultimately show ?thesis using assms(4,5) by (intro exI [of _ "pk_input r"]) simp
next
  case True
  then obtain k where k: "nk = Some k" "mac_enabled (nk_mac k)" by (auto simp: mac_on_def split: option.splits)
  then have l: "unat (mac_len (nk_mac k)) = length mac" using assms(2) by (simp add: maclen_of_def)
  obtain i where i: "buffer_consume (pk_input r) (mac_len (nk_mac k)) = Inr i" "buffer_inv i" "bytes i = rest"
    using consume_exact [OF assms(4,5) l] by blast
  have "buffer_peek (pk_input r) 0 (unat (mac_len (nk_mac k))) = Inr mac"
    using assms(4,5) l by (simp add: buffer_peek_ok)
  then have "check_mac C nk r = (Inr (), r\<lparr>pk_input := i\<rparr>)"
    using k assms(1,3) i(1) by (simp add: check_mac_def run_simps packet_mac_bytes)
  then show ?thesis using i(2,3) by (intro exI conjI)
qed

lemma strip_packet_run:
  fixes r :: "('ev, 'z, 'm) Packets_scheme"
  assumes "buffer_inv (pk_incoming_packet r)" "bytes (pk_incoming_packet r) = packet_bytes payload pad"
    and "4 \<le> length pad" "length pad < 256"
  shows "\<exists>b. strip_packet C r = (Inr (), r\<lparr>pk_incoming_packet := b\<rparr>) \<and> buffer_inv b \<and> bytes b = payload"
proof -
  let ?b = "pk_incoming_packet r" and ?p = "of_nat (length pad) :: byte"
  have p: "unat ?p = length pad" using assms(4) by (simp add: unat_of_nat take_bit_nat_eq_self)
  have "drop 4 (bytes ?b) = ?p # payload @ pad" using assms(2) by (simp add: packet_bytes_def)
  then have peek: "buffer_peek ?b 4 1 = Inr [?p]" using buffer_peek_ok [OF assms(1), of 4 1] assms(2) by simp
  obtain b1 where b1: "buffer_consume ?b (4 + 1) = Inr b1" "buffer_inv b1" "bytes b1 = payload @ pad"
    using consume_exact [OF assms(1), of "put_u32 (of_nat (length payload + length pad + 1)) @ [?p]" "payload @ pad" "4 + 1"]
      assms(2) by (auto simp: packet_bytes_def)
  have "unat (ucast ?p :: u32) = length pad" using p by (simp add: unat_ucast_word)
  then obtain b2 where b2: "buffer_consume_end b1 (ucast ?p) = Inr b2" "buffer_inv b2" "bytes b2 = payload"
    using consume_end_exact [OF b1(2,3)] by blast
  have "\<not> ?p < 4" using p assms(3) by (simp add: word_less_nat_alt)
  then have "strip_packet C r = (Inr (), r\<lparr>pk_incoming_packet := b2\<rparr>)"
    using peek b1(1) b2(1) by (simp add: strip_packet_def run_simps)
  then show ?thesis using b2(2,3) by (intro exI conjI)
qed

lemma take_type_run:
  fixes r :: "('ev, 'z, 'm) Packets_scheme"
  assumes "buffer_inv (pk_incoming_packet r)" "bytes (pk_incoming_packet r) = type # msg"
    and "SSH2_MSG_MIN \<le> type" "type < SSH2_MSG_LOCAL_MIN" "type \<noteq> SSH2_MSG_NEWKEYS" "type \<noteq> SSH2_MSG_USERAUTH_SUCCESS"
  shows "\<exists>b. take_type C r = (Inr type, r\<lparr>pk_incoming_packet := b, pk_poll2_packet_length := 0\<rparr>) \<and>
    buffer_inv b \<and> bytes b = msg"
proof -
  obtain b where b: "buffer_get_char (pk_incoming_packet r) = Inr (type, b)" "buffer_inv b" "bytes b = msg"
    using wchar.get_ok [OF assms(1), of type msg] assms(2) by auto
  have "take_type C r = (Inr type, r\<lparr>pk_incoming_packet := b, pk_poll2_packet_length := 0\<rparr>)"
    using b(1) assms(3-6) by (auto simp: take_type_def run_simps)
  then show ?thesis using b(2,3) by (intro exI conjI)
qed

text \<open>The rest of a packet whose first block \<open>p\<close> is decrypted.\<close>

lemma read_rest_run:
  fixes r :: "('ev, 'z, 'm) Packets_scheme"
  assumes keys: "\<not> comp_on nk" "length mac = unat (maclen_of nk)" "block_size_of nk \<noteq> 0"
      "c_block_size (cc_cipher (pk_receive_context r)) = block_size_of nk"
    and st: "buffer_inv (pk_input r)" "bytes (pk_input r) = d @ mac @ rest" "bytes (pk_incoming_packet r) = p"
      "room (pk_incoming_packet r) (length d + 0x7fff)" "unat need = length d" "length d \<le> 0x100000"
    and dec: "EVP_Cipher C (cc_evp (pk_receive_context r)) d = Some (q, ev)" "length q = length d"
      "unat (block_size_of nk) dvd length d"
    and pkt: "p @ q = packet_bytes payload pad" "4 \<le> length pad" "length pad < 256" "payload \<noteq> []"
    and mac: "mac_bytes C nk (ps_seqnr (pk_p_read r)) (packet_bytes payload pad) = Inr mac"
    and cnt: "ps_packets (pk_p_read r) + 1 \<noteq> 0"
    and type: "SSH2_MSG_MIN \<le> hd payload" "hd payload < SSH2_MSG_LOCAL_MIN" "hd payload \<noteq> SSH2_MSG_NEWKEYS"
      "hd payload \<noteq> SSH2_MSG_USERAUTH_SUCCESS"
  shows "\<exists>t. read_rest C nk need len r = (Inr (hd payload), t) \<and>
    buffer_inv (pk_incoming_packet t) \<and> bytes (pk_incoming_packet t) = tl payload \<and>
    buffer_inv (pk_input t) \<and> bytes (pk_input t) = rest \<and> pk_newkeys t = pk_newkeys r \<and> pk_poll2_packet_length t = 0 \<and>
    pk_receive_context t = (pk_receive_context r)\<lparr>cc_evp := ev\<rparr> \<and> ps_seqnr (pk_p_read t) = ps_seqnr (pk_p_read r) + 1"
proof -
  obtain b1 where b1: "decrypt_input C need r =
        (Inr (), r\<lparr>pk_incoming_packet := b1, pk_receive_context := (pk_receive_context r)\<lparr>cc_evp := ev\<rparr>\<rparr>)"
      "room b1 0" "bytes b1 = packet_bytes payload pad"
    using decrypt_input_run [of r d "mac @ rest" need 0 C q ev] st keys dec pkt(1) by auto
  let ?r1 = "r\<lparr>pk_incoming_packet := b1, pk_receive_context := (pk_receive_context r)\<lparr>cc_evp := ev\<rparr>\<rparr>"
  obtain i1 where i1: "buffer_consume (pk_input r) need = Inr i1" "buffer_inv i1" "bytes i1 = mac @ rest"
    using consume_exact [OF st(1,2,5)] by blast
  let ?r2 = "?r1\<lparr>pk_input := i1\<rparr>"
  have inv: "buffer_inv b1" using b1(2) by (rule room_inv)
  obtain i2 where i2: "check_mac C nk ?r2 = (Inr (), ?r2\<lparr>pk_input := i2\<rparr>)" "buffer_inv i2" "bytes i2 = rest"
    using check_mac_run [of C nk ?r2 mac rest] mac keys(2) b1(3) inv i1(2,3) by auto
  let ?p0 = "pk_p_read r"
  let ?p = "?p0\<lparr>ps_seqnr := ps_seqnr ?p0 + 1, ps_packets := ps_packets ?p0 + 1,
      ps_blocks := ps_blocks ?p0 + ucast ((len + 4) div block_size_of nk), ps_bytes := ps_bytes ?p0 + ucast (len + 4)\<rparr>"
  let ?r3 = "?r2\<lparr>pk_input := i2, pk_p_read := ?p\<rparr>"
  have c: "count_packet MODE_IN (block_size_of nk) len (?r2\<lparr>pk_input := i2\<rparr>) = (Inr (), ?r3)"
    using cnt by (simp add: count_packet_def packet_get_state_def packet_set_state_def run_simps Let_def)
  obtain b2 where b2: "strip_packet C ?r3 = (Inr (), ?r3\<lparr>pk_incoming_packet := b2\<rparr>)" "buffer_inv b2" "bytes b2 = payload"
    using strip_packet_run [of ?r3 payload pad C] inv b1(3) pkt(2,3) by auto
  let ?r4 = "?r3\<lparr>pk_incoming_packet := b2\<rparr>"
  obtain b3 where b3: "take_type C ?r4 = (Inr (hd payload), ?r4\<lparr>pk_incoming_packet := b3, pk_poll2_packet_length := 0\<rparr>)"
      "buffer_inv b3" "bytes b3 = tl payload"
    using take_type_run [of ?r4 "hd payload" "tl payload" C] b2(2,3) pkt(4) type by auto
  have "read_rest C nk need len r = (Inr (hd payload), ?r4\<lparr>pk_incoming_packet := b3, pk_poll2_packet_length := 0\<rparr>)"
    using b1(1) i1(1) i2(1) c b2(1) b3(1) keys(1) by (simp add: read_rest_def run_simps)
  then show ?thesis using b3(2,3) i2(2,3) by (intro exI conjI) (assumption | simp)+
qed

text \<open>One packet comes in: \<open>p @ q\<close> is the packet, the first block and the rest, as the sender encrypted it.\<close>

lemma poll2_run:
  fixes r :: "('ev, 'z, 'm) Packets_scheme"
  defines "nk \<equiv> pk_newkeys r MODE_IN"
  assumes keys: "good_keys C nk" and st: "pk_poll2_packet_length r = 0" "buffer_inv (pk_input r)"
      "bytes (pk_input r) = c @ d @ mac @ rest" "room (pk_incoming_packet r) 0x60000"
    and cbs: "c_block_size (cc_cipher (pk_receive_context r)) = block_size_of nk" "length c = unat (block_size_of nk)"
    and dec: "EVP_Cipher C (cc_evp (pk_receive_context r)) c = Some (p, ev1)" "EVP_Cipher C ev1 d = Some (q, ev)"
      "length p = length c" "length q = length d" "unat (block_size_of nk) dvd length d"
    and pkt: "p @ q = packet_bytes payload pad" "4 \<le> length pad" "length pad < 256" "payload \<noteq> []" "length payload \<le> 0x3ff00"
    and mac: "mac_bytes C nk (ps_seqnr (pk_p_read r)) (packet_bytes payload pad) = Inr mac" "length mac = unat (maclen_of nk)"
    and cnt: "ps_packets (pk_p_read r) + 1 \<noteq> 0"
    and type: "SSH2_MSG_MIN \<le> hd payload" "hd payload < SSH2_MSG_LOCAL_MIN" "hd payload \<noteq> SSH2_MSG_NEWKEYS"
      "hd payload \<noteq> SSH2_MSG_USERAUTH_SUCCESS"
  shows "\<exists>t. packet_read_poll2 C r = (Inr (hd payload, ps_seqnr (pk_p_read r)), t) \<and>
    buffer_inv (pk_incoming_packet t) \<and> bytes (pk_incoming_packet t) = tl payload \<and>
    buffer_inv (pk_input t) \<and> bytes (pk_input t) = rest \<and> pk_newkeys t = pk_newkeys r \<and> pk_poll2_packet_length t = 0 \<and>
    pk_receive_context t = (pk_receive_context r)\<lparr>cc_evp := ev\<rparr> \<and> ps_seqnr (pk_p_read t) = ps_seqnr (pk_p_read r) + 1"
proof -
  let ?bs = "block_size_of nk" and ?len = "of_nat (length payload + length pad + 1) :: u32"
  have bs: "8 \<le> unat ?bs" "unat ?bs \<le> 128" and comp: "\<not> comp_on nk" and ml: "unat (maclen_of nk) \<le> 64"
    using keys by (simp_all add: good_keys_def)
  have bs0: "?bs \<noteq> 0" using bs by auto
  have lP: "length c + length d = length payload + length pad + 5"
    using arg_cong [OF pkt(1), of length] dec(3,4) by simp
  have ulen: "unat ?len = length payload + length pad + 1"
    by (rule unat_of_nat_u32) (use pkt(3,5) in linarith)
  have "take 4 p = take 4 (p @ q)" using dec(3) cbs(2) bs by simp
  then have t4: "take 4 p = put_u32 ?len" using pkt(1) by (simp add: packet_bytes_def)
  obtain b i where f: "read_first_block C ?bs r = (Inr True, r\<lparr>pk_incoming_packet := b, pk_input := i,
        pk_poll2_packet_length := ?len, pk_receive_context := (pk_receive_context r)\<lparr>cc_evp := ev1\<rparr>\<rparr>)"
      "room b (0x60000 - 0x8080)" "bytes b = p" "buffer_inv i" "bytes i = d @ mac @ rest"
    using read_first_block_run [of r c "d @ mac @ rest" ?bs "0x60000 - 0x8080" C p ev1 ?len]
      st cbs dec(1,3) bs t4 ulen pkt by auto
  let ?r1 = "r\<lparr>pk_incoming_packet := b, pk_input := i, pk_poll2_packet_length := ?len,
    pk_receive_context := (pk_receive_context r)\<lparr>cc_evp := ev1\<rparr>\<rparr>" and ?need = "4 + ?len - ?bs"
  have "of_nat (unat ?bs) = ?bs" by simp
  then have w: "?need = of_nat (length d)"
    using arg_cong [OF lP, of "of_nat :: nat \<Rightarrow> u32"] cbs(2) by (simp add: algebra_simps)
  have need: "unat ?need = length d" unfolding w by (rule unat_of_nat_u32) (use lP pkt(3,5) in linarith)
  have m: "modR ?need ?bs = Inr 0"
    using dec(5) need bs0 by (simp add: modR_def flip: unat_eq_zero) (simp add: unat_mod)
  have "unat (?need + maclen_of nk) = length d + unat (maclen_of nk)"
    by (subst unat_plus_u32) (use need lP pkt(3,5) ml in simp_all)
  then have enough: "\<not> buffer_len i < ?need + maclen_of nk"
    using f(4,5) mac(2) by (simp add: word_less_nat_alt unat_buffer_len)
  have "room b (length d + 0x7fff)" by (rule room_mono [OF f(2)]) (use lP pkt(3,5) in simp)
  then obtain t where t: "read_rest C nk ?need ?len ?r1 = (Inr (hd payload), t)"
      "buffer_inv (pk_incoming_packet t)" "bytes (pk_incoming_packet t) = tl payload" "buffer_inv (pk_input t)"
      "bytes (pk_input t) = rest" "pk_newkeys t = pk_newkeys r" "pk_poll2_packet_length t = 0"
      "pk_receive_context t = (pk_receive_context r)\<lparr>cc_evp := ev\<rparr>" "ps_seqnr (pk_p_read t) = ps_seqnr (pk_p_read r) + 1"
    using read_rest_run [of nk mac ?r1 d rest p ?need C q ev payload pad ?len]
      comp mac bs0 cbs(1) f(3-5) need lP pkt dec(2,4,5) cnt type by auto
  have "packet_read_poll2 C r = (Inr (hd payload, ps_seqnr (pk_p_read r)), t)"
    using f(1) m enough t(1) by (simp add: packet_read_poll2_def run_simps Let_def flip: nk_def maclen_of_def)
  then show ?thesis using t(2-) by (intro exI conjI)
qed

section \<open>The two ends of a connection\<close>

definition same_keys :: "Newkeys option \<Rightarrow> Newkeys option \<Rightarrow> bool" where
  "same_keys a b =
     (case (a, b) of (None, None) \<Rightarrow> True
      | (Some x, Some y) \<Rightarrow> enc_block_size (nk_enc x) = enc_block_size (nk_enc y) \<and> nk_mac x = nk_mac y \<and>
          comp_enabled (nk_comp x) = comp_enabled (nk_comp y)
      | _ \<Rightarrow> False)"

lemma same_keys_eq:
  assumes "same_keys a b"
  shows "block_size_of a = block_size_of b" "maclen_of a = maclen_of b" "mac_bytes C a = mac_bytes C b"
    "comp_on a = comp_on b"
  using assms by (auto simp: same_keys_def block_size_of_def maclen_of_def mac_bytes_def comp_on_def fun_eq_iff
      split: option.splits prod.splits)

lemma same_keys_good: "same_keys a b \<Longrightarrow> good_keys C a = good_keys C b"
  by (simp add: good_keys_def same_keys_eq)

text \<open>The sender \<open>s\<close> and the receiver \<open>r\<close> of one direction are in step: the same keys, cipher contexts that
  belong together, the same sequence number, and no packet half read.\<close>

definition in_step :: "('ev, 'z) crypto \<Rightarrow> ('ev \<Rightarrow> 'ev \<Rightarrow> bool) \<Rightarrow> ('ev, 'z, 'm) Packets_scheme \<Rightarrow> ('ev, 'z, 'n) Packets_scheme \<Rightarrow> bool" where
  "in_step C rel s r \<longleftrightarrow>
     good_keys C (pk_newkeys s MODE_OUT) \<and> same_keys (pk_newkeys s MODE_OUT) (pk_newkeys r MODE_IN) \<and>
     c_block_size (cc_cipher (pk_send_context s)) = block_size_of (pk_newkeys s MODE_OUT) \<and>
     c_block_size (cc_cipher (pk_receive_context r)) = block_size_of (pk_newkeys s MODE_OUT) \<and>
     rel (cc_evp (pk_send_context s)) (cc_evp (pk_receive_context r)) \<and>
     ps_seqnr (pk_p_send s) = ps_seqnr (pk_p_read r) \<and> pk_poll2_packet_length r = 0 \<and> pk_extra_pad s = 0"

text \<open>Enough memory and packet numbers left for one more packet.\<close>

definition can_receive :: "('ev, 'z, 'm) Packets_scheme \<Rightarrow> bool" where
  "can_receive r \<longleftrightarrow> buffer_inv (pk_input r) \<and> room (pk_incoming_packet r) 0x60000 \<and> ps_packets (pk_p_read r) + 1 \<noteq> 0"

definition can_send :: "byte list \<Rightarrow> ('ev, 'z, 'm) Packets_scheme \<Rightarrow> bool" where
  "can_send payload s \<longleftrightarrow> bytes (pk_outgoing_packet s) = replicate 5 0 @ payload \<and> room (pk_outgoing_packet s) 0x80fe \<and>
     room (pk_output s) (length payload + 0x10142) \<and> ps_packets (pk_p_send s) + 1 \<noteq> 0"

text \<open>Messages that neither side handles in the packet layer.\<close>

definition plain_type :: "byte \<Rightarrow> bool" where
  "plain_type t \<longleftrightarrow> SSH2_MSG_MIN \<le> t \<and> t < SSH2_MSG_LOCAL_MIN \<and> t \<noteq> SSH2_MSG_NEWKEYS \<and> t \<noteq> SSH2_MSG_USERAUTH_SUCCESS \<and>
     t \<noteq> SSH2_MSG_KEXINIT"

lemma packet_send_plain:
  assumes "bytes (pk_outgoing_packet s) = replicate 5 0 @ payload" "buffer_inv (pk_outgoing_packet s)" "payload \<noteq> []"
    and "\<not> pk_send2_rekeying s" "hd payload \<noteq> SSH2_MSG_NEWKEYS" "hd payload \<noteq> SSH2_MSG_KEXINIT"
    and "packet_send2_wrapped C s = (Inr (), t)"
  shows "packet_send C s = (Inr (), t)"
proof -
  have "buffer_peek (pk_outgoing_packet s) 5 1 = Inr [hd payload]"
    using assms(1-3) by (cases payload) (simp_all add: buffer_peek_ok)
  then show ?thesis using assms(4-) by (simp add: packet_send_def packet_send2_def run_simps)
qed

text \<open>A receiver in step gets the message out of the encrypted packet.\<close>

lemma receive_sent:
  fixes s :: "('ev, 'z, 'm) Packets_scheme" and r :: "('ev, 'z, 'n) Packets_scheme" and payload pad
  defines "nk \<equiv> pk_newkeys s MODE_OUT" and "P \<equiv> packet_bytes payload pad"
  assumes sync: "evp_sync (EVP_Cipher C) (unat (block_size_of nk)) rel"
    and step: "in_step C rel s r" and recv: "can_receive r"
    and msg: "payload \<noteq> []" "length payload \<le> 0x3ff00" "plain_type (hd payload)" "4 \<le> length pad" "length pad < 256"
    and enc: "EVP_Cipher C (cc_evp (pk_send_context s)) P = Some (c, ev)" "unat (block_size_of nk) dvd length P"
      "mac_bytes C nk (ps_seqnr (pk_p_send s)) P = Inr mac"
    and input: "bytes (pk_input r) = (c @ mac) @ rest"
  shows "\<exists>r' ev'. packet_read_poll2 C r = (Inr (hd payload, ps_seqnr (pk_p_read r)), r') \<and>
    bytes (pk_incoming_packet r') = tl payload \<and> bytes (pk_input r') = rest \<and> pk_newkeys r' = pk_newkeys r \<and>
    pk_receive_context r' = (pk_receive_context r)\<lparr>cc_evp := ev'\<rparr> \<and> rel ev ev' \<and>
    ps_seqnr (pk_p_read r') = ps_seqnr (pk_p_read r) + 1 \<and> pk_poll2_packet_length r' = 0"
proof -
  let ?bs = "unat (block_size_of nk)" and ?mk = "pk_newkeys r MODE_IN"
  have same: "same_keys nk ?mk" and keys: "good_keys C nk"
    and rel: "rel (cc_evp (pk_send_context s)) (cc_evp (pk_receive_context r))"
    using step by (simp_all add: in_step_def nk_def)
  note same_keys_eq [OF same, symmetric, simp]
  have bs: "8 \<le> ?bs" using keys by (simp add: good_keys_def)
  have le: "?bs \<le> length P" using enc(2) by (rule dvd_imp_le) (simp add: P_def)
  have lc: "length c = length P" using evp_sync.enc_length [OF sync rel enc(1)] .
  let ?p = "take ?bs P" and ?q = "drop ?bs P" and ?c = "take ?bs c" and ?d = "drop ?bs c"
  have dq: "?bs dvd length ?q" using enc(2) by (simp add: dvd_diff_nat)
  have "length ?p = ?bs" using le by simp
  then obtain ev1 ev' where d: "EVP_Cipher C (cc_evp (pk_receive_context r)) ?c = Some (?p, ev1)"
      "EVP_Cipher C ev1 ?d = Some (?q, ev')" "rel ev ev'"
    using evp_sync.dec_two [OF sync rel, of ?p ?q c ev] dq enc(1) by auto
  have lm: "length mac = unat (maclen_of nk)" using keys enc(3) unfolding good_keys_def by (metis sum.inject(2))
  have "good_keys C ?mk" "bytes (pk_input r) = ?c @ ?d @ mac @ rest"
    "c_block_size (cc_cipher (pk_receive_context r)) = block_size_of ?mk" "length ?c = unat (block_size_of ?mk)"
    "pk_poll2_packet_length r = 0" "mac_bytes C ?mk (ps_seqnr (pk_p_read r)) P = Inr mac" "length mac = unat (maclen_of ?mk)"
    using keys same_keys_good [OF same, of C] input step enc(3) lm lc le by (simp_all add: in_step_def flip: nk_def)
  then obtain t where t: "packet_read_poll2 C r = (Inr (hd payload, ps_seqnr (pk_p_read r)), t)"
      "bytes (pk_incoming_packet t) = tl payload" "bytes (pk_input t) = rest" "pk_newkeys t = pk_newkeys r"
      "pk_poll2_packet_length t = 0" "pk_receive_context t = (pk_receive_context r)\<lparr>cc_evp := ev'\<rparr>"
      "ps_seqnr (pk_p_read t) = ps_seqnr (pk_p_read r) + 1"
    using poll2_run [where r = r and C = C and c = ?c and d = ?d and mac = mac and rest = rest and p = ?p and q = ?q
        and ?ev1.0 = ev1 and ev = ev' and payload = payload and pad = pad] recv d msg lc le dq
    unfolding P_def [symmetric] can_receive_def plain_type_def by auto
  with d(3) show ?thesis by (intro exI [of _ t] exI [of _ ev']) simp
qed

text \<open>What one end sends in step the other receives, and they stay in step.\<close>

lemma wrapped_round_trip:
  fixes s :: "('ev, 'z, 'm) Packets_scheme"
  assumes sync: "evp_sync (EVP_Cipher C) (unat (block_size_of (pk_newkeys s MODE_OUT))) rel"
    and step: "in_step C rel s r0" and send: "can_send payload s"
    and msg: "payload \<noteq> []" "length payload \<le> 0x3ff00" "plain_type (hd payload)"
  shows "\<exists>s' sent. packet_send2_wrapped C s = (Inr (), s') \<and> bytes (pk_output s') = bytes (pk_output s) @ sent \<and>
    (\<forall>(r :: ('ev, 'z, 'n) Packets_scheme) rest. in_step C rel s r \<and> can_receive r \<and> bytes (pk_input r) = sent @ rest \<longrightarrow>
      (\<exists>r'. packet_read_poll2 C r = (Inr (hd payload, ps_seqnr (pk_p_read r)), r') \<and>
        bytes (pk_incoming_packet r') = tl payload \<and> bytes (pk_input r') = rest \<and> in_step C rel s' r'))"
proof -
  define nk where "nk = pk_newkeys s MODE_OUT"
  let ?bs = "unat (block_size_of nk)"
  have keys: "good_keys C nk" using step by (simp add: in_step_def nk_def)
  have bs: "8 \<le> ?bs" "?bs \<le> 128" using keys by (simp_all add: good_keys_def)
  have rel0: "rel (cc_evp (pk_send_context s)) (cc_evp (pk_receive_context r0))" using step by (simp add: in_step_def)
  have total: "\<forall>d. ?bs dvd length d \<longrightarrow>
      (\<exists>c ev. EVP_Cipher C (cc_evp (pk_send_context s)) d = Some (c, ev) \<and> length c = length d)"
    using evp_sync.enc_total [OF sync rel0] evp_sync.enc_length [OF sync rel0] unfolding nk_def by metis
  obtain s' pad c ev mac where S: "packet_send2_wrapped C s = (Inr (), s')" "4 \<le> length pad" "length pad < ?bs + 4"
      "?bs dvd length (packet_bytes payload pad)"
      "EVP_Cipher C (cc_evp (pk_send_context s)) (packet_bytes payload pad) = Some (c, ev)"
      "mac_bytes C nk (ps_seqnr (pk_p_send s)) (packet_bytes payload pad) = Inr mac"
      "bytes (pk_output s') = bytes (pk_output s) @ c @ mac" "pk_newkeys s' = pk_newkeys s"
      "pk_send_context s' = (pk_send_context s)\<lparr>cc_evp := ev\<rparr>"
      "ps_seqnr (pk_p_send s') = ps_seqnr (pk_p_send s) + 1" "pk_extra_pad s' = 0"
    using send2_wrapped_run [of C s payload 0, folded nk_def, OF keys _ _ msg(1)] send step msg total
    unfolding can_send_def in_step_def plain_type_def nk_def [symmetric] by auto
  have "\<exists>r'. packet_read_poll2 C r = (Inr (hd payload, ps_seqnr (pk_p_read r)), r') \<and>
        bytes (pk_incoming_packet r') = tl payload \<and> bytes (pk_input r') = rest \<and> in_step C rel s' r'"
    if a: "in_step C rel s r \<and> can_receive r \<and> bytes (pk_input r) = (c @ mac) @ rest"
    for r :: "('ev, 'z, 'n) Packets_scheme" and rest
  proof -
    have "length pad < 256" using S(3) bs by simp
    then obtain r' ev' where R: "packet_read_poll2 C r = (Inr (hd payload, ps_seqnr (pk_p_read r)), r')"
        "bytes (pk_incoming_packet r') = tl payload" "bytes (pk_input r') = rest" "pk_newkeys r' = pk_newkeys r"
        "pk_receive_context r' = (pk_receive_context r)\<lparr>cc_evp := ev'\<rparr>" "rel ev ev'"
        "ps_seqnr (pk_p_read r') = ps_seqnr (pk_p_read r) + 1" "pk_poll2_packet_length r' = 0"
      using receive_sent [OF sync, of r payload pad c ev mac rest] a msg S(2,4,5,6) unfolding nk_def by metis
    then have "in_step C rel s' r'" using a S(8-11) by (simp add: in_step_def)
    with R show ?thesis by (intro exI conjI)
  qed
  with S(1,7) show ?thesis by (intro exI [of _ s'] exI [of _ "c @ mac"]) simp
qed

section \<open>Properties: packets on the wire\<close>

text \<open>An example connection for the witnesses: AES in counter mode over a simple block function.\<close>

definition example_crypto :: "(byte ssh_aes_ctr_ctx option, unit) crypto" where
  "example_crypto = \<lparr>EVP_CipherInit = (\<lambda>_ iv _. Some (Some \<lparr>aes_ctx = 0, aes_counter = the iv\<rparr>)),
     EVP_CTX_key_length = (\<lambda>_. 16), EVP_CTX_set_key_length = (\<lambda>ev _. Some ev),
     EVP_CipherInit_key = (\<lambda>ev _. Some ev), EVP_Cipher = ssh_aes_ctr (\<lambda>b k. map (\<lambda>x. x + k) b),
     EVP_MAX_MD_SIZE = 36, HMAC = (\<lambda>_ _ _. replicate 20 7), UMAC = (\<lambda>_ _ _. replicate 8 7),
     deflateInit = (\<lambda>_. ()), deflate = (\<lambda>_ d n. (0, take n d, drop n d, ())), inflateInit = (),
     inflate = (\<lambda>_ d n. (if d = [] then - 5 else 0, take n d, drop n d, ())), arc4random = (\<lambda>n. of_nat n)\<rparr>"

definition example_cipher :: Cipher where
  "example_cipher = mk_Cipher ''aes128-ctr'' SSH_CIPHER_SSH2 16 16 0 Evp_aes_128_ctr"

definition example_keys :: Newkeys where
  "example_keys = \<lparr>nk_enc = \<lparr>enc_name = ''aes128-ctr'', enc_cipher = example_cipher, enc_enabled = False, enc_key_len = 16,
       enc_block_size = 16, enc_key = Some (replicate 16 1), enc_iv = Some (replicate 16 2)\<rparr>,
     nk_mac = mac_zero\<lparr>mac_key := Some (replicate 16 3), mac_key_len := 16, mac_len := 20, mac_evp_md := Some EVP_sha1, mac_enabled := True\<rparr>,
     nk_comp = \<lparr>comp_ty = COMP_NONE, comp_enabled = False, comp_name = ''none''\<rparr>\<rparr>"

definition example_ctx :: "byte ssh_aes_ctr_ctx option CipherContext" where
  "example_ctx = \<lparr>cc_plaintext = False, cc_evp = Some \<lparr>aes_ctx = 3, aes_counter = replicate 16 0\<rparr>, cc_cipher = example_cipher\<rparr>"

definition example_conn :: "Buffer \<Rightarrow> (byte ssh_aes_ctr_ctx option, unit) Packets" where
  "example_conn b =
     \<lparr>pk_datafellows = 0, pk_packets_initialized = True, pk_receive_context = example_ctx, pk_send_context = example_ctx,
      pk_input = buffer_init, pk_output = buffer_init, pk_outgoing_packet = b, pk_incoming_packet = buffer_init,
      pk_compression_buffer = buffer_init, pk_compression_buffer_ready = False, pk_packet_compression = False,
      pk_newkeys = (\<lambda>_. Some example_keys), pk_current_keys = (\<lambda>_. None),
      pk_p_read = \<lparr>ps_seqnr = 5, ps_packets = 2, ps_blocks = 0, ps_bytes = 0\<rparr>,
      pk_p_send = \<lparr>ps_seqnr = 5, ps_packets = 2, ps_blocks = 0, ps_bytes = 0\<rparr>,
      pk_max_blocks_in = 0, pk_max_blocks_out = 0, pk_rekey_limit = 0, pk_extra_pad = 0, pk_outgoing = [],
      pk_keep_alive_timeouts = 0, pk_packet_timeout_ms = - 1, pk_after_authentication = True,
      pk_incoming_stream = (), pk_outgoing_stream = (), pk_compress_init_send_called = False,
      pk_compress_init_recv_called = False, pk_inflate_failed = False, pk_deflate_failed = False,
      pk_poll2_packet_length = 0, pk_send2_rekeying = False, pk_pd_disconnecting = False, pk_arc4 = 0,
      pk_recv = [], pk_sends = [], pk_selects = [], pk_net = []\<rparr>"

lemma example_in_step: "in_step example_crypto ctr_ready (example_conn a) (example_conn b)"
  by (simp add: in_step_def example_conn_def good_keys_def same_keys_def block_size_of_def comp_on_def maclen_of_def
      mac_bytes_def mac_compute_def example_keys_def mac_zero_def example_crypto_def example_ctx_def example_cipher_def
      mk_Cipher_def ctr_ready_def AES_BLOCK_SIZE_def)

lemma example_sync:
  "evp_sync (EVP_Cipher example_crypto) (unat (block_size_of (pk_newkeys (example_conn b) MODE_OUT))) ctr_ready"
  using ctr.evp_sync_axioms
  by (simp add: example_crypto_def example_conn_def block_size_of_def example_keys_def AES_BLOCK_SIZE_def)

lemma example_can_send: "\<exists>b. can_send [94, 7] (example_conn b)"
proof -
  have "room buffer_init (length (replicate 5 0 @ [94, 7] :: byte list) + 0x7fff + 0x80fe)" by (rule room_init) simp
  then obtain b where "room b 0x80fe" "bytes b = replicate 5 0 @ [94, 7]"
    using append_room [of buffer_init "replicate 5 0 @ [94, 7]" "0x80fe"] by auto
  then have "can_send [94, 7] (example_conn b)"
    by (simp add: can_send_def example_conn_def room_init)
  then show ?thesis ..
qed

text \<open>C6: What is sent is received. A message that the packet layer does not handle itself, sent while no keys
  are being exchanged, is framed, padded, authenticated and encrypted without an error; a receiver that is in
  step with the sender and finds these bytes at the start of its input returns the type of the message and its
  sequence number, has the body of the message as its incoming packet, has consumed exactly these bytes, and is
  again in step with the sender. The hypothesis \<open>evp_sync\<close> is that the cipher decrypts what it encrypted.\<close>

theorem packet_round_trip:
  fixes s :: "('ev, 'z, 'm) Packets_scheme"
  assumes "evp_sync (EVP_Cipher C) (unat (block_size_of (pk_newkeys s MODE_OUT))) rel"
    and "in_step C rel s r0" "can_send payload s" "\<not> pk_send2_rekeying s"
    and "payload \<noteq> []" "length payload \<le> 0x3ff00" "plain_type (hd payload)"
  shows "\<exists>s' sent. packet_send C s = (Inr (), s') \<and> bytes (pk_output s') = bytes (pk_output s) @ sent \<and>
    (\<forall>(r :: ('ev, 'z, 'n) Packets_scheme) rest. in_step C rel s r \<and> can_receive r \<and> bytes (pk_input r) = sent @ rest \<longrightarrow>
      (\<exists>r'. packet_read_poll2 C r = (Inr (hd payload, ps_seqnr (pk_p_read r)), r') \<and>
        bytes (pk_incoming_packet r') = tl payload \<and> bytes (pk_input r') = rest \<and> in_step C rel s' r'))"
proof -
  obtain s' sent where w: "packet_send2_wrapped C s = (Inr (), s')" "bytes (pk_output s') = bytes (pk_output s) @ sent"
    "\<forall>(r :: ('ev, 'z, 'n) Packets_scheme) rest. in_step C rel s r \<and> can_receive r \<and> bytes (pk_input r) = sent @ rest \<longrightarrow>
      (\<exists>r'. packet_read_poll2 C r = (Inr (hd payload, ps_seqnr (pk_p_read r)), r') \<and>
        bytes (pk_incoming_packet r') = tl payload \<and> bytes (pk_input r') = rest \<and> in_step C rel s' r')"
    using wrapped_round_trip [OF assms(1-3,5-7)] by (elim exE conjE) (rule that)
  have "packet_send C s = (Inr (), s')"
    using packet_send_plain [OF _ _ assms(5,4) _ _ w(1)] assms(3,7)
    by (auto simp: can_send_def plain_type_def dest: room_inv)
  with w(2,3) show ?thesis by (intro exI conjI)
qed

theorem packet_round_trip_witness:
  "\<exists>b s' sent. in_step example_crypto ctr_ready (example_conn b) (example_conn b) \<and> can_send [94, 7] (example_conn b) \<and>
     packet_send example_crypto (example_conn b) = (Inr (), s') \<and> bytes (pk_output s') = sent"
proof -
  obtain b where b: "can_send [94, 7] (example_conn b)" using example_can_send ..
  have "\<not> pk_send2_rekeying (example_conn b)" "plain_type (hd [94, 7])"
    by (simp_all add: example_conn_def plain_type_def msg_consts)
  from packet_round_trip [OF example_sync example_in_step b this(1) _ _ this(2)]
  obtain s' sent where "packet_send example_crypto (example_conn b) = (Inr (), s')" by auto
  then show ?thesis using b example_in_step by blast
qed

end
