(* ===== verification/Packet_Rekey.thy ===== *)
theory Packet_Rekey
  imports Packet Packet_Props
begin

text \<open>
  Key exchange and the queue of outgoing packets: while keys are exchanged only transport messages leave, all
  others wait in \<open>outgoing\<close>; the \<open>NEWKEYS\<close> message releases them. The queue is empty whenever no exchange is
  going on, in every state the operations of the packet layer reach.
\<close>

section \<open>What the operations leave alone\<close>

definition queue_of :: "('ev, 'z, 'm) Packets_scheme \<Rightarrow> (byte \<times> Buffer) list \<times> bool" where
  "queue_of s = (pk_outgoing s, pk_send2_rekeying s)"

definition seq_of :: "('ev, 'z, 'm) Packets_scheme \<Rightarrow> u32" where
  "seq_of s = ps_seqnr (pk_p_send s)"

lemmas view_simps = queue_of_def seq_of_def packet_set_state_def packet_get_state_def Let_def

lemma keeps_init_compression [frame_intros]:
  "keeps queue_of packet_init_compression" "keeps seq_of packet_init_compression"
  unfolding packet_init_compression_def by (intro frame_intros; simp add: view_simps)+

lemma keeps_compress_init [frame_intros]:
  "keeps queue_of (buffer_compress_init_send C l)" "keeps seq_of (buffer_compress_init_send C l)"
  "keeps queue_of (buffer_compress_init_recv C)" "keeps seq_of (buffer_compress_init_recv C)"
  unfolding buffer_compress_init_send_def buffer_compress_init_recv_def
  by (intro frame_intros; simp add: view_simps)+

lemma keeps_put_newkeys [frame_intros]:
  "keeps queue_of (put_newkeys mode nk)" "keeps seq_of (put_newkeys mode nk)"
  unfolding put_newkeys_def by (intro frame_intros; simp add: view_simps)+

lemma keeps_start_comp [frame_intros]:
  "keeps queue_of (start_comp C mode nk)" "keeps seq_of (start_comp C mode nk)"
  unfolding start_comp_def by (intro frame_intros)+

lemma keeps_set_newkeys [frame_intros]:
  "keeps queue_of (set_newkeys C mode)" "keeps seq_of (set_newkeys C mode)"
  unfolding set_newkeys_def use_newkeys_def kex_get_newkeys_def Let_def
  by (intro frame_intros; simp add: view_simps split: kex_mode.split)+

lemma keeps_delayed_compress [frame_intros]:
  "keeps queue_of (packet_enable_delayed_compress C)" "keeps seq_of (packet_enable_delayed_compress C)"
  unfolding packet_enable_delayed_compress_def delayed_compress_def
  by (intro frame_intros; simp add: view_simps)+

lemma keeps_buffer_compress [frame_intros]:
  "keeps queue_of (buffer_compress C)" "keeps seq_of (buffer_compress C)"
  "keeps queue_of (buffer_uncompress C)" "keeps seq_of (buffer_uncompress C)"
  unfolding buffer_compress_def buffer_uncompress_def by (intro frame_intros; simp add: view_simps)+

lemma keeps_send_stages [frame_intros]:
  "keeps queue_of (packet_compress C)" "keeps seq_of (packet_compress C)"
  "keeps queue_of (add_padding C he bs)" "keeps seq_of (add_padding C he bs)"
  "keeps queue_of (put_header p)" "keeps seq_of (put_header p)"
  "keeps queue_of (encrypt_packet C)" "keeps seq_of (encrypt_packet C)"
  unfolding packet_compress_def add_padding_def put_header_def encrypt_packet_def Let_def
  by (intro frame_intros; simp add: view_simps)+

lemma keeps_count [frame_intros]: "keeps queue_of (count_packet mode bs len)"
  unfolding count_packet_def Let_def by (intro frame_intros) (simp_all add: view_simps)

lemma count_seq: "moves seq_of (\<lambda>n. n + 1) (count_packet MODE_OUT bs len)"
  by (auto simp: moves_def count_packet_def run_simps view_simps split: if_splits)

lemma wrapped_queue [frame_intros]: "keeps queue_of (packet_send2_wrapped C)"
  unfolding packet_send2_wrapped_def seal_packet_def Let_def by (intro frame_intros) (simp_all add: view_simps)

lemma seal_seq: "moves seq_of (\<lambda>n. n + 1) (seal_packet C)"
  unfolding seal_packet_def
  by (intro frame_intros moves_after moves_then [OF count_seq]) (simp_all add: view_simps)

lemma wrapped_seq: "moves seq_of (\<lambda>n. n + 1) (packet_send2_wrapped C)"
  unfolding packet_send2_wrapped_def by (intro moves_then [OF seal_seq] frame_intros)

lemma throws_disconnect: "throws (packet_disconnect C msg)"
  unfolding packet_disconnect_def Let_def by (auto intro!: throws_bind throws_raise)

lemmas keeps_disconnect [frame_intros] = throws_moves [OF throws_disconnect]

lemma keeps_receive_stages [frame_intros]:
  "keeps queue_of (decrypt_input C n)" "keeps queue_of (read_first_block C bs)" "keeps queue_of (check_mac C nk)"
  "keeps queue_of (strip_packet C)" "keeps queue_of (packet_uncompress C)" "keeps queue_of (take_type C)"
  unfolding decrypt_input_def read_first_block_def check_mac_def strip_packet_def packet_uncompress_def take_type_def Let_def
  by (intro frame_intros; simp add: view_simps)+

lemma poll2_queue [frame_intros]: "keeps queue_of (packet_read_poll2 C)"
  unfolding packet_read_poll2_def read_rest_def Let_def by (intro frame_intros) (simp_all add: view_simps)

lemma poll_once_queue [frame_intros]: "keeps queue_of (poll_once C)"
  unfolding poll_once_def poll_dispatch_def packet_get_char_def packet_get_string_def packet_get_int_def
  by (intro frame_intros) (simp_all add: view_simps)

lemma poll_loop_queue [frame_intros]: "keeps queue_of (poll_loop n C)"
  by (induction n) (auto intro!: frame_intros)

lemma poll_seqnr_queue: "keeps queue_of (packet_read_poll_seqnr C)"
  unfolding packet_read_poll_seqnr_def by (intro frame_intros)

lemma put_queue:
  "keeps queue_of (packet_start type)" "keeps queue_of (packet_put_char c)" "keeps queue_of (packet_put_int n)"
  "keeps queue_of (packet_put_string d)" "keeps queue_of (packet_put_cstring str)" "keeps queue_of (packet_put_raw d)"
  "keeps queue_of (packet_put_bignum2 L v)"
  unfolding packet_start_def packet_put_char_def packet_put_int_def packet_put_string_def packet_put_cstring_def
    packet_put_raw_def packet_put_bignum2_def
  by (intro frame_intros; simp add: view_simps)+

lemma get_queue:
  "keeps queue_of packet_get_char" "keeps queue_of packet_get_int" "keeps queue_of packet_get_string"
  "keeps queue_of packet_get_string_ptr" "keeps queue_of (packet_get_bignum2 L)"
  "keeps queue_of (packet_process_incoming d)" "keeps queue_of packet_write_poll"
  unfolding packet_get_char_def packet_get_int_def packet_get_string_def packet_get_string_ptr_def packet_get_bignum2_def
    packet_process_incoming_def packet_write_poll_def
  by (intro frame_intros; simp add: view_simps split: list.split send_result.split; (intro allI impI conjI frame_intros)?; simp add: view_simps)+

section \<open>The queue\<close>

definition rekey_inv :: "('ev, 'z, 'm) Packets_scheme \<Rightarrow> bool" where
  "rekey_inv s \<longleftrightarrow> (\<not> pk_send2_rekeying s \<longrightarrow> pk_outgoing s = []) \<and>
     (\<forall>(t, b) \<in> set (pk_outgoing s). \<not> transport_type t)"

lemma rekey_inv_queue: "queue_of t = queue_of s \<Longrightarrow> rekey_inv s \<Longrightarrow> rekey_inv t"
  by (simp add: rekey_inv_def queue_of_def)

lemma flush_queue_run:
  assumes "flush_queue n C s = (Inr (), t)"
  shows "pk_outgoing t = [] \<and> pk_send2_rekeying t = pk_send2_rekeying s \<and>
    seq_of t = seq_of s + of_nat (length (pk_outgoing s))"
  using assms
proof (induction n arbitrary: s)
  case (Suc n)
  show ?case
  proof (cases "pk_outgoing s")
    case Nil
    then show ?thesis using Suc.prems by (simp add: run_simps)
  next
    case (Cons a q)
    obtain type b where a: "a = (type, b)" by (cases a)
    let ?s = "s\<lparr>pk_outgoing_packet := b, pk_outgoing := q\<rparr>"
    obtain x u where u: "packet_send2_wrapped C ?s = (Inr x, u)" "flush_queue n C u = (Inr (), t)"
      using Suc.prems Cons a by (auto simp: bindP_Inr getP_def modP_def)
    have "queue_of u = queue_of ?s" "seq_of u = seq_of ?s + 1"
      using movesD [OF wrapped_queue u(1)] movesD [OF wrapped_seq u(1)] by simp_all
    then show ?thesis using Suc.IH [OF u(2)] Cons by (simp add: queue_of_def seq_of_def)
  qed
qed (simp add: raiseP_def)

text \<open>The type of the packet under construction, as \<open>packet_send2\<close> reads it.\<close>

definition packet_type :: "('ev, 'z, 'm) Packets_scheme \<Rightarrow> byte res" where
  "packet_type s = bindR (buffer_peek (pk_outgoing_packet s) 5 1) (\<lambda>d. Inr (d ! 0))"

lemmas send2_unfold = packet_send2_def Let_def bindP_Inr getP_def liftR_def whenP_def modP_def retP_def

lemma send2_cases:
  assumes "packet_send2 C s = (Inr (), t)"
  obtains (held) type where "packet_type s = Inr type" "pk_send2_rekeying s" "\<not> transport_type type"
      "t = s\<lparr>pk_outgoing := pk_outgoing s @ [(type, pk_outgoing_packet s)], pk_outgoing_packet := buffer_init\<rparr>"
  | (newkeys) u where "packet_type s = Inr SSH2_MSG_NEWKEYS" "packet_send2_wrapped C s = (Inr (), u)"
      "flush_queue (Suc (length (pk_outgoing u))) C (u\<lparr>pk_send2_rekeying := False\<rparr>) = (Inr (), t)"
  | (sent) type u where "packet_type s = Inr type" "type \<noteq> SSH2_MSG_NEWKEYS" "transport_type type \<or> \<not> pk_send2_rekeying s"
      "queue_of u = (pk_outgoing s, pk_send2_rekeying s \<or> type = SSH2_MSG_KEXINIT)" "packet_send2_wrapped C u = (Inr (), t)"
      "u = (if type = SSH2_MSG_KEXINIT then s\<lparr>pk_send2_rekeying := True\<rparr> else s)"
proof -
  obtain d where d: "buffer_peek (pk_outgoing_packet s) 5 1 = Inr d"
    using assms by (auto simp: packet_send2_def bindP_Inr getP_def liftR_def)
  let ?t = "d ! 0"
  have pt: "packet_type s = Inr ?t" using d by (simp add: packet_type_def)
  have nk: "SSH2_MSG_NEWKEYS \<noteq> SSH2_MSG_KEXINIT" by (simp add: msg_consts)
  show ?thesis
  proof (cases "pk_send2_rekeying s \<and> \<not> transport_type ?t")
    case True
    then show ?thesis using assms d by (intro held [OF pt]) (simp_all add: packet_send2_def run_simps)
  next
    case out: False
    let ?s = "if ?t = SSH2_MSG_KEXINIT then s\<lparr>pk_send2_rekeying := True\<rparr> else s"
    have q: "queue_of ?s = (pk_outgoing s, pk_send2_rekeying s \<or> ?t = SSH2_MSG_KEXINIT)" by (simp add: queue_of_def)
    obtain u where u: "packet_send2_wrapped C ?s = (Inr (), u)"
      using assms d out by (auto simp: send2_unfold simp del: flush_queue.simps split: if_splits)
    show ?thesis
    proof (cases "?t = SSH2_MSG_NEWKEYS")
      case True
      then show ?thesis using assms d out u nk
        by (intro newkeys [of u]) (auto simp: pt send2_unfold simp del: flush_queue.simps)
    next
      case False
      have "u = t" using assms d out u False
        by (auto simp: send2_unfold simp del: flush_queue.simps split: if_splits)
      then show ?thesis using u out q False by (intro sent [OF pt, of ?s]) auto
    qed
  qed
qed

lemma send_rekey_inv:
  assumes "packet_send C s = (Inr (), t)" "rekey_inv s"
  shows "rekey_inv t"
proof -
  have "packet_send2 C s = (Inr (), t)" using assms(1) by (simp add: packet_send_def)
  then show ?thesis
  proof (cases rule: send2_cases)
    case (held type)
    then show ?thesis using assms(2) by (auto simp: rekey_inv_def)
  next
    case (newkeys u)
    then show ?thesis using flush_queue_run [OF newkeys(3)] by (simp add: rekey_inv_def)
  next
    case (sent type u)
    have "queue_of t = (pk_outgoing s, pk_send2_rekeying s \<or> type = SSH2_MSG_KEXINIT)"
      using movesD [OF wrapped_queue sent(5)] sent(4) by simp
    then show ?thesis using assms(2) by (auto simp: rekey_inv_def queue_of_def)
  qed
qed

section \<open>Runs of the packet layer\<close>

text \<open>A connection steps by a call of one of the operations that returns.\<close>

inductive conn_step :: "('ev, 'z) crypto \<Rightarrow> ('ev, 'z, 'm) Packets_scheme \<Rightarrow> ('ev, 'z, 'm) Packets_scheme \<Rightarrow> bool"
  for C where
  start: "packet_start type s = (Inr (), t) \<Longrightarrow> conn_step C s t"
| put_char: "packet_put_char c s = (Inr (), t) \<Longrightarrow> conn_step C s t"
| put_int: "packet_put_int n s = (Inr (), t) \<Longrightarrow> conn_step C s t"
| put_string: "packet_put_string d s = (Inr (), t) \<Longrightarrow> conn_step C s t"
| put_raw: "packet_put_raw d s = (Inr (), t) \<Longrightarrow> conn_step C s t"
| put_bignum2: "packet_put_bignum2 L v s = (Inr (), t) \<Longrightarrow> conn_step C s t"
| send: "packet_send C s = (Inr (), t) \<Longrightarrow> conn_step C s t"
| write_poll: "packet_write_poll s = (Inr (), t) \<Longrightarrow> conn_step C s t"
| incoming: "packet_process_incoming d s = (Inr (), t) \<Longrightarrow> conn_step C s t"
| read: "packet_read_poll_seqnr C s = (Inr x, t) \<Longrightarrow> conn_step C s t"
| get_char: "packet_get_char s = (Inr c, t) \<Longrightarrow> conn_step C s t"
| get_int: "packet_get_int s = (Inr n, t) \<Longrightarrow> conn_step C s t"
| get_string: "packet_get_string s = (Inr d, t) \<Longrightarrow> conn_step C s t"
| get_bignum2: "packet_get_bignum2 L s = (Inr v, t) \<Longrightarrow> conn_step C s t"

inductive conn_reach :: "('ev, 'z) crypto \<Rightarrow> ('ev, 'z, 'm) Packets_scheme \<Rightarrow> bool" for C where
  new: "CoreConnection_new C raw = (Inr (), s) \<Longrightarrow> conn_reach C s"
| step: "conn_reach C s \<Longrightarrow> conn_step C s t \<Longrightarrow> conn_reach C t"

lemma conn_step_queue:
  assumes "conn_step C s t"
  shows "packet_send C s = (Inr (), t) \<or> queue_of t = queue_of s"
  using assms
  by (cases rule: conn_step.cases)
    (auto dest: put_queue [THEN movesD] get_queue [THEN movesD] poll_seqnr_queue [THEN movesD])

lemma new_rekey_inv: "CoreConnection_new C raw = (Inr (), s) \<Longrightarrow> rekey_inv s"
  by (auto simp: CoreConnection_new_def packet_set_connection_def bindP_Inr liftR_def modP_def raiseP_def rekey_inv_def Let_def
      split: option.splits)

section \<open>Properties: key exchange\<close>

text \<open>C13: In every state a connection reaches by calls of the packet layer that return, the queue of packets held
  back is empty unless keys are being exchanged, and holds no transport message.\<close>

theorem rekey_queue_invariant:
  assumes "conn_reach C s"
  shows "rekey_inv s"
  using assms
proof (induction rule: conn_reach.induct)
  case (new raw s)
  then show ?case by (rule new_rekey_inv)
next
  case (step s t)
  then show ?case using conn_step_queue [OF step(2)] send_rekey_inv rekey_inv_queue by blast
qed

theorem rekey_queue_invariant_witness:
  "\<exists>s. CoreConnection_new example_crypto (example_conn buffer_init) = (Inr (), s) \<and> rekey_inv s"
proof -
  obtain s where s: "CoreConnection_new example_crypto (example_conn buffer_init) = (Inr (), s)"
    by (simp add: CoreConnection_new_def packet_set_connection_def cipher_by_name_def ciphers_def mk_Cipher_def cipher_init_def
        guardR_def someR_def example_crypto_def run_simps Let_def)
  then have "conn_reach example_crypto s" by (rule conn_reach.new)
  then have "rekey_inv s" by (rule rekey_queue_invariant)
  with s show ?thesis by blast
qed




lemma example_set_newkeys:
  assumes "pk_current_keys s = (\<lambda>_. Some example_keys)"
  shows "\<exists>t. set_newkeys example_crypto MODE_OUT s = (Inr (), t) \<and> queue_of t = queue_of s"
proof -
  have "\<exists>t. set_newkeys example_crypto MODE_OUT s = (Inr (), t)"
    using assms
    by (simp add: set_newkeys_def use_newkeys_def kex_get_newkeys_def put_newkeys_def run_simps example_keys_def mac_init_def mac_zero_def
        cipher_init_def guardR_def someR_def example_cipher_def mk_Cipher_def example_crypto_def SSH_CIPHER_SSH2_def SSH_CIPHER_DES_def Let_def)
  then show ?thesis using movesD [OF keeps_set_newkeys(1)] by blast
qed


end
