(* ===== verification/Packet_Safe.thy ===== *)
theory Packet_Safe
  imports Packet Packet_Props Packet_Rekey
begin

text \<open>
  Receiving packets from an arbitrary peer: the loop that skips the messages the packet layer handles itself ends
  on every input, since each packet takes bytes of it, and a packet is delivered only if its
  authentication code is right.
\<close>

section \<open>What the stages do to the input\<close>

definition inp_of :: "('ev, 'z, 'm) Packets_scheme \<Rightarrow> Buffer \<times> u32" where
  "inp_of s = (pk_input s, pk_poll2_packet_length s)"

definition read_seq :: "('ev, 'z, 'm) Packets_scheme \<Rightarrow> u32" where
  "read_seq s = ps_seqnr (pk_p_read s)"

lemmas inp_simps = inp_of_def read_seq_def packet_set_state_def packet_get_state_def Let_def

lemma inp_compression [frame_intros]:
  "keeps inp_of packet_init_compression" "keeps read_seq packet_init_compression"
  "keeps inp_of (buffer_compress_init_send C l)" "keeps read_seq (buffer_compress_init_send C l)"
  "keeps inp_of (buffer_compress_init_recv C)" "keeps read_seq (buffer_compress_init_recv C)"
  "keeps inp_of (buffer_uncompress C)" "keeps read_seq (buffer_uncompress C)"
  "keeps pk_incoming_packet packet_init_compression" "keeps pk_incoming_packet (buffer_compress_init_send C l)"
  "keeps pk_incoming_packet (buffer_compress_init_recv C)"
  unfolding packet_init_compression_def buffer_compress_init_send_def buffer_compress_init_recv_def buffer_uncompress_def
  by (intro frame_intros; simp add: inp_simps)+

lemma inp_put_newkeys [frame_intros]:
  "keeps inp_of (put_newkeys mode nk)" "keeps read_seq (put_newkeys mode nk)"
  "keeps pk_incoming_packet (put_newkeys mode nk)"
  unfolding put_newkeys_def by (intro frame_intros; simp add: inp_simps)+

lemma inp_start_comp [frame_intros]: "keeps inp_of (start_comp C mode nk)" "keeps read_seq (start_comp C mode nk)"
  "keeps pk_incoming_packet (start_comp C mode nk)"
  unfolding start_comp_def by (intro frame_intros)+

lemma inp_set_newkeys [frame_intros]: "keeps inp_of (set_newkeys C mode)" "keeps read_seq (set_newkeys C mode)"
  "keeps pk_incoming_packet (set_newkeys C mode)"
  unfolding set_newkeys_def use_newkeys_def kex_get_newkeys_def Let_def
  by (intro frame_intros; simp add: inp_simps split: kex_mode.split)+

lemma inp_delayed [frame_intros]:
  "keeps inp_of (packet_enable_delayed_compress C)" "keeps read_seq (packet_enable_delayed_compress C)"
  "keeps pk_incoming_packet (packet_enable_delayed_compress C)"
  unfolding packet_enable_delayed_compress_def delayed_compress_def by (intro frame_intros; simp add: inp_simps)+

lemma inp_stages [frame_intros]:
  "keeps inp_of (decrypt_input C n)" "keeps read_seq (decrypt_input C n)" "keeps inp_of (strip_packet C)"
  "keeps read_seq (strip_packet C)"
  "keeps inp_of (packet_uncompress C)" "keeps read_seq (packet_uncompress C)"
  unfolding decrypt_input_def strip_packet_def packet_uncompress_def
  by (intro frame_intros; simp add: inp_simps)+

lemma inp_count [frame_intros]:
  "keeps inp_of (count_packet mode bs len)" "keeps pk_incoming_packet (count_packet mode bs len)"
  unfolding count_packet_def Let_def by (intro frame_intros; simp add: inp_simps split: kex_mode.split)+

text \<open>Readers of the incoming packet.\<close>

lemma inp_gets [frame_intros]:
  "keeps inp_of packet_get_char" "keeps inp_of packet_get_int" "keeps inp_of packet_get_string"
  unfolding packet_get_char_def packet_get_int_def packet_get_string_def by (intro frame_intros; simp add: inp_simps)+

section \<open>Every packet takes input\<close>

lemma disconnect_not_Inr: "packet_disconnect C msg s \<noteq> (Inr x, t)"
  using throws_disconnect [of C msg] unfolding throws_def by (metis prod.inject sum.distinct(1))

lemma when_disconnect: "whenP c (packet_disconnect C msg) s = (Inr u, t) \<longleftrightarrow> \<not> c \<and> t = s"
  by (cases c) (auto simp: whenP_def retP_def disconnect_not_Inr)

lemma set_Inr: "setR sel upd f s = (Inr u, t) \<longleftrightarrow> (\<exists>p. f (sel s) = Inr p \<and> t = upd p s)"
  by (auto simp: setR_def split: sum.splits)

lemma upd_Inr: "updR sel upd f s = (Inr x, t) \<longleftrightarrow> (\<exists>p. f (sel s) = Inr (x, p) \<and> t = upd p s)"
  by (auto simp: updR_def split: sum.splits)

lemmas steps_Inr = bindP_Inr set_Inr upd_Inr when_disconnect

text \<open>Decryption keeps the buffer of the incoming packet well formed.\<close>

lemma decrypt_inv:
  assumes "buffer_inv (pk_incoming_packet s)" "decrypt_input C n s = (Inr (), t)"
  shows "buffer_inv (pk_incoming_packet t)"
proof -
  obtain p b d c where sp: "buffer_append_space (pk_incoming_packet s) n = Inr (p, b)"
    and f: "buffer_fill p d b = Inr c" and t: "pk_incoming_packet t = c"
    using assms(2) by (auto simp: decrypt_input_def steps_Inr getP_def liftR_def)
  have l: "unat n \<le> 0x100000"
    using sp by (simp add: buffer_append_space_def buffer_consts word_less_nat_alt split: if_splits)
  have "space_for (pk_incoming_packet s) n (p, b)"
  proof (rule append_space_spec [OF assms(1) l])
    fix ok
    assume "ok \<Longrightarrow> \<exists>r. buffer_append_space (pk_incoming_packet s) n = Inr r \<and> space_for (pk_incoming_packet s) n r"
      and "\<not> ok \<Longrightarrow> buffer_append_space (pk_incoming_packet s) n = Inl (Fatal ''buffer_append_space: alloc'')"
    then show ?thesis using sp by (cases ok) simp_all
  qed
  then have "buffer_inv b" by (simp add: space_for_def)
  then have "buffer_inv c" using f by (auto simp: buffer_fill_def bindR_eq_Inr mem_write_eq_Inr buffer_inv_nat)
  then show ?thesis using t by simp
qed

lemma first_block_run:
  assumes "buffer_inv (pk_input s)" "read_first_block C bs s = (Inr started, t)"
  shows "pk_poll2_packet_length s \<noteq> 0 \<or> \<not> started \<Longrightarrow> t = s"
    and "pk_poll2_packet_length s = 0 \<Longrightarrow> started \<Longrightarrow> buffer_inv (pk_input t) \<and>
      unat bs \<le> length (bytes (pk_input s)) \<and> bytes (pk_input t) = drop (unat bs) (bytes (pk_input s))"
    and "read_seq t = read_seq s" and "buffer_inv (pk_incoming_packet s) \<Longrightarrow> buffer_inv (pk_incoming_packet t)"
proof -
  show stay: "t = s" if "pk_poll2_packet_length s \<noteq> 0 \<or> \<not> started"
    using assms(2) that by (auto simp: read_first_block_def bindP_Inr getP_def retP_def split: if_splits)
  let ?s = "s\<lparr>pk_incoming_packet := buffer_clear (pk_incoming_packet s)\<rparr>"
  have read: "\<exists>u. decrypt_input C bs ?s = (Inr (), u) \<and> buffer_consume (pk_input s) bs = Inr (pk_input t) \<and>
      pk_incoming_packet t = pk_incoming_packet u \<and> read_seq t = read_seq s"
    if z: "pk_poll2_packet_length s = 0" "started"
  proof -
    obtain u where u: "decrypt_input C bs ?s = (Inr (), u)" "buffer_consume (pk_input u) bs = Inr (pk_input t)"
      "pk_incoming_packet t = pk_incoming_packet u" "read_seq t = read_seq u"
      using assms(2) z
      by (auto simp: read_first_block_def steps_Inr getP_def retP_def modP_def bindR_eq_Inr read_seq_def split: if_splits)
    then show ?thesis
      using movesD [OF inp_stages(1) u(1)] movesD [OF inp_stages(2) u(1)] by (simp add: inp_of_def read_seq_def)
  qed
  show "buffer_inv (pk_input t) \<and>
      unat bs \<le> length (bytes (pk_input s)) \<and> bytes (pk_input t) = drop (unat bs) (bytes (pk_input s))"
    if "pk_poll2_packet_length s = 0" "started"
    using read [OF that] consume_inv [OF assms(1)] by blast
  show "read_seq t = read_seq s" using stay read by blast
  show "buffer_inv (pk_incoming_packet t)" if "buffer_inv (pk_incoming_packet s)"
  proof (cases "pk_poll2_packet_length s = 0 \<and> started")
    case True
    have "buffer_inv (pk_incoming_packet ?s)" using that by (simp add: buffer_clear_inv)
    then show ?thesis using read True decrypt_inv by metis
  qed (use stay that in blast)
qed

lemma check_mac_inp:
  assumes "buffer_inv (pk_input s)" "check_mac C nk s = (Inr (), t)"
  shows "\<exists>b. t = s\<lparr>pk_input := b\<rparr> \<and> buffer_inv b \<and> bytes b = drop (unat (maclen_of nk)) (bytes (pk_input s)) \<and>
    (buffer_inv (pk_incoming_packet s) \<longrightarrow> mac_bytes C nk (read_seq s) (bytes (pk_incoming_packet s)) =
      Inr (take (unat (maclen_of nk)) (bytes (pk_input s))))"
proof (cases "mac_on nk")
  case False
  then have "t = s" "maclen_of nk = 0" "\<And>n d. mac_bytes C nk n d = Inr []" using assms(2)
    by (auto simp: check_mac_def mac_on_def maclen_of_def mac_bytes_def whenP_def retP_def split: option.splits)
  then show ?thesis using assms(1) by (intro exI [of _ "pk_input s"]) simp
next
  case True
  then obtain k where k: "nk = Some k" "mac_enabled (nk_mac k)" by (auto simp: mac_on_def split: option.splits)
  let ?n = "unat (mac_len (nk_mac k))"
  obtain d b where m: "packet_mac C nk (read_seq s) (pk_incoming_packet s) = Inr d"
    and p: "buffer_peek (pk_input s) 0 ?n = Inr d"
    and c: "buffer_consume (pk_input s) (mac_len (nk_mac k)) = Inr b" "t = s\<lparr>pk_input := b\<rparr>"
    using assms(2) k by (auto simp: check_mac_def whenP_def [of True] steps_Inr getP_def liftR_def read_seq_def)
  have b: "buffer_inv b" "?n \<le> length (bytes (pk_input s))" "bytes b = drop ?n (bytes (pk_input s))"
    using consume_inv [OF assms(1) c(1)] by simp_all
  have "d = take ?n (bytes (pk_input s))" using buffer_peek_ok [OF assms(1), of 0 ?n] b(2) p by simp
  moreover have "buffer_inv (pk_incoming_packet s) \<longrightarrow> mac_bytes C nk (read_seq s) (bytes (pk_incoming_packet s)) = Inr d"
    using m packet_mac_bytes by metis
  ultimately show ?thesis using b c(2) k by (intro exI [of _ b]) (simp add: maclen_of_def)
qed

lemma strip_packet_inp:
  assumes "buffer_inv (pk_incoming_packet s)" "strip_packet C s = (Inr (), t)"
  shows "\<exists>h pad b. t = s\<lparr>pk_incoming_packet := b\<rparr> \<and> buffer_inv b \<and> length h = 5 \<and> unat (h ! 4) = length pad \<and>
    bytes (pk_incoming_packet s) = h @ bytes b @ pad"
proof -
  let ?p = "pk_incoming_packet s"
  obtain d b c where d: "buffer_peek ?p 4 1 = Inr d" and b: "buffer_consume ?p 5 = Inr b"
    and c: "buffer_consume_end b (ucast (d ! 0)) = Inr c" and t: "t = s\<lparr>pk_incoming_packet := c\<rparr>"
    using assms(2) by (auto simp: strip_packet_def steps_Inr bindR_eq_Inr)
  have inv: "buffer_inv b" and len: "5 \<le> length (bytes ?p)" and drop: "bytes b = drop 5 (bytes ?p)"
    using consume_inv [OF assms(1) b] by simp_all
  let ?n = "unat (d ! 0)"
  have cut: "buffer_inv c" "?n \<le> length (bytes b)" "bytes c = take (length (bytes b) - ?n) (bytes b)"
    using consume_end_inv [OF inv c] by (simp_all add: unat_ucast_word)
  have "d ! 0 = take 5 (bytes ?p) ! 4" using buffer_peek_ok [OF assms(1), of 4 1] len d by auto
  moreover have "bytes ?p = take 5 (bytes ?p) @ bytes c @ drop (length (bytes b) - ?n) (bytes b)"
    using cut(3) drop by (metis append_take_drop_id)
  moreover have "length (drop (length (bytes b) - ?n) (bytes b)) = ?n" using cut(2) by simp
  ultimately show ?thesis using t cut(1) len
    by (intro exI [of _ "take 5 (bytes ?p)"] exI [of _ "drop (length (bytes b) - ?n) (bytes b)"] exI [of _ c]) simp
qed

lemma take_type_inp:
  assumes "take_type C s = (Inr ty, t)"
  shows "pk_input t = pk_input s" "pk_poll2_packet_length t = 0" "read_seq t = read_seq s"
    "buffer_inv (pk_incoming_packet s) \<Longrightarrow> bytes (pk_incoming_packet s) = ty # bytes (pk_incoming_packet t)"
proof -
  obtain b u m where b: "buffer_get_char (pk_incoming_packet s) = Inr (ty, b)"
    and u: "m (s\<lparr>pk_incoming_packet := b\<rparr>) = (Inr (), u)" "t = u\<lparr>pk_poll2_packet_length := 0\<rparr>"
    and m: "m = (if ty = SSH2_MSG_NEWKEYS then set_newkeys C MODE_IN
      else whenP (ty = SSH2_MSG_USERAUTH_SUCCESS \<and> \<not> server_side) (packet_enable_delayed_compress C))"
    using assms by (auto simp: take_type_def steps_Inr modP_def retP_def)
  have "keeps inp_of m" "keeps read_seq m" "keeps pk_incoming_packet m"
    unfolding m by (intro frame_intros)+
  from this [THEN movesD, OF u(1)]
  have k: "pk_input u = pk_input s" "read_seq u = read_seq s" "pk_incoming_packet u = b"
    by (simp_all add: inp_of_def read_seq_def)
  show "bytes (pk_incoming_packet s) = ty # bytes (pk_incoming_packet t)" if "buffer_inv (pk_incoming_packet s)"
    using wchar.get_Inr [OF that b] k u(2) by simp
  show "pk_input t = pk_input s" "pk_poll2_packet_length t = 0" "read_seq t = read_seq s"
    using k u(2) by (simp_all add: read_seq_def)
qed

text \<open>What is left of the incoming packet once it is complete: with compression it is the expansion of
  the payload, and without it the payload itself.\<close>

lemma count_read_seq: "moves read_seq (\<lambda>n. n + 1) (count_packet MODE_IN bs len)"
  by (auto simp: moves_def count_packet_def steps_Inr getP_def modP_def raiseP_def inp_simps split: if_splits)

lemma read_rest_inp:
  assumes "buffer_inv (pk_input s)" "read_rest C nk need len s = (Inr ty, t)"
  shows "buffer_inv (pk_incoming_packet s) \<Longrightarrow> \<exists>d.
      mac_bytes C nk (read_seq s) d = Inr (take (unat (maclen_of nk)) (drop (unat need) (bytes (pk_input s)))) \<and>
      (comp_on nk \<or> (\<exists>h pad. length h = 5 \<and> unat (h ! 4) = length pad \<and>
         d = h @ ty # bytes (pk_incoming_packet t) @ pad))"
    "buffer_inv (pk_input t)" "bytes (pk_input t) = drop (unat need + unat (maclen_of nk)) (bytes (pk_input s))"
    "pk_poll2_packet_length t = 0" "read_seq t = read_seq s + 1"
proof -
  obtain u b v w x y where u: "decrypt_input C need s = (Inr (), u)" and b: "buffer_consume (pk_input u) need = Inr b"
    and v: "check_mac C nk (u\<lparr>pk_input := b\<rparr>) = (Inr (), v)"
    and w: "count_packet MODE_IN (block_size_of nk) len v = (Inr (), w)"
    and x: "strip_packet C w = (Inr (), x)" and y: "whenP (comp_on nk) (packet_uncompress C) x = (Inr (), y)"
    and t: "take_type C y = (Inr ty, t)"
    using assms(2) by (auto simp: read_rest_def bindP_Inr set_Inr)
  have inp: "pk_input u = pk_input s" "read_seq u = read_seq s"
    using movesD [OF inp_stages(1) u] movesD [OF inp_stages(2) u] by (simp_all add: inp_of_def)
  have b': "buffer_inv b" "bytes b = drop (unat need) (bytes (pk_input s))"
    using consume_inv [of "pk_input s" need b] b inp(1) assms(1) by auto
  have ub: "buffer_inv (pk_input (u\<lparr>pk_input := b\<rparr>))" using b'(1) by simp
  obtain c where c: "v = u\<lparr>pk_input := c\<rparr>" "buffer_inv c" "bytes c = drop (unat (maclen_of nk)) (bytes b)"
    and mac: "buffer_inv (pk_incoming_packet u) \<Longrightarrow>
      mac_bytes C nk (read_seq s) (bytes (pk_incoming_packet u)) = Inr (take (unat (maclen_of nk)) (bytes b))"
    using check_mac_inp [OF ub v] inp(2) by (auto simp: read_seq_def)
  have cnt: "inp_of w = inp_of v" "pk_incoming_packet w = pk_incoming_packet v" "read_seq w = read_seq v + 1"
    using movesD [OF inp_count(1) w] movesD [OF inp_count(2) w] movesD [OF count_read_seq w] by simp_all
  have "keeps inp_of (whenP (comp_on nk) (packet_uncompress C))" "keeps read_seq (whenP (comp_on nk) (packet_uncompress C))"
    by (intro frame_intros)+
  from this [THEN movesD, OF y] movesD [OF inp_stages(3) x] movesD [OF inp_stages(4) x] cnt c(1) inp(2)
  have fin: "pk_input y = c" "read_seq y = read_seq s + 1" by (simp_all add: inp_of_def read_seq_def)
  show "buffer_inv (pk_input t)" "pk_poll2_packet_length t = 0" "read_seq t = read_seq s + 1"
    "bytes (pk_input t) = drop (unat need + unat (maclen_of nk)) (bytes (pk_input s))"
    using take_type_inp(1-3) [OF t] fin c(2,3) b'(2) by (simp_all add: add.commute)
  assume inv: "buffer_inv (pk_incoming_packet s)"
  have inc: "buffer_inv (pk_incoming_packet u)" using inv u by (rule decrypt_inv)
  have "\<exists>h pad. length h = 5 \<and> unat (h ! 4) = length pad \<and>
      bytes (pk_incoming_packet u) = h @ ty # bytes (pk_incoming_packet t) @ pad" if "\<not> comp_on nk"
  proof -
    have w': "pk_incoming_packet w = pk_incoming_packet u" using cnt(2) c(1) by simp
    have "y = x" using y that by (simp add: whenP_def retP_def)
    then show ?thesis using strip_packet_inp [OF _ x] take_type_inp(4) [OF t] w' inc by auto
  qed
  then show "\<exists>d. mac_bytes C nk (read_seq s) d =
        Inr (take (unat (maclen_of nk)) (drop (unat need) (bytes (pk_input s)))) \<and>
      (comp_on nk \<or> (\<exists>h pad. length h = 5 \<and> unat (h ! 4) = length pad \<and>
        d = h @ ty # bytes (pk_incoming_packet t) @ pad))"
    using mac [OF inc] b'(2) by metis
qed

section \<open>Receiving ends\<close>

text \<open>The bytes still to be read, and one more when the first block of a packet was read already.\<close>

definition unread :: "('ev, 'z, 'm) Packets_scheme \<Rightarrow> nat" where
  "unread s = length (bytes (pk_input s)) + (if pk_poll2_packet_length s = 0 then 0 else 1)"

lemma poll2_cases:
  assumes "packet_read_poll2 C s = (Inr (ty, sq), t)" "ty \<noteq> SSH_MSG_NONE"
  obtains u where "read_first_block C (block_size_of (pk_newkeys s MODE_IN)) s = (Inr True, u)"
      "sq = read_seq u" "block_size_of (pk_newkeys s MODE_IN) \<noteq> 0"
      "read_rest C (pk_newkeys s MODE_IN) (4 + pk_poll2_packet_length u - block_size_of (pk_newkeys s MODE_IN))
         (pk_poll2_packet_length u) u = (Inr ty, t)"
  using assms
  by (auto simp: packet_read_poll2_def Let_def bindP_Inr getP_def retP_def liftR_def when_disconnect modR_eq
      read_seq_def split: if_splits)

lemma poll2_unread:
  assumes "buffer_inv (pk_input s)" "packet_read_poll2 C s = (Inr (ty, sq), t)" "ty \<noteq> SSH_MSG_NONE"
  shows "buffer_inv (pk_input t) \<and> unread t < unread s"
proof -
  let ?bs = "block_size_of (pk_newkeys s MODE_IN)"
  obtain u where u: "read_first_block C ?bs s = (Inr True, u)" "?bs \<noteq> 0"
    and t: "read_rest C (pk_newkeys s MODE_IN) (4 + pk_poll2_packet_length u - ?bs) (pk_poll2_packet_length u) u = (Inr ty, t)"
    using assms(2,3) by (rule poll2_cases)
  note first = first_block_run [OF assms(1) u(1)]
  have bs: "0 < unat ?bs" using u(2) by (simp add: unat_gt_0)
  have inv: "buffer_inv (pk_input u)"
    and len: "length (bytes (pk_input u)) + (if pk_poll2_packet_length s = 0 then unat ?bs else 0) = length (bytes (pk_input s))"
    using first(1,2) assms(1) by (cases "pk_poll2_packet_length s = 0"; simp)+
  note rest = read_rest_inp(2-4) [OF inv t]
  then have "length (bytes (pk_input t)) \<le> length (bytes (pk_input u))" by simp
  then show ?thesis using rest bs len by (auto simp: unread_def split: if_splits)
qed

text \<open>One more round of the loop.\<close>

definition poll_again :: "('ev, 'z) crypto \<Rightarrow> ('ev, 'z, 'm) Packets_scheme \<Rightarrow> ('ev, 'z, 'm) Packets_scheme \<Rightarrow> bool" where
  "poll_again C s t \<longleftrightarrow> poll_once C s = (Inr None, t)"

lemma unread_inp: "inp_of t = inp_of s \<Longrightarrow> unread t = unread s \<and> buffer_inv (pk_input t) = buffer_inv (pk_input s)"
  by (simp add: unread_def inp_of_def)

lemma inp_dispatch: "keeps inp_of (poll_dispatch ty sq)"
  unfolding poll_dispatch_def by (intro frame_intros) (simp add: inp_of_def)

lemma dispatch_none: "poll_dispatch SSH_MSG_NONE sq s = (Inr (Some (SSH_MSG_NONE, sq)), s)"
  by (simp add: poll_dispatch_def run_simps msg_consts)

lemma poll_again_unread:
  assumes "buffer_inv (pk_input s)" "poll_again C s t"
  shows "buffer_inv (pk_input t) \<and> unread t < unread s"
proof -
  obtain ty sq u where p: "packet_read_poll2 C s = (Inr (ty, sq), u)" and d: "poll_dispatch ty sq u = (Inr None, t)"
    using assms(2) by (auto simp: poll_again_def poll_once_def bindP_Inr)
  have "ty \<noteq> SSH_MSG_NONE" using d by (auto simp: dispatch_none)
  then show ?thesis
    using poll2_unread [OF assms(1) p] unread_inp [OF movesD [OF inp_dispatch d]] by metis
qed

lemma poll_loop_rounds:
  assumes "buffer_inv (pk_input s)" "unread s < n"
  shows "\<exists>m t. m \<le> unread s \<and> (poll_again C ^^ m) s t \<and> (\<nexists>u. poll_again C t u) \<and>
    poll_loop n C s = bindP (poll_once C) (\<lambda>r. retP (the r)) t"
  using assms
proof (induction n arbitrary: s)
  case (Suc n)
  show ?case
  proof (cases "\<exists>u. poll_again C s u")
    case True
    then obtain u where u: "poll_again C s u" by blast
    have lt: "buffer_inv (pk_input u)" "unread u < unread s" using poll_again_unread [OF Suc.prems(1) u] by auto
    then obtain m t where "m \<le> unread u" "(poll_again C ^^ m) u t" "\<nexists>v. poll_again C t v"
      "poll_loop n C u = bindP (poll_once C) (\<lambda>r. retP (the r)) t"
      using Suc.IH [of u] Suc.prems(2) by auto
    moreover have "poll_loop (Suc n) C s = poll_loop n C u"
      using u by (simp add: poll_again_def bindP_run)
    moreover have "(poll_again C ^^ Suc m) s t" using u calculation(2) by (rule relpowp_Suc_I2)
    ultimately show ?thesis using lt(2) by (intro exI [of _ "Suc m"] exI [of _ t]) simp
  next
    case False
    then have "poll_loop (Suc n) C s = bindP (poll_once C) (\<lambda>r. retP (the r)) s"
      by (auto simp: poll_again_def bindP_def split: prod.splits sum.splits option.splits)
    then show ?thesis using False by (intro exI [of _ 0] exI [of _ s]) simp
  qed
qed simp

section \<open>Properties\<close>

text \<open>C14: Whatever the peer has sent, the loop of \<open>packet_read_poll_seqnr\<close> ends: it skips at most as many packets as
  there are bytes of input (one more if the first block of a packet is already decrypted), and then a round that
  does not go on gives its result or its exception.\<close>

theorem poll_seqnr_terminates:
  assumes "buffer_inv (pk_input s)"
  shows "\<exists>m t. m \<le> Suc (length (bytes (pk_input s))) \<and> (poll_again C ^^ m) s t \<and> (\<nexists>u. poll_again C t u) \<and>
    packet_read_poll_seqnr C s = bindP (poll_once C) (\<lambda>r. retP (the r)) t"
proof -
  have "unat (buffer_len (pk_input s)) = length (bytes (pk_input s))" using assms by (rule unat_buffer_len)
  moreover have "unread s \<le> Suc (length (bytes (pk_input s)))" by (simp add: unread_def)
  ultimately show ?thesis
    using poll_loop_rounds [OF assms, of "Suc (Suc (length (bytes (pk_input s))))" C]
    by (auto simp: packet_read_poll_seqnr_def bindP_def getP_def simp del: poll_loop.simps intro: order_trans)
qed

theorem poll_seqnr_terminates_witness:
  "\<exists>m t. m \<le> 1 \<and> (poll_again example_crypto ^^ m) (example_conn buffer_init) t \<and> (\<nexists>u. poll_again example_crypto t u)"
proof -
  have "buffer_inv (pk_input (example_conn buffer_init))" "bytes (pk_input (example_conn buffer_init)) = []"
    by (simp_all add: example_conn_def buffer_init_inv)
  from poll_seqnr_terminates [OF this(1), of example_crypto] this(2) show ?thesis by auto
qed

text \<open>C5: Under keys with an authentication code and without compression, a packet is delivered only if the code
  is right: the type and payload handed out are those of a plaintext whose code under the current key and
  sequence number stands in the input right behind it. The sequence number is the one before the packet and counts up by
  one, so no packet is accepted twice under one number.\<close>

theorem packet_authentic:
  assumes "buffer_inv (pk_input s)" "buffer_inv (pk_incoming_packet s)"
    and "pk_newkeys s MODE_IN = Some k" "mac_enabled (nk_mac k)" "\<not> comp_enabled (nk_comp k)"
    and "packet_read_poll2 C s = (Inr (ty, sq), t)" "ty \<noteq> SSH_MSG_NONE"
  shows "sq = ps_seqnr (pk_p_read s) \<and> ps_seqnr (pk_p_read t) = sq + 1 \<and>
    (\<exists>h pad code i. length h = 5 \<and> unat (h ! 4) = length pad \<and>
       mac_bytes C (Some k) sq (h @ ty # bytes (pk_incoming_packet t) @ pad) = Inr code \<and>
       code = take (unat (mac_len (nk_mac k))) (drop i (bytes (pk_input s))) \<and>
       bytes (pk_input t) = drop (i + unat (mac_len (nk_mac k))) (bytes (pk_input s)))"
proof -
  let ?bs = "block_size_of (pk_newkeys s MODE_IN)" and ?n = "unat (mac_len (nk_mac k))"
  obtain u where u: "read_first_block C ?bs s = (Inr True, u)" "sq = read_seq u"
    and t: "read_rest C (pk_newkeys s MODE_IN) (4 + pk_poll2_packet_length u - ?bs) (pk_poll2_packet_length u) u = (Inr ty, t)"
    using assms(6,7) by (rule poll2_cases)
  note first = first_block_run [OF assms(1) u(1)]
  obtain j where inv: "buffer_inv (pk_input u)" and j: "bytes (pk_input u) = drop j (bytes (pk_input s))"
    using first(1,2) assms(1) by (metis drop0)
  note rest = read_rest_inp [OF inv t]
  let ?i = "j + unat (4 + pk_poll2_packet_length u - ?bs)"
  have off: "\<not> comp_on (pk_newkeys s MODE_IN)" "maclen_of (pk_newkeys s MODE_IN) = mac_len (nk_mac k)"
    using assms(3-5) by (simp_all add: comp_on_def maclen_of_def)
  obtain h pad where "length h = 5" "unat (h ! 4) = length pad"
    "mac_bytes C (Some k) sq (h @ ty # bytes (pk_incoming_packet t) @ pad) = Inr (take ?n (drop ?i (bytes (pk_input s))))"
    using rest(1) [OF first(4) [OF assms(2)]] off j u(2) assms(3) by (auto simp: add.commute)
  moreover have "bytes (pk_input t) = drop (?i + ?n) (bytes (pk_input s))"
    using rest(3) off(2) j by (simp add: ac_simps)
  moreover have "sq = ps_seqnr (pk_p_read s)" "ps_seqnr (pk_p_read t) = sq + 1"
    using rest(5) first(3) u(2) by (simp_all add: read_seq_def)
  ultimately show ?thesis by blast
qed

text \<open>A packet as the receiver of the example connection finds it in its input.\<close>

lemma example_received:
  "\<exists>(r :: (byte ssh_aes_ctr_ctx option, unit) Packets) sq t. buffer_inv (pk_input r) \<and> buffer_inv (pk_incoming_packet r) \<and>
    pk_newkeys r MODE_IN = Some example_keys \<and> packet_read_poll2 example_crypto r = (Inr (94, sq), t)"
proof -
  let ?s = "example_conn buffer_init" and ?pad = "replicate 9 0 :: byte list"
  let ?P = "packet_bytes [94, 7] ?pad" and ?nk = "pk_newkeys ?s MODE_OUT"
  have rel: "ctr_ready (cc_evp (pk_send_context ?s)) (cc_evp (pk_receive_context ?s))"
    using example_in_step [of buffer_init buffer_init] by (simp add: in_step_def)
  have bs: "unat (block_size_of ?nk) = 16" by (simp add: example_conn_def block_size_of_def example_keys_def)
  then have dvd: "unat (block_size_of ?nk) dvd length ?P" by simp
  obtain c ev where c: "EVP_Cipher example_crypto (cc_evp (pk_send_context ?s)) ?P = Some (c, ev)"
    using evp_sync.enc_total [OF example_sync rel dvd] by auto
  have mac: "mac_bytes example_crypto ?nk (ps_seqnr (pk_p_send ?s)) ?P = Inr (replicate 20 7)"
    by (simp add: mac_bytes_def mac_compute_def example_conn_def example_keys_def mac_zero_def example_crypto_def)
  have lc: "length c = 16" using evp_sync.enc_length [OF example_sync rel c] by simp
  then have "room buffer_init (length (c @ replicate 20 7) + 0x7fff + 0)" by (intro room_init) simp
  then obtain i where i: "buffer_inv i" "bytes i = c @ replicate 20 7"
    using append_room [of buffer_init "c @ replicate 20 7" 0] lc room_inv by auto
  let ?r = "?s\<lparr>pk_input := i\<rparr>"
  have "in_step example_crypto ctr_ready ?s ?r"
    using example_in_step [of buffer_init buffer_init] by (simp add: in_step_def)
  moreover have "can_receive ?r" using i(1) by (simp add: can_receive_def example_conn_def room_init)
  ultimately have "\<exists>r'. packet_read_poll2 example_crypto ?r = (Inr (94, ps_seqnr (pk_p_read ?r)), r')"
    using receive_sent [OF example_sync [of buffer_init], of ?r "[94, 7]" ?pad c ev "replicate 20 7" "[]"] dvd c mac i(2)
    by (auto simp: plain_type_def msg_consts)
  moreover have "pk_newkeys ?r MODE_IN = Some example_keys" "buffer_inv (pk_incoming_packet ?r)"
    by (simp_all add: example_conn_def buffer_init_inv)
  ultimately show ?thesis using i(1) by (intro exI [of _ ?r]) auto
qed

theorem packet_authentic_witness:
  "\<exists>(r :: (byte ssh_aes_ctr_ctx option, unit) Packets) sq t. packet_read_poll2 example_crypto r = (Inr (94, sq), t) \<and>
    (\<exists>p i. mac_bytes example_crypto (Some example_keys) sq p = Inr (take 20 (drop i (bytes (pk_input r)))))"
proof -
  obtain r :: "(byte ssh_aes_ctr_ctx option, unit) Packets" and sq t
    where r: "buffer_inv (pk_input r)" "buffer_inv (pk_incoming_packet r)" "pk_newkeys r MODE_IN = Some example_keys"
      "packet_read_poll2 example_crypto r = (Inr (94, sq), t)"
    using example_received by blast
  have k: "mac_enabled (nk_mac example_keys)" "\<not> comp_enabled (nk_comp example_keys)"
    "unat (mac_len (nk_mac example_keys)) = 20" "94 \<noteq> SSH_MSG_NONE"
    by (simp_all add: example_keys_def msg_consts)
  from packet_authentic [OF r(1-3) k(1,2) r(4) k(4)] show ?thesis using r(4) k(3) by metis
qed

end
