(* ===== verification/Packet_Frame.thy ===== *)
theory Packet_Frame
  imports Packet Packet_Props Packet_Rekey
begin

text \<open>
  The packet layer leaves alone what the layers above have added to the state of the connection: whatever one of its
  operations returns, the fields that extend the record are unchanged. This is what the layers above use of it.
\<close>

lemma keeps_list [frame_intros]:
  "keeps f m \<Longrightarrow> (\<And>x xs. keeps f (k x xs)) \<Longrightarrow> keeps f (case l of [] \<Rightarrow> m | x # xs \<Rightarrow> k x xs)"
  by (cases l) simp_all

lemma keeps_sent [frame_intros]:
  "(\<And>n. keeps f (m n)) \<Longrightarrow> (\<And>b. keeps f (k b)) \<Longrightarrow> keeps f (case r of Sent n \<Rightarrow> m n | Send_error b \<Rightarrow> k b)"
  by (cases r) simp_all

lemma keeps_mode [frame_intros]:
  "keeps f m \<Longrightarrow> keeps f n \<Longrightarrow> keeps f (case r of MODE_IN \<Rightarrow> m | MODE_OUT \<Rightarrow> n)"
  by (cases r) simp_all

abbreviation ext :: "('ev, 'z, 'm) Packets_scheme \<Rightarrow> 'm" where
  "ext \<equiv> Packets.more"

lemmas ext_simps = packet_set_state_def Let_def

lemma ext_build [frame_intros]:
  "keeps ext (packet_start type)" "keeps ext (packet_put_char c)" "keeps ext (packet_put_int n)"
  "keeps ext (packet_put_string d)" "keeps ext (packet_put_cstring str)" "keeps ext (packet_put_raw d)"
  "keeps ext (packet_put_bignum2 L v)"
  unfolding packet_start_def packet_put_char_def packet_put_int_def packet_put_string_def packet_put_cstring_def
    packet_put_raw_def packet_put_bignum2_def
  by (intro frame_intros; simp)+

lemma ext_parse [frame_intros]:
  "keeps ext packet_get_char" "keeps ext packet_get_int" "keeps ext packet_get_string" "keeps ext packet_get_raw"
  "keeps ext packet_get_string_ptr" "keeps ext (packet_get_bignum2 L)" "keeps ext packet_remaining"
  "keeps ext (packet_process_incoming d)"
  unfolding packet_get_char_def packet_get_int_def packet_get_string_def packet_get_raw_def packet_get_string_ptr_def
    packet_get_bignum2_def packet_remaining_def packet_process_incoming_def
  by (intro frame_intros; simp)+

lemma ext_compression [frame_intros]:
  "keeps ext packet_init_compression" "keeps ext (buffer_compress_init_send C l)" "keeps ext (buffer_compress_init_recv C)"
  "keeps ext (buffer_compress C)" "keeps ext (buffer_uncompress C)" "keeps ext (put_newkeys mode nk)"
  unfolding packet_init_compression_def buffer_compress_init_send_def buffer_compress_init_recv_def buffer_compress_def
    buffer_uncompress_def put_newkeys_def
  by (intro frame_intros; simp)+

lemma ext_start_comp [frame_intros]: "keeps ext (start_comp C mode nk)"
  unfolding start_comp_def by (intro frame_intros)

lemma ext_keys [frame_intros]: "keeps ext (set_newkeys C mode)" "keeps ext (packet_enable_delayed_compress C)"
  unfolding set_newkeys_def use_newkeys_def kex_get_newkeys_def packet_enable_delayed_compress_def delayed_compress_def Let_def
  by (intro frame_intros; simp split: kex_mode.split)+

lemma ext_send_stages [frame_intros]:
  "keeps ext (packet_compress C)" "keeps ext (add_padding C he bs)" "keeps ext (put_header p)" "keeps ext (encrypt_packet C)"
  "keeps ext (count_packet mode bs len)"
  unfolding packet_compress_def add_padding_def put_header_def encrypt_packet_def count_packet_def Let_def
  by (intro frame_intros; simp add: ext_simps)+

lemma ext_wrapped [frame_intros]: "keeps ext (packet_send2_wrapped C)"
  unfolding packet_send2_wrapped_def seal_packet_def by (intro frame_intros) simp_all

lemma ext_flush [frame_intros]: "keeps ext (flush_queue n C)"
  by (induction n) (auto intro!: frame_intros)

lemma ext_send [frame_intros]: "keeps ext (packet_send C)"
  unfolding packet_send_def packet_send2_def Let_def by (intro frame_intros) simp_all

lemma ext_write_poll [frame_intros]: "keeps ext packet_write_poll" "keeps ext (wait_socket msg)"
  unfolding packet_write_poll_def wait_socket_def by (intro frame_intros; simp)+

lemma ext_write_loop [frame_intros]: "keeps ext (write_wait_loop n)"
  by (induction n) (auto intro!: frame_intros)

lemma ext_write_wait [frame_intros]: "keeps ext packet_write_wait"
  unfolding packet_write_wait_def by (intro frame_intros)

lemma ext_check_eom [frame_intros]: "keeps ext (packet_check_eom C)"
  unfolding packet_check_eom_def by (intro frame_intros)

lemma ext_receive_stages [frame_intros]:
  "keeps ext (decrypt_input C n)" "keeps ext (read_first_block C bs)" "keeps ext (check_mac C nk)" "keeps ext (strip_packet C)"
  "keeps ext (packet_uncompress C)" "keeps ext (take_type C)"
  unfolding decrypt_input_def read_first_block_def check_mac_def strip_packet_def packet_uncompress_def take_type_def
  by (intro frame_intros; simp)+

lemma ext_poll2 [frame_intros]: "keeps ext (packet_read_poll2 C)"
  unfolding packet_read_poll2_def read_rest_def Let_def by (intro frame_intros) simp_all

lemma ext_poll_once [frame_intros]: "keeps ext (poll_once C)"
  unfolding poll_once_def poll_dispatch_def by (intro frame_intros) simp_all

lemma ext_poll_loop [frame_intros]: "keeps ext (poll_loop n C)"
  by (induction n) (auto intro!: frame_intros)

lemma ext_poll_seqnr [frame_intros]: "keeps ext (packet_read_poll_seqnr C)"
  unfolding packet_read_poll_seqnr_def by (intro frame_intros)

lemma ext_read_loop [frame_intros]: "keeps ext (read_loop n C)"
  by (induction n) (auto intro!: frame_intros)

lemma ext_read [frame_intros]:
  "keeps ext (packet_read_seqnr C)" "keeps ext (packet_read C)" "keeps ext (packet_read_expect C ty)"
  unfolding packet_read_seqnr_def packet_read_def packet_read_expect_def by (intro frame_intros)+

text \<open>A view of the upper layers is a view of the extension.\<close>

lemma keeps_view: "keeps ext m \<Longrightarrow> (\<And>s. f s = g (ext s)) \<Longrightarrow> keeps f m"
  by (simp add: moves_def)

end
