(* ===== verification/Text_Codec.thy ===== *)
theory Text_Codec
  imports Ssh_Prelude "HOL-Library.Signed_Division" "HOL-Library.Char_ord"
begin

text \<open>
  \<open>base64.cpp\<close>, \<open>uuencode.cpp\<close>, \<open>strtoll.cpp\<close> and \<open>strtonum.cpp\<close>: the text forms of
  binary data and numbers. The target of a conversion is a block of memory whose bounds are checked; \<open>targsize\<close>
  is what the caller says about it. No caller passes a null target.
\<close>

section \<open>Base 64\<close>

definition Base64 :: string where
  "Base64 = ''ABCDEFGHIJKLMNOPQRSTUVWXYZabcdefghijklmnopqrstuvwxyz0123456789+/''"

definition Pad64 :: char where "Pad64 = CHR ''=''"

text \<open>\<open>isspace\<close> in the C locale.\<close>

definition isspace :: "char \<Rightarrow> bool" where
  "isspace c \<longleftrightarrow> c \<in> {CHR 0x09, CHR 0x0A, CHR 0x0B, CHR 0x0C, CHR 0x0D, CHR '' ''}"

definition assertR :: "bool \<Rightarrow> unit res" where
  "assertR ok = (if ok then Inr () else Inl Assertion_failed)"

text \<open>The four six-bit groups of three bytes.\<close>

definition sextets :: "byte \<Rightarrow> byte \<Rightarrow> byte \<Rightarrow> byte list" where
  "sextets i0 i1 i2 =
     [drop_bit 2 i0, push_bit 4 (i0 AND 0x03) + drop_bit 4 i1, push_bit 2 (i1 AND 0x0f) + drop_bit 6 i2, i2 AND 0x3f]"

definition base64_byte :: "byte \<Rightarrow> byte" where
  "base64_byte x = byte_of_char (Base64 ! unat x)"

text \<open>The result is what the target holds, and \<open>None\<close> for the return value -1.\<close>

definition ntop_tail :: "byte list \<Rightarrow> byte list \<Rightarrow> nat \<Rightarrow> nat \<Rightarrow> (nat option \<times> byte list) res" where
  "ntop_tail src target targsize datalength =
     bindR
       (if src = [] then Inr (Some datalength, target)
        else
          let input = src @ replicate (3 - length src) 0; output = take 3 (sextets (input ! 0) (input ! 1) (input ! 2)) in
          bindR (assertR (\<forall>x \<in> set output. x < 64)) (\<lambda>_.
          if datalength + 4 > targsize then Inr (None, target)
          else bindR (mem_write target datalength
                 [base64_byte (output ! 0), base64_byte (output ! 1),
                  if length src = 1 then byte_of_char Pad64 else base64_byte (output ! 2), byte_of_char Pad64]) (\<lambda>target.
               Inr (Some (datalength + 4), target)))) (\<lambda>(r, target).
     case r of None \<Rightarrow> Inr (None, target)
     | Some datalength \<Rightarrow>
         if datalength \<ge> targsize then Inr (None, target)
         else bindR (mem_write target datalength [0]) (\<lambda>target. Inr (Some datalength, target)))"

fun ntop_loop :: "byte list \<Rightarrow> byte list \<Rightarrow> nat \<Rightarrow> nat \<Rightarrow> (nat option \<times> byte list) res" where
  "ntop_loop (i0 # i1 # i2 # src) target targsize datalength =
     bindR (assertR (\<forall>x \<in> set (sextets i0 i1 i2). x < 64)) (\<lambda>_.
     if datalength + 4 > targsize then Inr (None, target)
     else bindR (mem_write target datalength (map base64_byte (sextets i0 i1 i2))) (\<lambda>target.
       ntop_loop src target targsize (datalength + 4)))"
| "ntop_loop src target targsize datalength = ntop_tail src target targsize datalength"

definition b64_ntop :: "byte list \<Rightarrow> byte list \<Rightarrow> nat \<Rightarrow> (nat option \<times> byte list) res" where
  "b64_ntop src target targsize = ntop_loop src target targsize 0"

text \<open>\<open>strchr\<close> as the distance from the start of the string.\<close>

fun strchr_index :: "string \<Rightarrow> char \<Rightarrow> nat option" where
  "strchr_index [] c = None"
| "strchr_index (x # xs) c = (if x = c then Some 0 else map_option Suc (strchr_index xs c))"

text \<open>One digit: the new target, \<open>tarindex\<close> and \<open>state\<close>, or \<open>None\<close> for the return value -1.\<close>

definition or_at :: "byte list \<Rightarrow> nat \<Rightarrow> byte \<Rightarrow> byte list res" where
  "or_at m i x = bindR (mem_read m i 1) (\<lambda>d. mem_write m i [d ! 0 OR x])"

definition pton_digit :: "byte \<Rightarrow> byte list \<Rightarrow> nat \<Rightarrow> nat \<Rightarrow> nat \<Rightarrow> (byte list \<times> nat \<times> nat) option res" where
  "pton_digit d target targsize state tarindex =
     (if state = 0 then
        if tarindex \<ge> targsize then Inr None
        else bindR (mem_write target tarindex [push_bit 2 d]) (\<lambda>t. Inr (Some (t, tarindex, 1)))
      else if state = 1 then
        if tarindex + 1 \<ge> targsize then Inr None
        else bindR (or_at target tarindex (drop_bit 4 d)) (\<lambda>t.
             bindR (mem_write t (tarindex + 1) [push_bit 4 (d AND 0x0f)]) (\<lambda>t. Inr (Some (t, tarindex + 1, 2))))
      else if state = 2 then
        if tarindex + 1 \<ge> targsize then Inr None
        else bindR (or_at target tarindex (drop_bit 2 d)) (\<lambda>t.
             bindR (mem_write t (tarindex + 1) [push_bit 6 (d AND 0x03)]) (\<lambda>t. Inr (Some (t, tarindex + 1, 3))))
      else
        if tarindex \<ge> targsize then Inr None
        else bindR (or_at target tarindex d) (\<lambda>t. Inr (Some (t, tarindex + 1, 0))))"

text \<open>After a pad character, with what follows it.\<close>

definition pton_pad :: "string \<Rightarrow> byte list \<Rightarrow> nat \<Rightarrow> nat \<Rightarrow> (nat option \<times> byte list) res" where
  "pton_pad rest target state tarindex =
     (let rest' = (if state = 2 then
            (case dropWhile isspace rest of [] \<Rightarrow> None | c # r \<Rightarrow> if c = Pad64 then Some r else None)
          else if state = 3 then Some rest else None) in
      case rest' of None \<Rightarrow> Inr (None, target)
      | Some r \<Rightarrow>
          if \<not> list_all isspace r then Inr (None, target)
          else bindR (mem_read target tarindex 1) (\<lambda>d.
            Inr (if d ! 0 \<noteq> 0 then None else Some tarindex, target)))"

fun pton_loop :: "string \<Rightarrow> byte list \<Rightarrow> nat \<Rightarrow> nat \<Rightarrow> nat \<Rightarrow> (nat option \<times> byte list) res" where
  "pton_loop [] target targsize state tarindex =
     Inr (if state \<noteq> 0 then None else Some tarindex, target)"
| "pton_loop (ch # src) target targsize state tarindex =
     (if isspace ch then pton_loop src target targsize state tarindex
      else if ch = Pad64 then pton_pad src target state tarindex
      else case strchr_index Base64 ch of None \<Rightarrow> Inr (None, target)
      | Some pos \<Rightarrow>
          bindR (pton_digit (of_nat pos) target targsize state tarindex) (\<lambda>r.
          case r of None \<Rightarrow> Inr (None, target)
          | Some (t, tarindex, state) \<Rightarrow> pton_loop src t targsize state tarindex))"

definition b64_pton :: "string \<Rightarrow> byte list \<Rightarrow> nat \<Rightarrow> (nat option \<times> byte list) res" where
  "b64_pton src target targsize = pton_loop src target targsize 0 0"

section \<open>uuencode and uudecode\<close>

definition uuencode :: "byte list \<Rightarrow> byte list \<Rightarrow> nat \<Rightarrow> (nat option \<times> byte list) res" where
  "uuencode src target targsize = b64_ntop src target targsize"

definition is_blank :: "char \<Rightarrow> bool" where
  "is_blank c \<longleftrightarrow> c = CHR '' '' \<or> c = CHR 0x09"

definition uudecode :: "string \<Rightarrow> byte list \<Rightarrow> nat \<Rightarrow> (nat option \<times> byte list) res" where
  "uudecode src target targsize =
     (let blanks = takeWhile is_blank src; data = takeWhile (\<lambda>c. \<not> is_blank c) (dropWhile is_blank src) in
      b64_pton (blanks @ data) target targsize)"

section \<open>Numbers\<close>

definition LLONG_MAX :: int where "LLONG_MAX = 9223372036854775807"
definition LLONG_MIN :: int where "LLONG_MIN = - 9223372036854775808"

definition isdigit :: "char \<Rightarrow> bool" where "isdigit c \<longleftrightarrow> CHR ''0'' \<le> c \<and> c \<le> CHR ''9''"
definition isupper :: "char \<Rightarrow> bool" where "isupper c \<longleftrightarrow> CHR ''A'' \<le> c \<and> c \<le> CHR ''Z''"
definition isalpha :: "char \<Rightarrow> bool" where "isalpha c \<longleftrightarrow> isupper c \<or> CHR ''a'' \<le> c \<and> c \<le> CHR ''z''"

text \<open>The value of a digit, \<open>None\<close> when the loop breaks.\<close>

definition digit_of :: "int \<Rightarrow> char \<Rightarrow> int option" where
  "digit_of base c =
     (let v = (if isdigit c then Some (of_char c - 48)
        else if isalpha c then Some (of_char c - (if isupper c then 55 else 87)) else None) in
      case v of None \<Rightarrow> None | Some d \<Rightarrow> if d \<ge> base then None else Some d)"

text \<open>The state of the loop of \<open>strtoll\<close>: \<open>acc\<close>, \<open>any\<close>, whether \<open>errno\<close> became \<open>ERANGE\<close>; the result adds the
  rest of the text.\<close>

fun strtoll_loop :: "int \<Rightarrow> bool \<Rightarrow> int \<Rightarrow> int \<Rightarrow> string \<Rightarrow> int \<Rightarrow> int \<Rightarrow> bool \<Rightarrow> int \<times> int \<times> bool \<times> string" where
  "strtoll_loop base neg cutoff cutlim [] acc any erange = (acc, any, erange, [])"
| "strtoll_loop base neg cutoff cutlim (ch # s) acc any erange =
     (case digit_of base ch of None \<Rightarrow> (acc, any, erange, ch # s)
      | Some c \<Rightarrow>
          if any < 0 then strtoll_loop base neg cutoff cutlim s acc any erange
          else if neg then
            (if acc < cutoff \<or> (acc = cutoff \<and> c > cutlim) then strtoll_loop base neg cutoff cutlim s LLONG_MIN (- 1) True
             else strtoll_loop base neg cutoff cutlim s (acc * base - c) 1 erange)
          else
            (if acc > cutoff \<or> (acc = cutoff \<and> c > cutlim) then strtoll_loop base neg cutoff cutlim s LLONG_MAX (- 1) True
             else strtoll_loop base neg cutoff cutlim s (acc * base + c) 1 erange))"

text \<open>The division of C truncates. The result is the value, the text at \<open>endptr\<close> and whether \<open>errno\<close> is \<open>ERANGE\<close>.\<close>

definition strtoll :: "string \<Rightarrow> int \<Rightarrow> int \<times> string \<times> bool" where
  "strtoll nptr base =
     (let s = dropWhile isspace nptr;
          neg = (case s of [] \<Rightarrow> False | c # _ \<Rightarrow> c = CHR ''-'');
          s = (case s of [] \<Rightarrow> [] | c # r \<Rightarrow> if c = CHR ''-'' \<or> c = CHR ''+'' then r else s);
          hex = ((base = 0 \<or> base = 16) \<and>
            (case s of c # d # _ \<Rightarrow> c = CHR ''0'' \<and> (d = CHR ''x'' \<or> d = CHR ''X'') | _ \<Rightarrow> False));
          s = (if hex then drop 2 s else s);
          base = (if hex then 16 else base);
          base = (if base = 0 then (case s of [] \<Rightarrow> 10 | c # _ \<Rightarrow> if c = CHR ''0'' then 8 else 10) else base);
          limit = (if neg then LLONG_MIN else LLONG_MAX);
          cutlim = limit smod base;
          cutoff = limit sdiv base;
          (cutlim, cutoff) =
            (if neg then
               let (l, c) = (if cutlim > 0 then (cutlim - base, cutoff + 1) else (cutlim, cutoff)) in (- l, c)
             else (cutlim, cutoff));
          (acc, any, erange, rest) = strtoll_loop base neg cutoff cutlim s 0 0 False
      in (acc, if any \<noteq> 0 then rest else nptr, erange))"

text \<open>The value, and the text of the error if there is one.\<close>

definition strtonum :: "string \<Rightarrow> int \<Rightarrow> int \<Rightarrow> int \<times> string option" where
  "strtonum numstr minval maxval =
     (let err = (if minval > maxval then Some ''invalid''
        else let (ll, ep, erange) = strtoll numstr 10 in
          if numstr = ep \<or> ep \<noteq> [] then Some ''invalid''
          else if ll = LLONG_MIN \<and> erange \<or> ll < minval then Some ''too small''
          else if ll = LLONG_MAX \<and> erange \<or> ll > maxval then Some ''too large''
          else None)
      in (if err = None then fst (strtoll numstr 10) else 0, err))"

section \<open>Base 64 is a code\<close>

text \<open>The text of a list of bytes, and the reference for both directions.\<close>

fun b64_text :: "byte list \<Rightarrow> byte list" where
  "b64_text (i0 # i1 # i2 # src) = map base64_byte (sextets i0 i1 i2) @ b64_text src"
| "b64_text [] = []"
| "b64_text [i0] = map base64_byte (take 2 (sextets i0 0 0)) @ replicate 2 (byte_of_char Pad64)"
| "b64_text [i0, i1] = map base64_byte (take 3 (sextets i0 i1 0)) @ [byte_of_char Pad64]"

lemma byte_bit: "bit (w :: byte) n \<Longrightarrow> n < 8"
  using bit_imp_le_length [of w n] by simp

lemma byte_masks: "(3 :: byte) = mask 2" "(15 :: byte) = mask 4" "(63 :: byte) = mask 6"
  by (simp_all add: mask_eq_exp_minus_1)

lemma sextet_or:
  "push_bit 4 (i0 AND mask 2) + drop_bit 4 i1 = push_bit 4 (i0 AND mask 2) OR (drop_bit 4 i1 :: byte)"
  "push_bit 2 (i0 AND mask 4) + drop_bit 6 i1 = push_bit 2 (i0 AND mask 4) OR (drop_bit 6 i1 :: byte)"
  by (rule disjunctive_add_eq_or, rule bit_word_eqI, auto simp: bit_simps dest!: byte_bit)+

lemma two_back: "2 \<le> n \<Longrightarrow> Suc (Suc (n - 2)) = n"
  by simp

lemma join_sextets:
  "push_bit 2 (drop_bit 2 i0) OR drop_bit 4 (push_bit 4 (i0 AND 0x03) + drop_bit 4 i1) = (i0 :: byte)"
  "push_bit 4 ((push_bit 4 (i0 AND 0x03) + drop_bit 4 i1) AND 0x0f) OR
     drop_bit 2 (push_bit 2 (i1 AND 0x0f) + drop_bit 6 i2) = (i1 :: byte)"
  "push_bit 6 ((push_bit 2 (i1 AND 0x0f) + drop_bit 6 i2) AND 0x03) OR (i2 AND 0x3f) = (i2 :: byte)"
  unfolding byte_masks sextet_or
  by (rule bit_word_eqI, rename_tac n, case_tac "n < 2"; case_tac "n < 4"; case_tac "n < 6";
      auto simp: bit_simps not_less two_back dest: byte_bit)+

lemma less_64: "(x :: byte) AND mask 6 = x \<Longrightarrow> x < 64"
proof -
  assume "x AND mask 6 = x"
  then have "unat x = unat (take_bit 6 x)" by (simp add: take_bit_eq_mask)
  also have "\<dots> = take_bit 6 (unat x)" by (simp add: unsigned_take_bit_eq)
  finally have "unat x = unat x mod 2 ^ 6" by (simp add: take_bit_eq_mod)
  also have "\<dots> < 2 ^ 6" by simp
  finally show ?thesis by (simp add: word_less_nat_alt)
qed

lemma sextet_less:
  "drop_bit 2 i0 < (64 :: byte)" "i0 AND 0x3f < (64 :: byte)"
  "push_bit 4 (i0 AND 0x03) + drop_bit 4 i1 < (64 :: byte)" "push_bit 2 (i0 AND 0x0f) + drop_bit 6 i1 < (64 :: byte)"
  unfolding byte_masks sextet_or
  by (rule less_64, rule bit_word_eqI, auto simp: bit_simps dest: byte_bit)+

lemma sextets_less: "x \<in> set (sextets i0 i1 i2) \<Longrightarrow> x < 64"
  using sextet_less by (auto simp only: sextets_def list.set)

lemma length_b64_text: "length (b64_text src) = 4 * ((length src + 2) div 3)"
proof (induction src rule: b64_text.induct)
  case (1 i0 i1 i2 src)
  have "(length (i0 # i1 # i2 # src) + 2) div 3 = Suc ((length src + 2) div 3)" by simp
  then show ?case using 1 by (simp add: sextets_def)
qed (simp_all add: sextets_def)

lemma strchr_index_nth: "distinct xs \<Longrightarrow> i < length xs \<Longrightarrow> strchr_index xs (xs ! i) = Some i"
proof (induction xs arbitrary: i)
  case (Cons x xs)
  then show ?case by (cases i) auto
qed simp

lemma distinct_Base64: "distinct Base64" "length Base64 = 64"
  by (simp_all add: Base64_def)

lemma Base64_plain: "c \<in> set Base64 \<Longrightarrow> \<not> isspace c \<and> c \<noteq> Pad64 \<and> \<not> is_blank c \<and> c \<noteq> CHR 0x00"
  by (auto simp: Base64_def isspace_def Pad64_def is_blank_def)

text \<open>Encoding: the text goes to the place the loop has reached, with a null byte behind it.\<close>

lemma mem_write_mid: "length d \<le> length r \<Longrightarrow> mem_write (a @ r) (length a) d = Inr (a @ d @ drop (length d) r)"
  by (simp add: mem_write_def)

lemma mem_write_next:
  assumes "Suc (length d) \<le> length r"
  shows "mem_write (a @ d @ drop (length d) r) (length a + length d) [0] = Inr (a @ d @ 0 # drop (Suc (length d)) r)"
  using assms mem_write_mid [of "[0]" "drop (length d) r" "a @ d"] by simp

lemma ntop_tail_ok:
  assumes "length a + length (b64_text src) < targsize" "targsize \<le> length a + length r" "length src < 3"
  shows "ntop_tail src (a @ r) targsize (length a) =
    Inr (Some (length a + length (b64_text src)), a @ b64_text src @ 0 # drop (Suc (length (b64_text src))) r)"
proof -
  have quad: "mem_write (a @ r) (length a) [x, y, z, w] = Inr (a @ [x, y, z, w] @ drop 4 r)"
    "mem_write (a @ x # y # z # w # drop 4 r) (length a + 4) [0] = Inr (a @ [x, y, z, w] @ 0 # drop 5 r)"
    if "5 \<le> length r" for x y z w :: byte
    using mem_write_mid [of "[x, y, z, w]" r a] mem_write_next [of "[x, y, z, w]" r a] that
    by (simp_all add: eval_nat_numeral)
  consider "src = []" | i0 where "src = [i0]" | i0 i1 where "src = [i0, i1]"
    using assms(3) by (cases src; cases "tl src"; auto simp: neq_Nil_conv Suc_less_eq2)
  then show ?thesis
  proof cases
    case 1
    then show ?thesis using assms by (simp add: ntop_tail_def mem_write_mid)
  next
    case (2 i0)
    then show ?thesis using assms quad sextet_less
      by (simp add: ntop_tail_def sextets_def assertR_def numeral_eq_Suc)
  next
    case (3 i0 i1)
    then show ?thesis using assms quad sextet_less
      by (simp add: ntop_tail_def sextets_def assertR_def numeral_eq_Suc)
  qed
qed

lemma ntop_loop_ok:
  assumes "length a + length (b64_text src) < targsize" "targsize \<le> length a + length r"
  shows "ntop_loop src (a @ r) targsize (length a) =
    Inr (Some (length a + length (b64_text src)), a @ b64_text src @ 0 # drop (Suc (length (b64_text src))) r)"
  using assms
proof (induction src arbitrary: a r rule: b64_text.induct)
  case (1 i0 i1 i2 src)
  let ?d = "map base64_byte (sextets i0 i1 i2)"
  have d: "length ?d = 4" by (simp add: sextets_def)
  have "\<forall>x \<in> set (sextets i0 i1 i2). x < 64" using sextets_less by blast
  moreover have "mem_write (a @ r) (length a) ?d = Inr ((a @ ?d) @ drop 4 r)"
    using mem_write_mid [of ?d r a] 1(2,3) d by simp
  moreover have "ntop_loop src ((a @ ?d) @ drop 4 r) targsize (length (a @ ?d)) =
      Inr (Some (length (a @ ?d) + length (b64_text src)),
        (a @ ?d) @ b64_text src @ 0 # drop (Suc (length (b64_text src))) (drop 4 r))"
    using 1(2,3) d by (intro 1(1)) simp_all
  ultimately show ?case using 1(2,3) d
    by (simp add: assertR_def add.commute add.left_commute)
qed (use ntop_tail_ok in simp_all)

lemma b64_ntop_ok:
  assumes "length (b64_text src) < targsize" "targsize \<le> length target"
  shows "b64_ntop src target targsize =
    Inr (Some (length (b64_text src)), b64_text src @ 0 # drop (Suc (length (b64_text src))) target)"
  using ntop_loop_ok [of "[]" src targsize target] assms by (simp add: b64_ntop_def)

text \<open>Decoding: four characters give three bytes.\<close>

lemma pton_char:
  assumes "x < 64"
  shows "pton_loop (char_of_byte (base64_byte x) # src) target targsize state tarindex =
     bindR (pton_digit x target targsize state tarindex) (\<lambda>r.
     case r of None \<Rightarrow> Inr (None, target)
     | Some (t, tarindex, state) \<Rightarrow> pton_loop src t targsize state tarindex)"
proof -
  let ?c = "Base64 ! unat x"
  have i: "unat x < length Base64" using assms by (simp add: distinct_Base64 word_less_nat_alt)
  have "\<not> isspace ?c" "?c \<noteq> Pad64" using Base64_plain [OF nth_mem [OF i]] by simp_all
  moreover have "strchr_index Base64 ?c = Some (unat x)" using distinct_Base64(1) i by (rule strchr_index_nth)
  ultimately show ?thesis by (simp add: base64_byte_def)
qed

lemma mem_at:
  assumes "i < length m"
  shows "mem_write m i [x] = Inr (m[i := x])" "or_at m i x = Inr (m[i := m ! i OR x])" "mem_read m i (Suc 0) = Inr [m ! i]"
proof -
  show w: "mem_write m i [y] = Inr (m[i := y])" for y
    using assms by (simp add: mem_write_def upd_conv_take_nth_drop)
  show r: "mem_read m i (Suc 0) = Inr [m ! i]"
    using assms by (simp add: mem_read_def take_Suc_conv_app_nth Cons_nth_drop_Suc [symmetric])
  show "or_at m i x = Inr (m[i := m ! i OR x])" using w r by (simp add: or_at_def)
qed

lemma pton_group:
  assumes "length a + 3 \<le> targsize" "targsize \<le> length a + length r"
  shows "pton_loop (map (char_of_byte \<circ> base64_byte) (sextets i0 i1 i2) @ src) (a @ r) targsize 0 (length a) =
    pton_loop src ((a @ [i0, i1, i2]) @ drop 3 r) targsize 0 (length (a @ [i0, i1, i2]))"
proof -
  define s0 s1 s2 s3 where s: "s0 = drop_bit 2 i0" "s1 = push_bit 4 (i0 AND 0x03) + drop_bit 4 i1"
    "s2 = push_bit 2 (i1 AND 0x0f) + drop_bit 6 i2" "s3 = i2 AND 0x3f"
  have less: "s0 < 64" "s1 < 64" "s2 < 64" "s3 < 64" unfolding s by (rule sextet_less)+
  have join: "push_bit 2 s0 OR drop_bit 4 s1 = i0" "push_bit 4 (s1 AND 0x0f) OR drop_bit 2 s2 = i1"
    "push_bit 6 (s2 AND 0x03) OR s3 = i2"
    unfolding s by (rule join_sextets)+
  obtain x y z q where r: "r = x # y # z # q" using assms by (cases r; cases "tl r"; cases "tl (tl r)") auto
  note digit = pton_digit_def mem_at r list_update_append nth_append
  have d0: "pton_digit s0 (a @ r) targsize 0 (length a) = Inr (Some (a @ push_bit 2 s0 # y # z # q, length a, 1))"
    using assms by (simp add: digit)
  have d1: "pton_digit s1 (a @ push_bit 2 s0 # y # z # q) targsize 1 (length a) =
      Inr (Some (a @ i0 # push_bit 4 (s1 AND 0x0f) # z # q, Suc (length a), 2))"
    using assms join(1) by (simp add: digit)
  have d2: "pton_digit s2 (a @ i0 # push_bit 4 (s1 AND 0x0f) # z # q) targsize 2 (Suc (length a)) =
      Inr (Some (a @ i0 # i1 # push_bit 6 (s2 AND 0x03) # q, Suc (Suc (length a)), 3))"
    using assms join(2) by (simp add: digit)
  have d3: "pton_digit s3 (a @ i0 # i1 # push_bit 6 (s2 AND 0x03) # q) targsize 3 (Suc (Suc (length a))) =
      Inr (Some (a @ i0 # i1 # i2 # q, length a + 3, 0))"
    using assms join(3) by (simp add: digit)
  have "sextets i0 i1 i2 = [s0, s1, s2, s3]" by (simp add: sextets_def s)
  then show ?thesis using d0 d1 d2 d3 less by (simp add: pton_char r numeral_3_eq_3 del: pton_loop.simps)
qed

text \<open>The last characters, with their padding.\<close>

lemma pton_pad_ok:
  assumes "state = 2 \<and> rest = [Pad64] \<or> state = 3 \<and> rest = []" "t ! i = 0" "i < length t"
  shows "pton_loop (Pad64 # rest) t targsize state i = Inr (Some i, t)"
proof -
  have "\<not> isspace Pad64" by (simp add: isspace_def Pad64_def)
  then show ?thesis using assms mem_at(3) [OF assms(3)] by (auto simp: pton_pad_def)
qed

lemma pton_one:
  assumes "length a + 2 \<le> targsize" "targsize \<le> length a + length r"
  shows "\<exists>q. pton_loop (map char_of_byte (b64_text [i0])) (a @ r) targsize 0 (length a) =
      Inr (Some (length a + 1), a @ i0 # q) \<and> length r = Suc (length q)"
proof -
  define s0 s1 where s: "s0 = drop_bit 2 i0" "s1 = push_bit 4 (i0 AND 0x03) + drop_bit 4 0"
  have less: "s0 < 64" "s1 < 64" unfolding s by (rule sextet_less)+
  have "push_bit 4 (s1 AND 0x0f) OR drop_bit 2 (push_bit 2 (0 AND 0x0f) + drop_bit 6 0) = 0"
    unfolding s by (rule join_sextets(2))
  then have zero: "push_bit 4 (s1 AND 0x0f) = 0" by simp
  have join: "push_bit 2 s0 OR drop_bit 4 s1 = i0" unfolding s by (rule join_sextets(1))
  obtain x y q where r: "r = x # y # q" using assms by (cases r; cases "tl r") auto
  note digit = pton_digit_def mem_at r list_update_append nth_append
  have d0: "pton_digit s0 (a @ r) targsize 0 (length a) = Inr (Some (a @ push_bit 2 s0 # y # q, length a, 1))"
    using assms by (simp add: digit)
  have d1: "pton_digit s1 (a @ push_bit 2 s0 # y # q) targsize 1 (length a) =
      Inr (Some (a @ i0 # 0 # q, Suc (length a), 2))"
    using assms join zero by (simp add: digit)
  have pad: "pton_loop [Pad64, Pad64] (a @ i0 # 0 # q) targsize 2 (Suc (length a)) =
      Inr (Some (Suc (length a)), a @ i0 # 0 # q)"
    by (rule pton_pad_ok) (simp_all add: nth_append)
  have "map char_of_byte (b64_text [i0]) = [char_of_byte (base64_byte s0), char_of_byte (base64_byte s1), Pad64, Pad64]"
    by (simp add: sextets_def s numeral_eq_Suc)
  then show ?thesis using d0 d1 pad less by (simp add: pton_char r del: pton_loop.simps b64_text.simps)
qed

lemma pton_two:
  assumes "length a + 3 \<le> targsize" "targsize \<le> length a + length r"
  shows "\<exists>q. pton_loop (map char_of_byte (b64_text [i0, i1])) (a @ r) targsize 0 (length a) =
      Inr (Some (length a + 2), a @ i0 # i1 # q) \<and> length r = Suc (Suc (length q))"
proof -
  define s0 s1 s2 where s: "s0 = drop_bit 2 i0" "s1 = push_bit 4 (i0 AND 0x03) + drop_bit 4 i1"
    "s2 = push_bit 2 (i1 AND 0x0f) + drop_bit 6 0"
  have less: "s0 < 64" "s1 < 64" "s2 < 64" unfolding s by (rule sextet_less)+
  have "push_bit 6 (s2 AND 0x03) OR (0 AND 0x3f) = 0" unfolding s by (rule join_sextets(3))
  then have zero: "push_bit 6 (s2 AND 0x03) = 0" by simp
  have join: "push_bit 2 s0 OR drop_bit 4 s1 = i0" "push_bit 4 (s1 AND 0x0f) OR drop_bit 2 s2 = i1"
    unfolding s by (rule join_sextets)+
  obtain x y z q where r: "r = x # y # z # q" using assms by (cases r; cases "tl r"; cases "tl (tl r)") auto
  note digit = pton_digit_def mem_at r list_update_append nth_append
  have d0: "pton_digit s0 (a @ r) targsize 0 (length a) = Inr (Some (a @ push_bit 2 s0 # y # z # q, length a, 1))"
    using assms by (simp add: digit)
  have d1: "pton_digit s1 (a @ push_bit 2 s0 # y # z # q) targsize 1 (length a) =
      Inr (Some (a @ i0 # push_bit 4 (s1 AND 0x0f) # z # q, Suc (length a), 2))"
    using assms join(1) by (simp add: digit)
  have d2: "pton_digit s2 (a @ i0 # push_bit 4 (s1 AND 0x0f) # z # q) targsize 2 (Suc (length a)) =
      Inr (Some (a @ i0 # i1 # 0 # q, Suc (Suc (length a)), 3))"
    using assms join(2) zero by (simp add: digit)
  have pad: "pton_loop [Pad64] (a @ i0 # i1 # 0 # q) targsize 3 (Suc (Suc (length a))) =
      Inr (Some (Suc (Suc (length a))), a @ i0 # i1 # 0 # q)"
    by (rule pton_pad_ok) (simp_all add: nth_append)
  have "map char_of_byte (b64_text [i0, i1]) =
      [char_of_byte (base64_byte s0), char_of_byte (base64_byte s1), char_of_byte (base64_byte s2), Pad64]"
    by (simp add: sextets_def s numeral_eq_Suc)
  then show ?thesis using d0 d1 d2 pad less by (simp add: pton_char r del: pton_loop.simps b64_text.simps)
qed

lemma pton_loop_ok:
  assumes "length a + length src < targsize" "targsize \<le> length a + length r"
  shows "\<exists>q. pton_loop (map char_of_byte (b64_text src)) (a @ r) targsize 0 (length a) =
      Inr (Some (length a + length src), a @ src @ q) \<and> length r = length src + length q"
  using assms
proof (induction src arbitrary: a r rule: b64_text.induct)
  case (1 i0 i1 i2 src)
  have "\<exists>q. pton_loop (map char_of_byte (b64_text src)) ((a @ [i0, i1, i2]) @ drop 3 r) targsize 0 (length (a @ [i0, i1, i2])) =
      Inr (Some (length (a @ [i0, i1, i2]) + length src), (a @ [i0, i1, i2]) @ src @ q) \<and> length (drop 3 r) = length src + length q"
    using 1(2,3) by (intro 1(1)) simp_all
  then show ?case using 1(2,3) pton_group [of a targsize r i0 i1 i2 "map char_of_byte (b64_text src)"]
    by (auto simp: comp_def)
next
  case (3 i0)
  then show ?case using pton_one [of a targsize r i0] by auto
next
  case (4 i0 i1)
  then show ?case using pton_two [of a targsize r i0 i1] by auto
qed simp

text \<open>Whatever the text is, decoding stays inside of a target of the size it was told.\<close>

lemma pton_digit_safe:
  assumes "targsize \<le> length t" "pton_digit d t targsize st i = Inr (Some (t', i', st'))"
  shows "length t' = length t" "st' \<le> 3" "st' = 2 \<or> st' = 3 \<Longrightarrow> i' < targsize"
  using assms by (auto simp: pton_digit_def mem_at split: if_splits)

lemma pton_digit_total: "targsize \<le> length t \<Longrightarrow> \<exists>r. pton_digit d t targsize st i = Inr r"
  by (auto simp: pton_digit_def mem_at)

lemma pton_loop_safe:
  assumes "targsize \<le> length t" "st = 2 \<or> st = 3 \<Longrightarrow> i < targsize"
  shows "\<exists>r t'. pton_loop src t targsize st i = Inr (r, t') \<and> length t' = length t"
  using assms
proof (induction src arbitrary: t st i)
  case (Cons ch src)
  have pad: "\<exists>r t'. pton_pad src t st i = Inr (r, t') \<and> length t' = length t"
    using Cons.prems by (auto simp: pton_pad_def Let_def mem_at split: option.split list.split)
  have digit: "\<exists>r t'. bindR (pton_digit (of_nat pos) t targsize st i) (\<lambda>r.
          case r of None \<Rightarrow> Inr (None, t)
          | Some (t, i, st) \<Rightarrow> pton_loop src t targsize st i) = Inr (r, t') \<and> length t' = length t" for pos
  proof -
    obtain r where r: "pton_digit (of_nat pos) t targsize st i = Inr r"
      using pton_digit_total [OF Cons.prems(1)] by blast
    show ?thesis
    proof (cases r)
      case (Some a)
      then obtain t1 i1 st1 where a: "pton_digit (of_nat pos) t targsize st i = Inr (Some (t1, i1, st1))"
        using r by (cases a) auto
      note s = pton_digit_safe [OF Cons.prems(1) a]
      have "targsize \<le> length t1" using s(1) Cons.prems(1) by simp
      from Cons.IH [OF this s(3)] show ?thesis using a s(1) by auto
    qed (use r in simp)
  qed
  show ?case using Cons.IH [OF Cons.prems] pad digit by (auto split: option.split)
qed simp

section \<open>Decimal numbers\<close>

text \<open>One decimal digit, from the state of the loop to the next.\<close>

definition dec_step :: "bool \<Rightarrow> char \<Rightarrow> int \<times> int \<times> bool \<Rightarrow> int \<times> int \<times> bool" where
  "dec_step neg ch st =
     (let (acc, any, erange) = st; c = of_char ch - 48 in
      if any < 0 then st
      else if neg then (if acc < - 922337203685477580 \<or> (acc = - 922337203685477580 \<and> c > 8) then (LLONG_MIN, - 1, True)
                        else (acc * 10 - c, 1, erange))
      else (if acc > 922337203685477580 \<or> (acc = 922337203685477580 \<and> c > 7) then (LLONG_MAX, - 1, True)
            else (acc * 10 + c, 1, erange)))"

definition dec_limits :: "bool \<Rightarrow> int \<times> int" where
  "dec_limits neg = (if neg then (- 922337203685477580, 8) else (922337203685477580, 7))"

lemma dec_digit_char:
  assumes "d < 10"
  shows "isdigit (char_of (48 + d :: nat))" "(of_char (char_of (48 + d) :: char) :: int) = 48 + int d"
proof -
  have v: "(of_char (char_of (48 + d) :: char) :: nat) = 48 + d" using assms by simp
  then show "isdigit (char_of (48 + d :: nat))" using assms by (simp add: isdigit_def less_eq_char_def)
  show "(of_char (char_of (48 + d) :: char) :: int) = 48 + int d"
    using of_nat_of_char [of "char_of (48 + d)", where 'a = int] unfolding v by simp
qed

lemma digit_of_digit:
  assumes "isdigit c"
  shows "digit_of 10 c = Some (of_char c - 48)"
proof -
  have "(of_char c :: nat) \<le> 57" using assms by (simp add: isdigit_def less_eq_char_def)
  then have "(of_char c :: int) \<le> 57" by (metis of_nat_mono of_nat_numeral of_nat_of_char)
  then show ?thesis using assms by (simp add: digit_of_def)
qed

lemma loop_step:
  assumes "isdigit ch"
  shows "strtoll_loop 10 neg (fst (dec_limits neg)) (snd (dec_limits neg)) (ch # s) acc any erange =
    (let (a, n, e) = dec_step neg ch (acc, any, erange) in
     strtoll_loop 10 neg (fst (dec_limits neg)) (snd (dec_limits neg)) s a n e)"
  by (simp add: digit_of_digit [OF assms] dec_step_def dec_limits_def)

lemma loop_fold:
  assumes "\<forall>c \<in> set s. isdigit c"
  shows "strtoll_loop 10 neg (fst (dec_limits neg)) (snd (dec_limits neg)) s acc any erange =
    (let (a, n, e) = fold (dec_step neg) s (acc, any, erange) in (a, n, e, []))"
  using assms
proof (induction s arbitrary: acc any erange)
  case (Cons ch s)
  then show ?case by (simp add: loop_step split: prod.split del: strtoll_loop.simps)
qed simp

lemma dec_fmt_u: "c \<in> set (fmt_u n) \<Longrightarrow> isdigit c"
proof (induction n rule: fmt_u.induct)
  case (1 n)
  then show ?case by (subst (asm) (2) fmt_u.simps) (auto simp: dec_digit_char split: if_splits)
qed

lemma dec_step_next:
  assumes "0 \<le> q" "d < 10"
  shows "dec_step False (char_of (48 + d :: nat)) (if q \<le> LLONG_MAX then (q, any, e) else (LLONG_MAX, - 1, True)) =
      (if any < 0 \<and> q \<le> LLONG_MAX then (q, any, e)
       else if q * 10 + int d \<le> LLONG_MAX then (q * 10 + int d, 1, e) else (LLONG_MAX, - 1, True))"
    and "dec_step True (char_of (48 + d :: nat)) (if - q \<ge> LLONG_MIN then (- q, any, e) else (LLONG_MIN, - 1, True)) =
      (if any < 0 \<and> - q \<ge> LLONG_MIN then (- q, any, e)
       else if - (q * 10 + int d) \<ge> LLONG_MIN then (- (q * 10 + int d), 1, e) else (LLONG_MIN, - 1, True))"
  using assms dec_digit_char(2) [OF assms(2)] by (auto simp: dec_step_def LLONG_MAX_def LLONG_MIN_def Let_def)

lemma fold_dec:
  "fold (dec_step False) (fmt_u n) (0, 0, False) = (if int n \<le> LLONG_MAX then (int n, 1, False) else (LLONG_MAX, - 1, True)) \<and>
   fold (dec_step True) (fmt_u n) (0, 0, False) = (if - int n \<ge> LLONG_MIN then (- int n, 1, False) else (LLONG_MIN, - 1, True))"
proof (induction n rule: fmt_u.induct)
  case (1 n)
  show ?case
  proof (cases "n < 10")
    case True
    then show ?thesis using dec_step_next [of 0 n 0 False]
      by (simp add: fmt_u.simps [of n] LLONG_MAX_def LLONG_MIN_def)
  next
    case False
    let ?q = "int (n div 10)"
    have n: "?q * 10 + int (n mod 10) = int n" by (metis div_mult_mod_eq of_nat_add of_nat_mult of_nat_numeral)
    have "fold (dec_step b) (fmt_u n) (0, 0, False) =
        dec_step b (char_of (48 + n mod 10)) (fold (dec_step b) (fmt_u (n div 10)) (0, 0, False))" for b
      using False by (simp add: fmt_u.simps [of n])
    then show ?thesis using 1 [OF False] dec_step_next [of ?q "n mod 10" 1 False] by (simp only: n) simp
  qed
qed

text \<open>The decimal form of an integer, with its sign.\<close>

definition dec :: "int \<Rightarrow> string" where
  "dec i = (if i < 0 then CHR ''-'' # fmt_u (nat (- i)) else fmt_u (nat i))"

lemma dec_start: "dropWhile isspace (fmt_u n) = fmt_u n" "\<exists>c s. fmt_u n = c # s \<and> isdigit c"
proof -
  have "fmt_u n \<noteq> []" by (subst fmt_u.simps) simp
  then show c: "\<exists>c s. fmt_u n = c # s \<and> isdigit c" using dec_fmt_u [of _ n] by (cases "fmt_u n") auto
  have "isdigit c \<Longrightarrow> \<not> isspace c" for c by (auto simp: isdigit_def isspace_def less_eq_char_def)
  then show "dropWhile isspace (fmt_u n) = fmt_u n" using c by auto
qed

lemma strtoll_pos:
  "strtoll (fmt_u n) 10 = (if int n > LLONG_MAX then (LLONG_MAX, [], True) else (int n, [], False))"
proof -
  obtain c s where c: "fmt_u n = c # s" and digit: "isdigit c" using dec_start(2) [of n] by blast
  have "c \<noteq> CHR ''-''" "c \<noteq> CHR ''+''" using digit by (auto simp: isdigit_def less_eq_char_def)
  note c = c this
  have "strtoll_loop 10 False 922337203685477580 7 (fmt_u n) 0 0 False =
      (if int n \<le> LLONG_MAX then (int n, 1, False, []) else (LLONG_MAX, - 1, True, []))"
    using loop_fold [of "fmt_u n" False 0 0 False] dec_fmt_u fold_dec [of n] by (simp add: dec_limits_def)
  then show ?thesis using c dec_start(1) [of n] by (simp add: strtoll_def LLONG_MAX_def)
qed

lemma strtoll_neg:
  "strtoll (CHR ''-'' # fmt_u n) 10 = (if - int n < LLONG_MIN then (LLONG_MIN, [], True) else (- int n, [], False))"
proof -
  have "\<not> isspace CHR ''-''" by (simp add: isspace_def)
  moreover have "strtoll_loop 10 True (- 922337203685477580) 8 (fmt_u n) 0 0 False =
      (if - int n \<ge> LLONG_MIN then (- int n, 1, False, []) else (LLONG_MIN, - 1, True, []))"
    using loop_fold [of "fmt_u n" True 0 0 False] dec_fmt_u fold_dec [of n] by (simp add: dec_limits_def)
  ultimately show ?thesis by (simp add: strtoll_def LLONG_MIN_def)
qed

text \<open>The text of a list of bytes has no blanks and no null byte.\<close>

lemma base64_byte_plain: "x < 64 \<Longrightarrow> \<not> is_blank (char_of_byte (base64_byte x)) \<and> base64_byte x \<noteq> 0"
proof -
  assume "x < 64"
  then have "Base64 ! unat x \<in> set Base64" by (intro nth_mem) (simp add: distinct_Base64 word_less_nat_alt)
  then show ?thesis using Base64_plain by (auto simp: base64_byte_def byte_of_char_0)
qed

lemma b64_text_plain:
  assumes "x \<in> set (b64_text src)"
  shows "\<not> is_blank (char_of_byte x)" "x \<noteq> 0"
proof -
  have pad: "\<not> is_blank Pad64" "byte_of_char Pad64 \<noteq> 0" by (simp_all add: is_blank_def Pad64_def byte_of_char_0)
  have "\<not> is_blank (char_of_byte x) \<and> x \<noteq> 0"
    using assms
  proof (induction src rule: b64_text.induct)
    case (1 i0 i1 i2 src)
    then show ?case using base64_byte_plain sextets_less by auto
  next
    case (3 i0)
    then show ?case using base64_byte_plain sextets_less pad by (auto dest!: in_set_takeD)
  next
    case (4 i0 i1)
    then show ?case using base64_byte_plain sextets_less pad by (auto dest!: in_set_takeD)
  qed simp
  then show "\<not> is_blank (char_of_byte x)" "x \<noteq> 0" by auto
qed

lemma c_string_b64_text: "c_string (b64_text src @ 0 # r) = map char_of_byte (b64_text src)"
proof -
  have "takeWhile (\<lambda>b. b \<noteq> 0) (b64_text src @ 0 # r) = b64_text src"
    using b64_text_plain(2) [of _ src] by (subst takeWhile_append2) auto
  then show ?thesis by (simp add: c_string_def)
qed

lemma uudecode_b64_text:
  assumes "length src < n" "n \<le> length target"
  shows "\<exists>q. uudecode (map char_of_byte (b64_text src)) target n = Inr (Some (length src), src @ q) \<and>
    length target = length (src @ q)"
proof -
  let ?s = "map char_of_byte (b64_text src)"
  have "\<forall>c \<in> set ?s. \<not> is_blank c" using b64_text_plain(1) by auto
  then have "takeWhile is_blank ?s = []" "dropWhile is_blank ?s = ?s" "takeWhile (\<lambda>c. \<not> is_blank c) ?s = ?s"
    by (cases ?s; simp add: takeWhile_eq_all_conv)+
  then have "uudecode ?s target n = b64_pton ?s target n" by (simp only: uudecode_def Let_def append_Nil)
  then show ?thesis using pton_loop_ok [of "[]" src n target] assms by (auto simp: b64_pton_def)
qed

section \<open>Properties\<close>

text \<open>C27: Base 64 is undone: what \<open>uuencode\<close> writes to a large enough target, \<open>uudecode\<close> turns back into the bytes, and
  it puts nothing behind them but scratch data inside of its own target.\<close>

theorem base64_round_trip:
  assumes "4 * ((length src + 2) div 3) < n" "n \<le> length target" "length src < n'" "n' \<le> length target'"
  shows "\<exists>t q. uuencode src target n = Inr (Some (4 * ((length src + 2) div 3)), t) \<and>
    uudecode (c_string t) target' n' = Inr (Some (length src), src @ q) \<and> length (src @ q) = length target'"
proof -
  have "uuencode src target n =
      Inr (Some (length (b64_text src)), b64_text src @ 0 # drop (Suc (length (b64_text src))) target)"
    using assms(1,2) by (simp add: uuencode_def b64_ntop_ok length_b64_text)
  then show ?thesis using uudecode_b64_text [OF assms(3,4)] by (auto simp: c_string_b64_text length_b64_text)
qed

theorem base64_round_trip_witness:
  "\<exists>t q. uuencode [104, 105] (replicate 8 0) 8 = Inr (Some 4, t) \<and>
    uudecode (c_string t) (replicate 8 0) 8 = Inr (Some 2, [104, 105] @ q)"
  using base64_round_trip [of "[104, 105]" 8 "replicate 8 0" 8 "replicate 8 0"] by auto

text \<open>\<open>strtonum\<close> reads the decimal form of every integer, however long it is: inside of the limits it returns
  the number, and below and above them it says so; no value wraps around.\<close>

theorem strtonum_dec:
  assumes "lo \<le> hi" "LLONG_MIN \<le> lo" "hi \<le> LLONG_MAX"
  shows "strtonum (dec i) lo hi =
    (if i < lo then (0, Some ''too small'') else if i > hi then (0, Some ''too large'') else (i, None))"
proof -
  have "dec i \<noteq> []" using dec_start(2) [of "nat i"] by (auto simp: dec_def)
  moreover have "strtoll (dec i) 10 =
      (if i < LLONG_MIN then (LLONG_MIN, [], True) else if i > LLONG_MAX then (LLONG_MAX, [], True) else (i, [], False))"
    using strtoll_pos [of "nat i"] strtoll_neg [of "nat (- i)"] by (auto simp: dec_def LLONG_MIN_def LLONG_MAX_def)
  ultimately show ?thesis using assms by (auto simp: strtonum_def LLONG_MIN_def LLONG_MAX_def)
qed

theorem strtonum_dec_witness:
  "strtonum (dec 18446744073709551616) 0 100 = (0, Some ''too large'') \<and> strtonum (dec 7) 0 100 = (7, None)"
  using strtonum_dec [of 0 100 18446744073709551616] strtonum_dec [of 0 100 7] by (simp add: LLONG_MIN_def LLONG_MAX_def)

end
