(* ===== verification/Keys.thy ===== *)
theory Keys
  imports Bignum Algs Text_Codec
begin

text \<open>
  \<open>key.cpp\<close>, \<open>ssh-rsa.cpp\<close> and \<open>ssh-dss.cpp\<close>: public keys, their forms on the wire, in a key file and for the eye, and
  signatures. A pointer that may be null is an \<open>option\<close>; using one that is null is a \<open>Mem_fault\<close>. The RSA and DSA
  operations and the digests of OpenSSL are parameters, and so is its conversion from and to decimal.
\<close>

section \<open>Keys\<close>

text \<open>The private parts are \<open>None\<close> in a public key.\<close>

record rsa =
  rsa_n :: int
  rsa_e :: int
  rsa_d :: "int option"

record dsa =
  dsa_p :: int
  dsa_q :: int
  dsa_g :: int
  dsa_pub_key :: int
  dsa_priv_key :: "int option"

record Key =
  key_ty :: key_type
  key_flags :: int
  key_rsa :: "rsa option"
  key_dsa :: "dsa option"

text \<open>\<open>RSA_sign\<close> and \<open>RSA_public_decrypt\<close> return what they write, \<open>None\<close> when they fail.\<close>

record ossl =
  RSA_size :: "rsa \<Rightarrow> nat"
  RSA_sign :: "evp_md \<Rightarrow> byte list \<Rightarrow> rsa \<Rightarrow> byte list option"
  RSA_public_decrypt :: "byte list \<Rightarrow> rsa \<Rightarrow> byte list option"
  DSA_do_sign :: "byte list \<Rightarrow> dsa \<Rightarrow> (int \<times> int) option"
  DSA_do_verify :: "byte list \<Rightarrow> int \<times> int \<Rightarrow> dsa \<Rightarrow> int"
  EVP_Digest :: "evp_md \<Rightarrow> byte list \<Rightarrow> byte list"
  BN_dec2bn :: "string \<Rightarrow> int option"
  BN_bn2dec :: "int \<Rightarrow> string option"

definition nonnull :: "'a option \<Rightarrow> 'a res" where
  "nonnull p = (case p of None \<Rightarrow> Inl Mem_fault | Some x \<Rightarrow> Inr x)"

definition key_new :: "key_type \<Rightarrow> Key res" where
  "key_new type =
     (case type of
        KEY_RSA1 \<Rightarrow> Inr \<lparr>key_ty = type, key_flags = 0, key_rsa = Some \<lparr>rsa_n = 0, rsa_e = 0, rsa_d = None\<rparr>, key_dsa = None\<rparr>
      | KEY_RSA \<Rightarrow> Inr \<lparr>key_ty = type, key_flags = 0, key_rsa = Some \<lparr>rsa_n = 0, rsa_e = 0, rsa_d = None\<rparr>, key_dsa = None\<rparr>
      | KEY_DSA \<Rightarrow> Inr \<lparr>key_ty = type, key_flags = 0, key_rsa = None,
          key_dsa = Some \<lparr>dsa_p = 0, dsa_q = 0, dsa_g = 0, dsa_pub_key = 0, dsa_priv_key = None\<rparr>\<rparr>
      | KEY_UNSPEC \<Rightarrow> Inr \<lparr>key_ty = type, key_flags = 0, key_rsa = None, key_dsa = None\<rparr>
      | KEY_NULL \<Rightarrow> Inl (Fatal ''key_new: bad key type''))"

definition key_new_private :: "key_type \<Rightarrow> Key res" where
  "key_new_private type =
     bindR (key_new type) (\<lambda>k.
     Inr (k\<lparr>key_rsa := map_option (\<lambda>r. r\<lparr>rsa_d := Some 0\<rparr>) (key_rsa k),
            key_dsa := map_option (\<lambda>d. d\<lparr>dsa_priv_key := Some 0\<rparr>) (key_dsa k)\<rparr>))"

definition key_equal :: "Key option \<Rightarrow> Key option \<Rightarrow> bool res" where
  "key_equal a b =
     (case (a, b) of (Some a, Some b) \<Rightarrow>
        if key_ty a \<noteq> key_ty b then Inr False
        else if key_ty a = KEY_RSA1 \<or> key_ty a = KEY_RSA then
          Inr (case (key_rsa a, key_rsa b) of
            (Some x, Some y) \<Rightarrow> rsa_e x = rsa_e y \<and> rsa_n x = rsa_n y | _ \<Rightarrow> False)
        else if key_ty a = KEY_DSA then
          Inr (case (key_dsa a, key_dsa b) of
            (Some x, Some y) \<Rightarrow> dsa_p x = dsa_p y \<and> dsa_q x = dsa_q y \<and> dsa_g x = dsa_g y \<and> dsa_pub_key x = dsa_pub_key y
            | _ \<Rightarrow> False)
        else Inl (Fatal ''key_equal: bad key type'')
      | _ \<Rightarrow> Inr False)"

definition key_type_name :: "Key \<Rightarrow> string" where
  "key_type_name k =
     (case key_ty k of KEY_RSA1 \<Rightarrow> ''RSA1'' | KEY_RSA \<Rightarrow> ''RSA'' | KEY_DSA \<Rightarrow> ''DSA'' | _ \<Rightarrow> ''unknown'')"

definition key_ssh_name :: "Key \<Rightarrow> string" where
  "key_ssh_name k = (case key_ty k of KEY_RSA \<Rightarrow> ''ssh-rsa'' | KEY_DSA \<Rightarrow> ''ssh-dss'' | _ \<Rightarrow> ''ssh-unknown'')"

definition key_size :: "bn_lib \<Rightarrow> Key \<Rightarrow> int res" where
  "key_size L k =
     (if key_ty k = KEY_RSA1 \<or> key_ty k = KEY_RSA then bindR (nonnull (key_rsa k)) (\<lambda>r. Inr (BN_num_bits L (rsa_n r)))
      else if key_ty k = KEY_DSA then bindR (nonnull (key_dsa k)) (\<lambda>d. Inr (BN_num_bits L (dsa_p d)))
      else Inr 0)"

text \<open>The public parts of a key, as a key of its own.\<close>

definition public_rsa :: "rsa \<Rightarrow> rsa" where
  "public_rsa r = \<lparr>rsa_n = rsa_n r, rsa_e = rsa_e r, rsa_d = None\<rparr>"

definition public_dsa :: "dsa \<Rightarrow> dsa" where
  "public_dsa d = \<lparr>dsa_p = dsa_p d, dsa_q = dsa_q d, dsa_g = dsa_g d, dsa_pub_key = dsa_pub_key d, dsa_priv_key = None\<rparr>"

definition key_from_private :: "Key \<Rightarrow> Key res" where
  "key_from_private k =
     (if key_ty k = KEY_DSA then
        bindR (key_new (key_ty k)) (\<lambda>n. bindR (nonnull (key_dsa k)) (\<lambda>d. Inr (n\<lparr>key_dsa := Some (public_dsa d)\<rparr>)))
      else if key_ty k = KEY_RSA \<or> key_ty k = KEY_RSA1 then
        bindR (key_new (key_ty k)) (\<lambda>n. bindR (nonnull (key_rsa k)) (\<lambda>r. Inr (n\<lparr>key_rsa := Some (public_rsa r)\<rparr>)))
      else Inl (Fatal ''key_from_private: unknown type''))"

definition key_demote :: "Key \<Rightarrow> Key res" where
  "key_demote k =
     (let pk = \<lparr>key_ty = key_ty k, key_flags = key_flags k, key_rsa = None, key_dsa = None\<rparr> in
      if key_ty k = KEY_RSA1 \<or> key_ty k = KEY_RSA then
        bindR (nonnull (key_rsa k)) (\<lambda>r. Inr (pk\<lparr>key_rsa := Some (public_rsa r)\<rparr>))
      else if key_ty k = KEY_DSA then
        bindR (nonnull (key_dsa k)) (\<lambda>d. Inr (pk\<lparr>key_dsa := Some (public_dsa d)\<rparr>))
      else Inl (Fatal ''key_free: bad key type''))"

definition key_names_valid2 :: "string option \<Rightarrow> bool" where
  "key_names_valid2 nms =
     (case nms of None \<Rightarrow> False
      | Some s \<Rightarrow> s \<noteq> [] \<and>
          all_names (\<lambda>p. key_type_from_name p \<noteq> KEY_RSA1 \<and> key_type_from_name p \<noteq> KEY_UNSPEC) (Some s))"

section \<open>The form on the wire\<close>

text \<open>\<open>None\<close> for the null pointer.\<close>

definition key_from_blob :: "bn_lib \<Rightarrow> byte list \<Rightarrow> Key option res" where
  "key_from_blob L blob =
     bindR (buffer_append buffer_init blob) (\<lambda>b.
     bindR (buffer_get_string_ret b) (\<lambda>(ktype, b).
     case ktype of None \<Rightarrow> Inr None
     | Some ktype \<Rightarrow>
         let type = key_type_from_name (c_string ktype) in
         if type = KEY_RSA then
           bindR (key_new type) (\<lambda>key.
           bindR (buffer_get_bignum2_ret L b) (\<lambda>(e, b).
           case e of None \<Rightarrow> Inr None
           | Some e \<Rightarrow>
               bindR (buffer_get_bignum2_ret L b) (\<lambda>(n, b).
               case n of None \<Rightarrow> Inr None
               | Some n \<Rightarrow> Inr (Some (key\<lparr>key_rsa := Some \<lparr>rsa_n = n, rsa_e = e, rsa_d = None\<rparr>\<rparr>)))))
         else if type = KEY_DSA then
           bindR (key_new type) (\<lambda>key.
           bindR (buffer_get_bignum2_ret L b) (\<lambda>(p, b).
           case p of None \<Rightarrow> Inr None
           | Some p \<Rightarrow>
               bindR (buffer_get_bignum2_ret L b) (\<lambda>(q, b).
               case q of None \<Rightarrow> Inr None
               | Some q \<Rightarrow>
                   bindR (buffer_get_bignum2_ret L b) (\<lambda>(g, b).
                   case g of None \<Rightarrow> Inr None
                   | Some g \<Rightarrow>
                       bindR (buffer_get_bignum2_ret L b) (\<lambda>(y, b).
                       case y of None \<Rightarrow> Inr None
                       | Some y \<Rightarrow> Inr (Some (key\<lparr>key_dsa :=
                           Some \<lparr>dsa_p = p, dsa_q = q, dsa_g = g, dsa_pub_key = y, dsa_priv_key = None\<rparr>\<rparr>)))))))
         else if type = KEY_UNSPEC then bindR (key_new type) (\<lambda>key. Inr (Some key))
         else Inr None))"

text \<open>The bytes of the blob; \<open>None\<close> for the return value 0.\<close>

definition key_to_blob :: "bn_lib \<Rightarrow> Key option \<Rightarrow> byte list option res" where
  "key_to_blob L key =
     (case key of None \<Rightarrow> Inr None
      | Some k \<Rightarrow>
          if key_ty k = KEY_DSA then
            bindR (buffer_put_cstring buffer_init (Some (bytes_of_string (key_ssh_name k)))) (\<lambda>b.
            bindR (nonnull (key_dsa k)) (\<lambda>d.
            bindR (buffer_put_bignum2 L b (dsa_p d)) (\<lambda>b.
            bindR (buffer_put_bignum2 L b (dsa_q d)) (\<lambda>b.
            bindR (buffer_put_bignum2 L b (dsa_g d)) (\<lambda>b.
            bindR (buffer_put_bignum2 L b (dsa_pub_key d)) (\<lambda>b. Inr (Some (bytes b))))))))
          else if key_ty k = KEY_RSA then
            bindR (buffer_put_cstring buffer_init (Some (bytes_of_string (key_ssh_name k)))) (\<lambda>b.
            bindR (nonnull (key_rsa k)) (\<lambda>r.
            bindR (buffer_put_bignum2 L b (rsa_e r)) (\<lambda>b.
            bindR (buffer_put_bignum2 L b (rsa_n r)) (\<lambda>b. Inr (Some (bytes b))))))
          else Inr None)"

section \<open>The form in a key file\<close>

text \<open>The number and the rest of the text; \<open>None\<close> when there is no number.\<close>

definition read_bignum :: "ossl \<Rightarrow> string \<Rightarrow> (int \<times> string) option" where
  "read_bignum S cp =
     (let cp = dropWhile is_blank cp in
      if \<not> (case cp of [] \<Rightarrow> False | c # _ \<Rightarrow> isdigit c) then None
      else case BN_dec2bn S (takeWhile isdigit cp) of None \<Rightarrow> None | Some v \<Rightarrow> Some (v, dropWhile isdigit cp))"

definition write_bignum :: "ossl \<Rightarrow> int \<Rightarrow> string option" where
  "write_bignum S num = map_option (\<lambda>buf. CHR '' '' # buf) (BN_bn2dec S num)"

text \<open>The bit count of an RSA 1 key, a \<open>u_int\<close>.\<close>

definition read_bits :: "string \<Rightarrow> u32" where
  "read_bits ds = foldl (\<lambda>bits c. 10 * bits + of_nat (of_char c) - 48) 0 ds"

text \<open>An RSA 1 key: success, the key and the rest of the text.\<close>

definition key_read_rsa1 :: "ossl \<Rightarrow> Key \<Rightarrow> string \<Rightarrow> (bool \<times> Key \<times> string) res" where
  "key_read_rsa1 S ret cp =
     (let ds = takeWhile isdigit cp in
      if ds = [] \<or> read_bits ds = 0 then Inr (False, ret, cp)
      else bindR (nonnull (key_rsa ret)) (\<lambda>rsa.
        case read_bignum S (dropWhile isdigit cp) of None \<Rightarrow> Inr (False, ret, dropWhile isdigit cp)
        | Some (e, r) \<Rightarrow>
            let ret = ret\<lparr>key_rsa := Some (rsa\<lparr>rsa_e := e\<rparr>)\<rparr> in
            case read_bignum S r of None \<Rightarrow> Inr (False, ret, r)
            | Some (n, r) \<Rightarrow> Inr (True, ret\<lparr>key_rsa := Some (rsa\<lparr>rsa_e := e, rsa_n := n\<rparr>)\<rparr>, r)))"

definition key_read :: "bn_lib \<Rightarrow> ossl \<Rightarrow> Key \<Rightarrow> string \<Rightarrow> (bool \<times> Key \<times> string) res" where
  "key_read L S ret cpp =
     (if key_ty ret = KEY_RSA1 then key_read_rsa1 S ret cpp
      else if key_ty ret = KEY_NULL then Inl (Fatal ''key_read: bad key type:'')
      else if CHR '' '' \<notin> set cpp then Inr (False, ret, cpp)
      else
        let type = key_type_from_name (takeWhile (\<lambda>c. c \<noteq> CHR '' '') cpp);
            cp = drop 1 (dropWhile (\<lambda>c. c \<noteq> CHR '' '') cpp) in
        if type = KEY_UNSPEC then Inr (False, ret, cpp)
        else if cp = [] then Inr (False, ret, cpp)
        else if key_ty ret \<noteq> KEY_UNSPEC \<and> key_ty ret \<noteq> type then Inr (False, ret, cpp)
        else
          let ret = ret\<lparr>key_ty := type\<rparr> in
          bindR (xmalloc (2 * length cp)) (\<lambda>blob.
          bindR (uudecode cp blob (2 * length cp)) (\<lambda>(n, blob).
          case n of None \<Rightarrow> Inr (False, ret, cpp)
          | Some n \<Rightarrow>
              bindR (key_from_blob L (take n blob)) (\<lambda>k.
              case k of None \<Rightarrow> Inr (False, ret, cpp)
              | Some k \<Rightarrow>
                  if key_ty k \<noteq> type then Inr (False, ret, cpp)
                  else
                    let ret = (if key_ty ret = KEY_RSA then ret\<lparr>key_rsa := key_rsa k\<rparr> else ret\<lparr>key_dsa := key_dsa k\<rparr>) in
                    Inr (True, ret, dropWhile (\<lambda>c. \<not> is_blank c) (dropWhile is_blank cp))))))"

text \<open>What is written to the file, and whether it is a key.\<close>

definition key_write :: "bn_lib \<Rightarrow> ossl \<Rightarrow> Key \<Rightarrow> (bool \<times> string) res" where
  "key_write L S key =
     (if key_ty key = KEY_RSA1 \<and> key_rsa key \<noteq> None then
        let rsa = the (key_rsa key); bits = fmt_u (unat (word_of_int (BN_num_bits L (rsa_n rsa)) :: u32)) in
        Inr (case write_bignum S (rsa_e rsa) of None \<Rightarrow> (False, bits)
          | Some e \<Rightarrow> (case write_bignum S (rsa_n rsa) of None \<Rightarrow> (False, bits @ e) | Some n \<Rightarrow> (True, bits @ e @ n)))
      else if key_ty key = KEY_DSA \<and> key_dsa key \<noteq> None \<or> key_ty key = KEY_RSA \<and> key_rsa key \<noteq> None then
        bindR (key_to_blob L (Some key)) (\<lambda>blob.
        bindR (nonnull blob) (\<lambda>blob.
        bindR (xmalloc (2 * length blob)) (\<lambda>uu.
        bindR (uuencode blob uu (2 * length blob)) (\<lambda>(n, uu).
        Inr (case n of None \<Rightarrow> (False, [])
          | Some n \<Rightarrow> if n > 0 then (True, key_ssh_name key @ '' '' @ c_string uu) else (False, []))))))
      else Inr (False, []))"

section \<open>Fingerprints\<close>

datatype fp_type = SSH_FP_SHA1 | SSH_FP_MD5
datatype fp_rep = SSH_FP_HEX | SSH_FP_BUBBLEBABBLE | SSH_FP_RANDOMART

definition key_fingerprint_raw :: "bn_lib \<Rightarrow> ossl \<Rightarrow> Key \<Rightarrow> fp_type \<Rightarrow> byte list option res" where
  "key_fingerprint_raw L S k dgst_type =
     (let md = (case dgst_type of SSH_FP_MD5 \<Rightarrow> EVP_md5 | SSH_FP_SHA1 \<Rightarrow> EVP_sha1) in
      case key_ty k of
        KEY_RSA1 \<Rightarrow> bindR (nonnull (key_rsa k)) (\<lambda>r.
          bindR (xmalloc (nat (BN_num_bytes L (rsa_n r) + BN_num_bytes L (rsa_e r)))) (\<lambda>m.
          bindR (mem_write m 0 (BN_bn2bin L (rsa_n r))) (\<lambda>m.
          bindR (mem_write m (nat (BN_num_bytes L (rsa_n r))) (BN_bn2bin L (rsa_e r))) (\<lambda>m.
          Inr (Some (EVP_Digest S md m))))))
      | KEY_UNSPEC \<Rightarrow> Inr None
      | KEY_NULL \<Rightarrow> Inl (Fatal ''key_fingerprint_raw: bad key type'')
      | _ \<Rightarrow> bindR (key_to_blob L (Some k)) (\<lambda>blob.
          case blob of None \<Rightarrow> Inl (Fatal ''key_fingerprint_raw: blob is null'')
          | Some blob \<Rightarrow> Inr (Some (EVP_Digest S md blob))))"

definition hex_digit :: "nat \<Rightarrow> char" where
  "hex_digit n = ''0123456789abcdef'' ! n"

definition hex2 :: "byte \<Rightarrow> string" where
  "hex2 b = [hex_digit (unat b div 16), hex_digit (unat b mod 16)]"

definition key_fingerprint_hex :: "byte list \<Rightarrow> string res" where
  "key_fingerprint_hex dgst_raw =
     (if dgst_raw = [] then Inl Mem_fault
      else Inr (butlast (concat (map (\<lambda>b. hex2 b @ '':'') dgst_raw))))"

definition tohex :: "byte list \<Rightarrow> string" where
  "tohex vp = (if length vp > 65536 then ''tohex: length > 65536'' else concat (map hex2 vp))"

definition vowel :: "nat \<Rightarrow> char" where "vowel i = ''aeiouy'' ! i"
definition consonant :: "nat \<Rightarrow> char" where "consonant i = ''bcdfghklmnprstvzx'' ! i"

text \<open>The loop of \<open>key_fingerprint_bubblebabble\<close> from round \<open>i\<close> on, with its \<open>seed\<close>.\<close>

function babble_loop :: "byte list \<Rightarrow> nat \<Rightarrow> nat \<Rightarrow> nat \<Rightarrow> string" where
  "babble_loop d rounds i seed =
     (if i \<ge> rounds then []
      else if i + 1 < rounds \<or> length d mod 2 \<noteq> 0 then
        let b0 = unat (d ! (2 * i)); part = [vowel ((b0 div 64 mod 4 + seed) mod 6), consonant (b0 div 4 mod 16),
              vowel ((b0 mod 4 + seed div 6) mod 6)] in
        if i + 1 < rounds then
          let b1 = unat (d ! (2 * i + 1)) in
          part @ [consonant (b1 div 16 mod 16), CHR ''-'', consonant (b1 mod 16)] @
            babble_loop d rounds (i + 1) ((seed * 5 + (b0 * 7 + b1)) mod 36)
        else part @ babble_loop d rounds (i + 1) seed
      else [vowel (seed mod 6), consonant 16, vowel (seed div 6)] @ babble_loop d rounds (i + 1) seed)"
  by pat_completeness auto
termination by (relation "measure (\<lambda>(_, rounds, i, _). rounds - i)") auto

declare babble_loop.simps [simp del]

definition key_fingerprint_bubblebabble :: "byte list \<Rightarrow> string" where
  "key_fingerprint_bubblebabble d = ''x'' @ babble_loop d (length d div 2 + 1) 0 1 @ ''x''"

definition FLDSIZE_Y :: nat where "FLDSIZE_Y = 9"
definition FLDSIZE_X :: nat where "FLDSIZE_X = 17"

definition augmentation_string :: string where "augmentation_string = '' .o+=*BOX@%&#/^SE''"

text \<open>A move of the worm: two bits of the byte, at the walls it stays.\<close>

definition art_move :: "nat \<Rightarrow> (nat \<times> nat \<Rightarrow> byte) \<times> int \<times> int \<Rightarrow> (nat \<times> nat \<Rightarrow> byte) \<times> int \<times> int" where
  "art_move inp st =
     (let (field, x, y) = st;
          x = x + (if inp mod 2 = 1 then 1 else - 1);
          y = y + (if inp div 2 mod 2 = 1 then 1 else - 1);
          x = min (max x 0) (int FLDSIZE_X - 1);
          y = min (max y 0) (int FLDSIZE_Y - 1);
          c = (nat x, nat y)
      in (field(c := field c + 1), x, y))"

definition art_byte :: "byte \<Rightarrow> (nat \<times> nat \<Rightarrow> byte) \<times> int \<times> int \<Rightarrow> (nat \<times> nat \<Rightarrow> byte) \<times> int \<times> int" where
  "art_byte b st =
     (let n = unat b in art_move (n div 64) (art_move (n div 16) (art_move (n div 4) (art_move n st))))"

definition pad_left :: "nat \<Rightarrow> string \<Rightarrow> string" where
  "pad_left w s = replicate (w - length s) CHR '' '' @ s"

definition key_fingerprint_randomart :: "bn_lib \<Rightarrow> byte list \<Rightarrow> Key \<Rightarrow> string res" where
  "key_fingerprint_randomart L dgst_raw k =
     (let len = length augmentation_string - 1;
          (field, x, y) = fold art_byte dgst_raw (\<lambda>_. 0, int (FLDSIZE_X div 2), int (FLDSIZE_Y div 2));
          field = field((FLDSIZE_X div 2, FLDSIZE_Y div 2) := of_nat (len - 1));
          field = field((nat x, nat y) := of_nat len)
      in bindR (key_size L k) (\<lambda>size.
        let head = take (FLDSIZE_X - 1) (''+--['' @ pad_left 4 (key_type_name k) @ '' '' @
              pad_left 4 (fmt_u (unat (word_of_int size :: u32))) @ '']'');
            top = head @ replicate (FLDSIZE_X - (length head - 1)) CHR ''-'' @ [CHR ''+'', CHR 0x0A];
            row = (\<lambda>y. [CHR ''|''] @ map (\<lambda>x. augmentation_string ! min (unat (field (x, y))) len) [0..<FLDSIZE_X] @
              [CHR ''|'', CHR 0x0A]);
            bottom = [CHR ''+''] @ replicate FLDSIZE_X CHR ''-'' @ [CHR ''+'']
        in Inr (top @ concat (map row [0..<FLDSIZE_Y]) @ bottom)))"

definition key_fingerprint :: "bn_lib \<Rightarrow> ossl \<Rightarrow> Key \<Rightarrow> fp_type \<Rightarrow> fp_rep \<Rightarrow> string res" where
  "key_fingerprint L S k dgst_type dgst_rep =
     bindR (key_fingerprint_raw L S k dgst_type) (\<lambda>raw.
     case raw of None \<Rightarrow> Inl (Fatal ''key_fingerprint: null from key_fingerprint_raw()'')
     | Some raw \<Rightarrow> (case dgst_rep of
         SSH_FP_HEX \<Rightarrow> key_fingerprint_hex raw
       | SSH_FP_BUBBLEBABBLE \<Rightarrow> Inr (key_fingerprint_bubblebabble raw)
       | SSH_FP_RANDOMART \<Rightarrow> key_fingerprint_randomart L raw k))"

section \<open>Signatures\<close>

text \<open>\<open>None\<close> is the return value -1.\<close>

definition sig_md :: "u32 \<Rightarrow> evp_md" where
  "sig_md datafellows = (if datafellows AND SSH_BUG_RSASIGMD5 \<noteq> 0 then EVP_md5 else EVP_sha1)"

definition ssh_rsa_sign :: "ossl \<Rightarrow> u32 \<Rightarrow> Key option \<Rightarrow> byte list \<Rightarrow> byte list option res" where
  "ssh_rsa_sign S datafellows key data =
     (case key of None \<Rightarrow> Inr None
      | Some k \<Rightarrow>
          if key_ty k \<noteq> KEY_RSA then Inr None
          else case key_rsa k of None \<Rightarrow> Inr None
          | Some rsa \<Rightarrow>
              let md = sig_md datafellows; slen = RSA_size S rsa in
              bindR (xmalloc slen) (\<lambda>_.
              case RSA_sign S md (EVP_Digest S md data) rsa of None \<Rightarrow> Inr None
              | Some sig \<Rightarrow>
                  if length sig > slen then Inr None
                  else
                    let sig = replicate (slen - length sig) 0 @ sig in
                    bindR (buffer_put_cstring buffer_init (Some (bytes_of_string ''ssh-rsa''))) (\<lambda>b.
                    bindR (buffer_put_string b sig) (\<lambda>b. Inr (Some (bytes b))))))"

text \<open>The DER prefixes, one type and length, or one object identifier, after the other.\<close>

definition id_sha1 :: "byte list" where
  "id_sha1 = [0x30, 33] @ [0x30, 9] @ [0x06, 5] @ [0x2b, 0x0e, 3, 2, 0x1a] @ [0x05, 0] @ [0x04, 20]"

definition id_md5 :: "byte list" where
  "id_md5 = [0x30, 32] @ [0x30, 12] @ [0x06, 8] @ [0x2a, 0x86, 0x48, 0x86, 0xF7, 0x0D, 2, 5] @ [0x05, 0] @ [0x04, 16]"

definition openssh_RSA_verify :: "ossl \<Rightarrow> evp_md \<Rightarrow> byte list \<Rightarrow> byte list \<Rightarrow> rsa \<Rightarrow> bool" where
  "openssh_RSA_verify S type hash sigbuf rsa =
     (let (oid, hlen) = (if type = EVP_sha1 then (id_sha1, 20) else if type = EVP_md5 then (id_md5, 16) else ([], 0)) in
      if type \<noteq> EVP_sha1 \<and> type \<noteq> EVP_md5 then False
      else if length hash \<noteq> hlen then False
      else if sigbuf = [] \<or> length sigbuf > RSA_size S rsa then False
      else case RSA_public_decrypt S sigbuf rsa of None \<Rightarrow> False
      | Some decrypted \<Rightarrow>
          length decrypted = hlen + length oid \<and> take (length oid) decrypted = oid \<and>
          take hlen (drop (length oid) decrypted) = hash)"

definition SSH_RSA_MINIMUM_MODULUS_SIZE :: int where "SSH_RSA_MINIMUM_MODULUS_SIZE = 768"

definition ssh_rsa_verify :: "bn_lib \<Rightarrow> ossl \<Rightarrow> u32 \<Rightarrow> Key option \<Rightarrow> byte list \<Rightarrow> byte list \<Rightarrow> int res" where
  "ssh_rsa_verify L S datafellows key signature data =
     (case key of None \<Rightarrow> Inr (- 1)
      | Some k \<Rightarrow>
          if key_ty k \<noteq> KEY_RSA then Inr (- 1)
          else case key_rsa k of None \<Rightarrow> Inr (- 1)
          | Some rsa \<Rightarrow>
              if BN_num_bits L (rsa_n rsa) < SSH_RSA_MINIMUM_MODULUS_SIZE then Inr (- 1)
              else
                bindR (buffer_append buffer_init signature) (\<lambda>b.
                bindR (buffer_get_string b) (\<lambda>(ktype, b).
                if c_string ktype \<noteq> ''ssh-rsa'' then Inr (- 1)
                else
                  bindR (buffer_get_string b) (\<lambda>(sigblob, b).
                  if buffer_len b \<noteq> 0 then Inr (- 1)
                  else
                    let modlen = RSA_size S rsa in
                    if length sigblob > modlen then Inr (- 1)
                    else
                      let sigblob = replicate (modlen - length sigblob) 0 @ sigblob; md = sig_md datafellows in
                      Inr (if openssh_RSA_verify S md (EVP_Digest S md data) sigblob rsa then 1 else 0)))))"

definition INTBLOB_LEN :: nat where "INTBLOB_LEN = 20"
definition SIGBLOB_LEN :: nat where "SIGBLOB_LEN = 2 * INTBLOB_LEN"

definition ssh_dss_sign :: "bn_lib \<Rightarrow> ossl \<Rightarrow> u32 \<Rightarrow> Key option \<Rightarrow> byte list \<Rightarrow> byte list option res" where
  "ssh_dss_sign L S datafellows key data =
     (case key of None \<Rightarrow> Inr None
      | Some k \<Rightarrow>
          if key_ty k \<noteq> KEY_DSA then Inr None
          else case key_dsa k of None \<Rightarrow> Inr None
          | Some dsa \<Rightarrow>
              (case DSA_do_sign S (EVP_Digest S EVP_sha1 data) dsa of None \<Rightarrow> Inr None
               | Some (r, s) \<Rightarrow>
                   let rlen = nat (BN_num_bytes L r); slen = nat (BN_num_bytes L s) in
                   if rlen > INTBLOB_LEN \<or> slen > INTBLOB_LEN then Inr None
                   else
                     bindR (mem_write (replicate SIGBLOB_LEN 0) (SIGBLOB_LEN - INTBLOB_LEN - rlen) (BN_bn2bin L r)) (\<lambda>sigblob.
                     bindR (mem_write sigblob (SIGBLOB_LEN - slen) (BN_bn2bin L s)) (\<lambda>sigblob.
                     if datafellows AND SSH_BUG_SIGBLOB \<noteq> 0 then Inr (Some sigblob)
                     else
                       bindR (buffer_put_cstring buffer_init (Some (bytes_of_string ''ssh-dss''))) (\<lambda>b.
                       bindR (buffer_put_string b sigblob) (\<lambda>b. Inr (Some (bytes b))))))))"

text \<open>The signature blob, \<open>None\<close> for the return value -1.\<close>

definition dss_sigblob :: "u32 \<Rightarrow> byte list \<Rightarrow> byte list option res" where
  "dss_sigblob datafellows signature =
     (if datafellows AND SSH_BUG_SIGBLOB \<noteq> 0 then Inr (Some signature)
      else
        bindR (buffer_append buffer_init signature) (\<lambda>b.
        bindR (buffer_get_string b) (\<lambda>(ktype, b).
        if c_string ktype \<noteq> ''ssh-dss'' then Inr None
        else bindR (buffer_get_string b) (\<lambda>(sigblob, b). Inr (if buffer_len b \<noteq> 0 then None else Some sigblob)))))"

definition ssh_dss_verify :: "bn_lib \<Rightarrow> ossl \<Rightarrow> u32 \<Rightarrow> Key option \<Rightarrow> byte list \<Rightarrow> byte list \<Rightarrow> int res" where
  "ssh_dss_verify L S datafellows key signature data =
     (case key of None \<Rightarrow> Inr (- 1)
      | Some k \<Rightarrow>
          if key_ty k \<noteq> KEY_DSA then Inr (- 1)
          else case key_dsa k of None \<Rightarrow> Inr (- 1)
          | Some dsa \<Rightarrow>
              bindR (dss_sigblob datafellows signature) (\<lambda>sigblob.
              case sigblob of None \<Rightarrow> Inr (- 1)
              | Some sigblob \<Rightarrow>
                  bindR (guardR (length sigblob = SIGBLOB_LEN) ''bad sigbloblen'') (\<lambda>_.
                  bindR (someR (BN_bin2bn L (take INTBLOB_LEN sigblob)) ''ssh_dss_verify: BN_bin2bn failed'') (\<lambda>r.
                  bindR (someR (BN_bin2bn L (drop INTBLOB_LEN sigblob)) ''ssh_dss_verify: BN_bin2bn failed'') (\<lambda>s.
                  Inr (DSA_do_verify S (EVP_Digest S EVP_sha1 data) (r, s) dsa))))))"

definition key_sign :: "bn_lib \<Rightarrow> ossl \<Rightarrow> u32 \<Rightarrow> Key \<Rightarrow> byte list \<Rightarrow> byte list option res" where
  "key_sign L S datafellows key data =
     (case key_ty key of KEY_DSA \<Rightarrow> ssh_dss_sign L S datafellows (Some key) data
      | KEY_RSA \<Rightarrow> ssh_rsa_sign S datafellows (Some key) data
      | _ \<Rightarrow> Inr None)"

definition key_verify :: "bn_lib \<Rightarrow> ossl \<Rightarrow> u32 \<Rightarrow> Key \<Rightarrow> byte list \<Rightarrow> byte list \<Rightarrow> int res" where
  "key_verify L S datafellows key signature data =
     (if signature = [] then Inr (- 1)
      else case key_ty key of KEY_DSA \<Rightarrow> ssh_dss_verify L S datafellows (Some key) signature data
      | KEY_RSA \<Rightarrow> ssh_rsa_verify L S datafellows (Some key) signature data
      | _ \<Rightarrow> Inr (- 1))"

section \<open>Host keys (SensitiveData.cpp)\<close>

text \<open>The table of the host keys, \<open>None\<close> where a file could not be loaded.\<close>

definition list_hostkey_types :: "Key option list \<Rightarrow> string" where
  "list_hostkey_types host_keys =
     foldl (\<lambda>b k. case k of None \<Rightarrow> b
       | Some key \<Rightarrow> if key_ty key = KEY_RSA \<or> key_ty key = KEY_DSA
           then (if b = [] then b else b @ '','') @ key_ssh_name key else b) [] host_keys"

definition get_hostkey_by_type :: "Key option list \<Rightarrow> key_type \<Rightarrow> Key option" where
  "get_hostkey_by_type host_keys type =
     (case find (\<lambda>k. case k of None \<Rightarrow> False | Some key \<Rightarrow> key_ty key = type) host_keys of None \<Rightarrow> None | Some k \<Rightarrow> k)"

definition get_hostkey_by_index :: "Key option list \<Rightarrow> int \<Rightarrow> Key option" where
  "get_hostkey_by_index host_keys ind =
     (if ind < 0 \<or> ind \<ge> int (length host_keys) then None else host_keys ! nat ind)"

text \<open>Loading at start: what \<open>key_load_private\<close> returns for each file. An SSH 1 key and having no key are fatal.\<close>

fun load_keys :: "Key option list \<Rightarrow> bool \<Rightarrow> bool res" where
  "load_keys [] have_ssh2 = Inr have_ssh2"
| "load_keys (k # ks) have_ssh2 =
     (case k of None \<Rightarrow> load_keys ks have_ssh2
      | Some key \<Rightarrow>
          if key_ty key = KEY_RSA1 then Inl (Fatal ''SSH1 is not supported (found RSA1 hostkey)'')
          else load_keys ks (if key_ty key = KEY_RSA \<or> key_ty key = KEY_DSA then True else have_ssh2))"

definition SensitiveData_load :: "Key option list \<Rightarrow> Key option list res" where
  "SensitiveData_load loaded =
     bindR (load_keys loaded False) (\<lambda>have_ssh2_key.
     if have_ssh2_key then Inr loaded else Inl (Fatal ''sshd: no hostkeys available -- exiting.''))"

section \<open>Keys survive the wire\<close>

text \<open>The numbers of a key in the order of its blob.\<close>

definition key_numbers :: "Key \<Rightarrow> int list" where
  "key_numbers k =
     (if key_ty k = KEY_RSA then (case key_rsa k of None \<Rightarrow> [] | Some r \<Rightarrow> [rsa_e r, rsa_n r])
      else (case key_dsa k of None \<Rightarrow> [] | Some d \<Rightarrow> [dsa_p d, dsa_q d, dsa_g d, dsa_pub_key d]))"

definition ok_key :: "bn_lib \<Rightarrow> Key \<Rightarrow> bool" where
  "ok_key L k \<longleftrightarrow> (key_ty k = KEY_RSA \<and> key_rsa k \<noteq> None \<or> key_ty k = KEY_DSA \<and> key_dsa k \<noteq> None) \<and>
     list_all (ok_bignum2 L) (key_numbers k)"

definition key_bytes :: "bn_lib \<Rightarrow> Key \<Rightarrow> byte list" where
  "key_bytes L k = enc_string (bytes_of_string (key_ssh_name k)) @ concat (map (enc_bignum2 L) (key_numbers k))"

definition public_key :: "Key \<Rightarrow> Key" where
  "public_key k =
     (if key_ty k = KEY_RSA then \<lparr>key_ty = KEY_RSA, key_flags = 0, key_rsa = map_option public_rsa (key_rsa k), key_dsa = None\<rparr>
      else \<lparr>key_ty = KEY_DSA, key_flags = 0, key_rsa = None, key_dsa = map_option public_dsa (key_dsa k)\<rparr>)"

lemma public_key_equal: "ok_key L k \<Longrightarrow> key_equal (Some k) (Some (public_key k)) = Inr True"
  by (auto simp: ok_key_def key_equal_def public_key_def public_rsa_def public_dsa_def)

lemma ssh_name_cstring:
  "takeWhile (\<lambda>c. c \<noteq> 0) (bytes_of_string (key_ssh_name k)) = bytes_of_string (key_ssh_name k)"
  "c_string (bytes_of_string (key_ssh_name k)) = key_ssh_name k" "length (key_ssh_name k) \<le> 11"
proof -
  have n: "no_null (key_ssh_name k)" by (simp add: key_ssh_name_def no_null_def split: key_type.split)
  then show "takeWhile (\<lambda>c. c \<noteq> 0) (bytes_of_string (key_ssh_name k)) = bytes_of_string (key_ssh_name k)"
    by (auto simp: bytes_of_string_def byte_of_char_0 no_null_def takeWhile_eq_all_conv)
  show "c_string (bytes_of_string (key_ssh_name k)) = key_ssh_name k" using n by (rule c_string_bytes_of_string)
  show "length (key_ssh_name k) \<le> 11" by (simp add: key_ssh_name_def split: key_type.split)
qed

context openssl_bn
begin

lemma length_enc_bignum2: "ok_bignum2 L v \<Longrightarrow> length (enc_bignum2 L v) \<le> 8196"
  using length_mpint(1) by (simp add: enc_bignum2_def enc_string_def)

lemma length_key_bytes:
  assumes "ok_key L k"
  shows "length (key_bytes L k) \<le> 0x8100" "11 \<le> length (key_bytes L k)"
proof -
  have "length (concat (map (enc_bignum2 L) vs)) \<le> length vs * 8196" if "list_all (ok_bignum2 L) vs" for vs
    using that
  proof (induction vs)
    case (Cons v vs)
    then show ?case using length_enc_bignum2 [of v] by simp
  qed simp
  from this [of "key_numbers k"] assms
  have "length (concat (map (enc_bignum2 L) (key_numbers k))) \<le> length (key_numbers k) * 8196"
    by (simp add: ok_key_def)
  moreover have "length (key_numbers k) \<le> 4" by (simp add: key_numbers_def split: option.split)
  ultimately show "length (key_bytes L k) \<le> 0x8100"
    using ssh_name_cstring(3) [of k] by (simp add: key_bytes_def enc_string_def)
  have "7 \<le> length (key_ssh_name k)" by (simp add: key_ssh_name_def split: key_type.split)
  then show "11 \<le> length (key_bytes L k)" by (simp add: key_bytes_def enc_string_def)
qed

lemma put_numbers:
  assumes "list_all (ok_bignum2 L) vs" "room b (length vs * 0x12002)"
  shows "\<exists>b'. put_seq (buffer_put_bignum2 L) b vs = Inr b' \<and> bytes b' = bytes b @ concat (map (enc_bignum2 L) vs)"
  using assms
proof (induction vs arbitrary: b)
  case (Cons v vs)
  have "room b (0x12002 + length vs * 0x12002)" using Cons.prems(2) by (rule room_mono) simp
  then obtain c where "buffer_put_bignum2 L b v = Inr c" "room c (length vs * 0x12002)" "bytes c = bytes b @ enc_bignum2 L v"
    using put_bignum2_room [of v b] Cons.prems(1) by auto
  then show ?case using Cons.IH [of c] Cons.prems(1) by auto
qed simp

lemma key_to_blob_ok:
  assumes "ok_key L k"
  shows "key_to_blob L (Some k) = Inr (Some (key_bytes L k))"
proof -
  have "room buffer_init (length (bytes_of_string (key_ssh_name k)) + 0x10002 + 0x90000)"
    by (rule room_init) (use ssh_name_cstring(3) [of k] in simp)
  then obtain b where b: "buffer_put_string buffer_init (bytes_of_string (key_ssh_name k)) = Inr b" "room b 0x90000"
      "bytes b = enc_string (bytes_of_string (key_ssh_name k))"
    using put_string_room [of buffer_init "bytes_of_string (key_ssh_name k)" "0x90000"] ssh_name_cstring(3) [of k] by auto
  have "room b (length (key_numbers k) * 0x12002)"
    by (rule room_mono [OF b(2)]) (auto simp: key_numbers_def split: option.split)
  then obtain c where c: "put_seq (buffer_put_bignum2 L) b (key_numbers k) = Inr c" "bytes c = key_bytes L k"
    using put_numbers assms b(3) by (fastforce simp: ok_key_def key_bytes_def)
  then show ?thesis using assms b(1)
    by (auto simp: ok_key_def key_to_blob_def buffer_put_cstring_def ssh_name_cstring nonnull_def key_numbers_def bindR_eq_Inr)
qed

lemma get_number:
  assumes "buffer_inv b" "ok_bignum2 L v" "bytes b = enc_bignum2 L v @ r"
  shows "\<exists>b'. buffer_get_bignum2_ret L b = Inr (Some v, b') \<and> buffer_inv b' \<and> bytes b' = r"
  using wire_type.get_ok [OF bignum2_wire_type assms]
  by (auto simp: buffer_get_bignum2_def bindR_eq_Inr split: option.splits)

lemma key_from_blob_ok:
  assumes "ok_key L k"
  shows "key_from_blob L (key_bytes L k) = Inr (Some (public_key k))"
proof -
  let ?n = "bytes_of_string (key_ssh_name k)" and ?nums = "concat (map (enc_bignum2 L) (key_numbers k))"
  have "room buffer_init (length (key_bytes L k) + 0x7fff + 0)"
    by (rule room_init) (use length_key_bytes(1) [OF assms] in simp)
  then obtain b where b: "buffer_append buffer_init (key_bytes L k) = Inr b" "buffer_inv b" "bytes b = enc_string ?n @ ?nums"
    using append_room [of buffer_init "key_bytes L k" 0] length_key_bytes(1) [OF assms] room_inv
    by (auto simp: key_bytes_def)
  have "ok_string ?n" using ssh_name_cstring(3) [of k] by (simp add: ok_string_def)
  then obtain c where c: "buffer_get_string_ret b = Inr (Some ?n, c)" "buffer_inv c" "bytes c = ?nums"
    using get_string_ret_ok [OF b(2) _ b(3)] by blast
  have name: "key_type_from_name (c_string ?n) = key_ty k"
    unfolding ssh_name_cstring(2) using assms by (auto simp: ok_key_def key_ssh_name_def key_type_from_name_def)
  show ?thesis
  proof (cases "key_ty k = KEY_RSA")
    case True
    then obtain r where r: "key_rsa k = Some r" using assms by (auto simp: ok_key_def)
    then have ok: "ok_bignum2 L (rsa_e r)" "ok_bignum2 L (rsa_n r)" and n: "bytes c = enc_bignum2 L (rsa_e r) @ enc_bignum2 L (rsa_n r)"
      using assms True c(3) by (simp_all add: ok_key_def key_numbers_def)
    obtain d where d: "buffer_get_bignum2_ret L c = Inr (Some (rsa_e r), d)" "buffer_inv d" "bytes d = enc_bignum2 L (rsa_n r) @ []"
      using get_number [OF c(2) ok(1) n] by auto
    obtain e where e: "buffer_get_bignum2_ret L d = Inr (Some (rsa_n r), e)" using get_number [OF d(2) ok(2) d(3)] by auto
    show ?thesis using b(1) c(1) d(1) e True r
      by (simp add: key_from_blob_def name key_new_def public_key_def public_rsa_def)
  next
    case False
    then obtain y where y: "key_ty k = KEY_DSA" "key_dsa k = Some y" using assms by (auto simp: ok_key_def)
    then have ok: "ok_bignum2 L (dsa_p y)" "ok_bignum2 L (dsa_q y)" "ok_bignum2 L (dsa_g y)" "ok_bignum2 L (dsa_pub_key y)"
      and n: "bytes c = enc_bignum2 L (dsa_p y) @ enc_bignum2 L (dsa_q y) @ enc_bignum2 L (dsa_g y) @ enc_bignum2 L (dsa_pub_key y)"
      using assms c(3) by (simp_all add: ok_key_def key_numbers_def)
    obtain d where d: "buffer_get_bignum2_ret L c = Inr (Some (dsa_p y), d)" "buffer_inv d"
        "bytes d = enc_bignum2 L (dsa_q y) @ enc_bignum2 L (dsa_g y) @ enc_bignum2 L (dsa_pub_key y)"
      using get_number [OF c(2) ok(1) n] by auto
    obtain e where e: "buffer_get_bignum2_ret L d = Inr (Some (dsa_q y), e)" "buffer_inv e"
        "bytes e = enc_bignum2 L (dsa_g y) @ enc_bignum2 L (dsa_pub_key y)"
      using get_number [OF d(2) ok(2) d(3)] by auto
    obtain f where f: "buffer_get_bignum2_ret L e = Inr (Some (dsa_g y), f)" "buffer_inv f" "bytes f = enc_bignum2 L (dsa_pub_key y) @ []"
      using get_number [OF e(2) ok(3) e(3)] by auto
    obtain g where g: "buffer_get_bignum2_ret L f = Inr (Some (dsa_pub_key y), g)" using get_number [OF f(2) ok(4) f(3)] by auto
    show ?thesis using b(1) c(1) d(1) e(1) f(1) g y
      by (simp add: key_from_blob_def name key_new_def public_key_def public_dsa_def)
  qed
qed

lemma key_write_ok:
  assumes "ok_key L k"
  shows "key_write L S k = Inr (True, key_ssh_name k @ '' '' @ map char_of_byte (b64_text (key_bytes L k)))"
proof -
  let ?d = "key_bytes L k"
  have len: "11 \<le> length ?d" by (rule length_key_bytes(2) [OF assms])
  have "length (b64_text ?d) < 2 * length ?d" using len unfolding length_b64_text by linarith
  then have "uuencode ?d (replicate (2 * length ?d) 0) (2 * length ?d) = Inr (Some (length (b64_text ?d)),
      b64_text ?d @ 0 # drop (Suc (length (b64_text ?d))) (replicate (2 * length ?d) 0))"
    unfolding uuencode_def by (intro b64_ntop_ok) simp_all
  moreover have "xmalloc (2 * length ?d) = Inr (replicate (2 * length ?d) 0)" using len by (auto simp: xmalloc_def)
  moreover have "0 < length (b64_text ?d)" using len unfolding length_b64_text by linarith
  moreover have "key_ty k \<noteq> KEY_RSA1" "key_ty k = KEY_DSA \<and> key_dsa k \<noteq> None \<or> key_ty k = KEY_RSA \<and> key_rsa k \<noteq> None"
    using assms by (auto simp: ok_key_def)
  ultimately show ?thesis
    using key_to_blob_ok [OF assms] by (simp add: key_write_def nonnull_def c_string_b64_text)
qed

lemma key_read_ok:
  assumes "ok_key L k" "key_ty k0 = key_ty k \<or> key_ty k0 = KEY_UNSPEC"
  shows "\<exists>k'. key_read L S k0 (key_ssh_name k @ '' '' @ map char_of_byte (b64_text (key_bytes L k))) = Inr (True, k', []) \<and>
    key_equal (Some k) (Some k') = Inr True"
proof -
  let ?d = "key_bytes L k"
  let ?cp = "map char_of_byte (b64_text ?d)"
  have len: "11 \<le> length ?d" by (rule length_key_bytes(2) [OF assms(1)])
  have ne: "?cp \<noteq> []" using len length_b64_text [of ?d] by auto
  have "length ?d < 2 * length ?cp" using len by (simp add: length_b64_text)
  then obtain q where q: "uudecode ?cp (replicate (2 * length ?cp) 0) (2 * length ?cp) = Inr (Some (length ?d), ?d @ q)"
    using uudecode_b64_text [of ?d "2 * length ?cp" "replicate (2 * length ?cp) 0"] by auto
  have m: "xmalloc (2 * length ?cp) = Inr (replicate (2 * length ?cp) 0)" using ne by (simp add: xmalloc_def)
  have nb: "\<forall>c \<in> set ?cp. \<not> is_blank c" using b64_text_plain(1) by auto
  then have skip: "dropWhile is_blank ?cp = ?cp" "dropWhile (\<lambda>c. \<not> is_blank c) ?cp = []" by (cases ?cp; simp)+
  have ty: "key_ty k = KEY_RSA \<or> key_ty k = KEY_DSA" using assms(1) by (auto simp: ok_key_def)
  have sp: "\<forall>c \<in> set (key_ssh_name k). c \<noteq> CHR '' ''" by (simp add: key_ssh_name_def split: key_type.split)
  have split: "takeWhile (\<lambda>c. c \<noteq> CHR '' '') (key_ssh_name k @ '' '' @ ?cp) = key_ssh_name k"
    "dropWhile (\<lambda>c. c \<noteq> CHR '' '') (key_ssh_name k @ '' '' @ ?cp) = '' '' @ ?cp"
    using sp by (simp_all add: takeWhile_append2 dropWhile_append2)
  have name: "key_type_from_name (key_ssh_name k) = key_ty k"
    using ty by (auto simp: key_ssh_name_def key_type_from_name_def)
  have pub: "key_ty (public_key k) = key_ty k" using ty by (auto simp: public_key_def)
  let ?k = "if key_ty k = KEY_RSA then k0\<lparr>key_ty := key_ty k, key_rsa := key_rsa (public_key k)\<rparr>
    else k0\<lparr>key_ty := key_ty k, key_dsa := key_dsa (public_key k)\<rparr>"
  have "key_read L S k0 (key_ssh_name k @ '' '' @ ?cp) = Inr (True, ?k, [])"
    unfolding key_read_def split Let_def name
    using assms(2) ty ne q m skip pub key_from_blob_ok [OF assms(1)] by auto
  moreover have "key_equal (Some k) (Some ?k) = Inr True"
    using assms(1) by (auto simp: ok_key_def key_equal_def public_key_def public_rsa_def public_dsa_def)
  ultimately show ?thesis by blast
qed

end

lemma openssh_RSA_verify_exact:
  assumes "openssh_RSA_verify S type hash sigbuf rsa"
  shows "RSA_public_decrypt S sigbuf rsa = Some ((if type = EVP_md5 then id_md5 else id_sha1) @ hash)"
proof -
  have split: "e = x @ h" if "length e = n + length x" "take (length x) e = x" "take n (drop (length x) e) = h"
    for e x h :: "byte list" and n using that append_take_drop_id [of "length x" e] by simp
  show ?thesis
    using assms by (cases type) (auto simp: openssh_RSA_verify_def split: if_split_asm option.split_asm intro: split)
qed

section \<open>Properties\<close>

text \<open>C26: A public RSA or DSA key written to a key file is read back as an equal key, into a blank key of its type or of
  no type, and the whole text is used up; for any implementation of the numbers that honours the manual of OpenSSL.\<close>

theorem key_text_round_trip:
  assumes "openssl_bn L" "ok_key L k" "key_ty k0 = key_ty k \<or> key_ty k0 = KEY_UNSPEC"
  shows "\<exists>text k'. key_write L S k = Inr (True, text) \<and> key_read L S k0 text = Inr (True, k', []) \<and>
    key_equal (Some k) (Some k') = Inr True"
  using openssl_bn.key_write_ok [OF assms(1,2)] openssl_bn.key_read_ok [OF assms] by blast

definition example_key :: Key where
  "example_key = \<lparr>key_ty = KEY_RSA, key_flags = 0, key_rsa = Some \<lparr>rsa_n = 3233, rsa_e = 17, rsa_d = None\<rparr>, key_dsa = None\<rparr>"

lemma nbits_numeral: "nbits (numeral m) = Suc (nbits (numeral m div 2))" "nbits 1 = 1" "nbits (Suc 0) = 1"
  by (simp_all add: nbits.simps [of "numeral m"] nbits.simps [of "Suc 0"] nbits_0)

theorem key_text_round_trip_witness:
  "\<exists>S :: ossl. \<exists>text k'. key_write int_bn S example_key = Inr (True, text) \<and>
    key_read int_bn S example_key text = Inr (True, k', []) \<and> key_equal (Some example_key) (Some k') = Inr True"
proof -
  have "ok_key int_bn example_key"
    by (simp add: example_key_def ok_key_def key_numbers_def ok_bignum2_def int_bn_def nbits_numeral)
  from key_text_round_trip [OF ibn.openssl_bn_axioms this, of example_key] show ?thesis by blast
qed

text \<open>C16: An RSA signature verifies only if the blob inside of it, which is all of it but the name of the algorithm,
  decrypts to exactly the identifier of the hash function followed by the hash of the data, with nothing before,
  between or behind them; and the modulus has at least 768 bits.\<close>

theorem rsa_verify_exact:
  assumes "ssh_rsa_verify L S datafellows (Some k) sig data = Inr 1"
  shows "\<exists>rsa name blob. key_ty k = KEY_RSA \<and> key_rsa k = Some rsa \<and> 768 \<le> BN_num_bits L (rsa_n rsa) \<and>
    c_string name = ''ssh-rsa'' \<and> sig = enc_string name @ enc_string blob \<and> length blob \<le> RSA_size S rsa \<and>
    RSA_public_decrypt S (replicate (RSA_size S rsa - length blob) 0 @ blob) rsa =
      Some ((if sig_md datafellows = EVP_md5 then id_md5 else id_sha1) @ EVP_Digest S (sig_md datafellows) data)"
proof -
  obtain rsa where r: "key_ty k = KEY_RSA" "key_rsa k = Some rsa" "768 \<le> BN_num_bits L (rsa_n rsa)"
    using assms by (auto simp: ssh_rsa_verify_def SSH_RSA_MINIMUM_MODULUS_SIZE_def split: if_splits option.splits)
  obtain b name c blob d where b: "buffer_append buffer_init sig = Inr b" and c: "buffer_get_string b = Inr (name, c)"
    and d: "buffer_get_string c = Inr (blob, d)" and n: "c_string name = ''ssh-rsa''" "buffer_len d = 0"
    and l: "length blob \<le> RSA_size S rsa"
    and v: "openssh_RSA_verify S (sig_md datafellows) (EVP_Digest S (sig_md datafellows) data)
      (replicate (RSA_size S rsa - length blob) 0 @ blob) rsa"
    using assms r unfolding ssh_rsa_verify_def bindR_eq_Inr by (auto simp: bindR_eq_Inr Let_def SSH_RSA_MINIMUM_MODULUS_SIZE_def split: if_split_asm)
  have b': "buffer_inv b" "bytes b = sig" using buffer_append_Inr [OF b] buffer_init_inv by simp_all
  have c': "buffer_inv c" "bytes b = enc_string name @ bytes c" using wstring.get_Inr [OF b'(1) c] by simp_all
  have d': "buffer_inv d" "bytes c = enc_string blob @ bytes d" using wstring.get_Inr [OF c'(1) d] by simp_all
  have "bytes d = []" using unat_buffer_len [OF d'(1)] n(2) by simp
  then have sig: "sig = enc_string name @ enc_string blob" using b'(2) c'(2) d'(2) by simp
  let ?oid = "if sig_md datafellows = EVP_md5 then id_md5 else id_sha1" and ?h = "EVP_Digest S (sig_md datafellows) data"
  have "RSA_public_decrypt S (replicate (RSA_size S rsa - length blob) 0 @ blob) rsa = Some (?oid @ ?h)"
    by (rule openssh_RSA_verify_exact [OF v])
  then show ?thesis using r n(1) sig l by blast
qed

definition example_ossl :: ossl where
  "example_ossl = \<lparr>RSA_size = (\<lambda>_. 100), RSA_sign = (\<lambda>_ _ _. Some [1]),
     RSA_public_decrypt = (\<lambda>_ _. Some (id_sha1 @ replicate 20 7)), DSA_do_sign = (\<lambda>_ _. None), DSA_do_verify = (\<lambda>_ _ _. 0),
     EVP_Digest = (\<lambda>_ _. replicate 20 7), BN_dec2bn = (\<lambda>_. None), BN_bn2dec = (\<lambda>_. None)\<rparr>"

definition example_sig :: "byte list" where
  "example_sig = enc_string (bytes_of_string ''ssh-rsa'') @ enc_string [1]"

lemma example_sig_verifies:
  "ssh_rsa_verify (int_bn\<lparr>BN_num_bits := \<lambda>_. 1024\<rparr>) example_ossl 0 (Some example_key) example_sig [] = Inr 1"
proof -
  let ?n = "bytes_of_string ''ssh-rsa''"
  have "room buffer_init (length example_sig + 0x7fff + 0)" by (rule room_init) (simp add: example_sig_def enc_string_def)
  then obtain b where b: "buffer_append buffer_init example_sig = Inr b" "buffer_inv b" "bytes b = enc_string ?n @ enc_string [1]"
    using append_room [of buffer_init example_sig 0] room_inv by (auto simp: example_sig_def enc_string_def)
  have ok: "ok_string ?n" "ok_string [1]" by (simp_all add: ok_string_def)
  obtain c where c: "buffer_get_string b = Inr (?n, c)" "buffer_inv c" "bytes c = enc_string [1] @ []"
    using wstring.get_ok [OF b(2) ok(1) b(3)] by auto
  obtain d where d: "buffer_get_string c = Inr ([1], d)" "buffer_inv d" "bytes d = []"
    using wstring.get_ok [OF c(2) ok(2) c(3)] by blast
  have "buffer_len d = 0" using unat_buffer_len [OF d(2)] d(3) by (simp add: unat_eq_0)
  moreover have "c_string ?n = ''ssh-rsa''" by (rule c_string_bytes_of_string) (simp add: no_null_def)
  ultimately show ?thesis using b(1) c(1) d(1)
    by (simp add: ssh_rsa_verify_def example_key_def SSH_RSA_MINIMUM_MODULUS_SIZE_def example_ossl_def openssh_RSA_verify_def sig_md_def)
qed

theorem rsa_verify_exact_witness:
  "\<exists>rsa blob. ssh_rsa_verify (int_bn\<lparr>BN_num_bits := \<lambda>_. 1024\<rparr>) example_ossl 0 (Some example_key) example_sig [] = Inr 1 \<and>
     key_rsa example_key = Some rsa \<and>
     RSA_public_decrypt example_ossl (replicate (100 - length blob) 0 @ blob) rsa = Some (id_sha1 @ replicate 20 7)"
  using rsa_verify_exact [OF example_sig_verifies] example_sig_verifies
  by (auto simp: example_ossl_def sig_md_def)

end
