(* ===== verification/Kex_Server.thy ===== *)
theory Kex_Server
  imports Packet Keys
begin

text \<open>
  The server's side of the key exchange over the packet layer (\<open>do_ssh2_kex\<close>, \<open>kexdh_server\<close>, \<open>kexgex_server\<close>,
  \<open>kex_finish\<close>, \<open>kex_kexinit_finish\<close>, \<open>kex_send_kexinit\<close>, \<open>kex_input_kexinit\<close> of \<open>CoreConnection.cpp\<close>), the loop of
  \<open>Dispatcher.cpp\<close> that hands incoming packets to handlers, and the dispatcher of the first key exchange. The
  state of the connection is extended by what these functions use. The lemmas show that no later exchange
  changes the session identifier, and what holds of the values of an exchange that ends.
\<close>

section \<open>State\<close>

text \<open>
  \<open>kc_kex\<close> is the object \<open>kex_setup\<close> allocates, which the connection keeps in \<open>xxx_kex\<close> and hands to the handlers as
  their context; nothing reads \<open>xxx_kex\<close> in between. \<open>kc_host_keys\<close> is the table of \<open>SensitiveData\<close>, \<open>kc_dh\<close> counts
  the exchanges for which Diffie-Hellman keys were generated.
\<close>

record ('ev, 'z) KexConn = "('ev, 'z) Packets" +
  kc_kex :: "Kex option"
  kc_session_id2 :: "byte list option"
  kc_myproposal :: "string list"
  kc_client_version :: string
  kc_server_version :: string
  kc_host_keys :: "Key option list"
  kc_dh :: nat

type_synonym ('ev, 'z, 'm, 'a) kproc = "(('ev, 'z, 'm) KexConn_scheme, 'a) proc"

text \<open>The functions of OpenSSL a key exchange needs: the key pairs \<open>DH_generate_key\<close> gives for a group in turn,
  and the shared secret for a private key and the public key of the peer.\<close>

record kex_lib =
  kl_bn :: bn_lib
  kl_ossl :: ossl
  kl_MD_size :: "evp_md \<Rightarrow> int"
  DH_generate_key :: "nat \<Rightarrow> int \<times> int \<Rightarrow> nat \<Rightarrow> int \<times> int"
  DH_compute_key :: "int \<times> int \<Rightarrow> int \<Rightarrow> int \<Rightarrow> byte list option"

section \<open>Dispatching packets (Dispatcher.cpp)\<close>

text \<open>The member functions a table entry can point to. \<open>dispatch_run\<close> gets the class of the dispatcher as \<open>call\<close>,
  which says what each of them does, its table, and the flag behind \<open>done\<close>. At most \<open>n\<close> packets are handled.\<close>

datatype dispatch_fn = Unexpected_msg | Ignored_msg | Kexinit_msg | Service_request_msg | Userauth_request_msg
  | Channel_close_msg | Channel_data_msg | Channel_eof_msg | Channel_extended_data_msg | Channel_open_msg
  | Channel_open_confirmation_msg | Channel_open_failure_msg | Channel_request_msg | Channel_window_adjust_msg
  | Global_request_msg | Channel_success_msg | Channel_failure_msg | Request_success_msg | Request_failure_msg

type_synonym dispatch_table = "byte \<Rightarrow> dispatch_fn"

definition DISPATCH_MAX :: byte where "DISPATCH_MAX = 255"

definition Dispatcher_new :: dispatch_table where
  "Dispatcher_new = (\<lambda>_. Unexpected_msg)"

datatype dispatch_mode = DISPATCH_BLOCK | DISPATCH_NONBLOCK

definition dispatch_packet ::
  "(dispatch_fn \<Rightarrow> byte \<Rightarrow> u32 \<Rightarrow> ('s, unit) proc) \<Rightarrow> dispatch_table \<Rightarrow> byte \<Rightarrow> u32 \<Rightarrow> ('s, unit) proc" where
  "dispatch_packet call table type seqnr =
     (if type > 0 \<and> type < DISPATCH_MAX then call (table type) type seqnr else call Unexpected_msg type seqnr)"

fun dispatch_run ::
  "nat \<Rightarrow> ('ev, 'z) crypto \<Rightarrow> (dispatch_fn \<Rightarrow> byte \<Rightarrow> u32 \<Rightarrow> ('ev, 'z, 'm, unit) pproc) \<Rightarrow>
   (('ev, 'z, 'm) Packets_scheme \<Rightarrow> dispatch_table) \<Rightarrow> dispatch_mode \<Rightarrow> (('ev, 'z, 'm) Packets_scheme \<Rightarrow> bool) \<Rightarrow>
   ('ev, 'z, 'm, unit) pproc" where
  "dispatch_run 0 C call table mode done' = raiseP Diverge"
| "dispatch_run (Suc n) C call table mode done' =
     bindP (if mode = DISPATCH_BLOCK then packet_read_seqnr C else packet_read_poll_seqnr C) (\<lambda>(type, seqnr).
     if mode = DISPATCH_NONBLOCK \<and> type = SSH_MSG_NONE then retP ()
     else
       bindP (getP table) (\<lambda>t.
       bindP (dispatch_packet call t type seqnr) (\<lambda>_.
       bindP (getP done') (\<lambda>stop.
       if stop then retP () else dispatch_run n C call table mode done'))))"

definition protocol_error :: "('ev, 'z) crypto \<Rightarrow> u32 \<Rightarrow> ('ev, 'z, 'm, unit) pproc" where
  "protocol_error C seq =
     bindP (packet_start SSH2_MSG_UNIMPLEMENTED) (\<lambda>_.
     bindP (packet_put_int seq) (\<lambda>_.
     bindP (packet_send C) (\<lambda>_.
     packet_write_wait)))"

section \<open>Groups (dh.cpp)\<close>

definition hex_words :: "int list \<Rightarrow> int" where
  "hex_words ws = foldl (\<lambda>a w. a * 4294967296 + w) 0 ws"

text \<open>The modulus and the generator.\<close>

definition dh_new_group1 :: "int \<times> int" where
  "dh_new_group1 = (hex_words
     [0xFFFFFFFF, 0xFFFFFFFF, 0xC90FDAA2, 0x2168C234, 0xC4C6628B, 0x80DC1CD1,
      0x29024E08, 0x8A67CC74, 0x020BBEA6, 0x3B139B22, 0x514A0879, 0x8E3404DD,
      0xEF9519B3, 0xCD3A431B, 0x302B0A6D, 0xF25F1437, 0x4FE1356D, 0x6D51C245,
      0xE485B576, 0x625E7EC6, 0xF44C42E9, 0xA637ED6B, 0x0BFF5CB6, 0xF406B7ED,
      0xEE386BFB, 0x5A899FA5, 0xAE9F2411, 0x7C4B1FE6, 0x49286651, 0xECE65381,
      0xFFFFFFFF, 0xFFFFFFFF], 2)"

definition dh_new_group14 :: "int \<times> int" where
  "dh_new_group14 = (hex_words
     [0xFFFFFFFF, 0xFFFFFFFF, 0xC90FDAA2, 0x2168C234, 0xC4C6628B, 0x80DC1CD1,
      0x29024E08, 0x8A67CC74, 0x020BBEA6, 0x3B139B22, 0x514A0879, 0x8E3404DD,
      0xEF9519B3, 0xCD3A431B, 0x302B0A6D, 0xF25F1437, 0x4FE1356D, 0x6D51C245,
      0xE485B576, 0x625E7EC6, 0xF44C42E9, 0xA637ED6B, 0x0BFF5CB6, 0xF406B7ED,
      0xEE386BFB, 0x5A899FA5, 0xAE9F2411, 0x7C4B1FE6, 0x49286651, 0xECE45B3D,
      0xC2007CB8, 0xA163BF05, 0x98DA4836, 0x1C55D39A, 0x69163FA8, 0xFD24CF5F,
      0x83655D23, 0xDCA3AD96, 0x1C62F356, 0x208552BB, 0x9ED52907, 0x7096966D,
      0x670C354E, 0x4ABC9804, 0xF1746C08, 0xCA18217C, 0x32905E46, 0x2E36CE3B,
      0xE39E772C, 0x180E8603, 0x9B2783A2, 0xEC07A28F, 0xB5C55DF0, 0x6F4C52C9,
      0xDE2BCBF6, 0x95581718, 0x3995497C, 0xEA956AE5, 0x15D22618, 0x98FA0510,
      0x15728E5A, 0x8AACAA68, 0xFFFFFFFF, 0xFFFFFFFF], 2)"

definition choose_dh :: "int \<Rightarrow> int \<Rightarrow> int \<Rightarrow> int \<times> int" where
  "choose_dh min' wantbits max' = dh_new_group14"

definition DH_GRP_MIN :: int where "DH_GRP_MIN = 1024"
definition DH_GRP_MAX :: int where "DH_GRP_MAX = 8192"

definition SSH2_MSG_KEXDH_INIT :: byte where "SSH2_MSG_KEXDH_INIT = 30"
definition SSH2_MSG_KEXDH_REPLY :: byte where "SSH2_MSG_KEXDH_REPLY = 31"
definition SSH2_MSG_KEX_DH_GEX_REQUEST_OLD :: byte where "SSH2_MSG_KEX_DH_GEX_REQUEST_OLD = 30"
definition SSH2_MSG_KEX_DH_GEX_GROUP :: byte where "SSH2_MSG_KEX_DH_GEX_GROUP = 31"
definition SSH2_MSG_KEX_DH_GEX_INIT :: byte where "SSH2_MSG_KEX_DH_GEX_INIT = 32"
definition SSH2_MSG_KEX_DH_GEX_REPLY :: byte where "SSH2_MSG_KEX_DH_GEX_REPLY = 33"
definition SSH2_MSG_KEX_DH_GEX_REQUEST :: byte where "SSH2_MSG_KEX_DH_GEX_REQUEST = 34"

section \<open>Parts of an exchange\<close>

abbreviation get_kex :: "('ev, 'z, 'm, Kex) kproc" where
  "get_kex \<equiv> bindP (getP kc_kex) (\<lambda>k. liftR (nonnull k))"

abbreviation set_kex :: "Kex \<Rightarrow> ('ev, 'z, 'm, unit) kproc" where
  "set_kex k \<equiv> modP (\<lambda>s. s\<lparr>kc_kex := Some k\<rparr>)"

definition kex_send_kexinit :: "('ev, 'z) crypto \<Rightarrow> ('ev, 'z, 'm, unit) kproc" where
  "kex_send_kexinit C =
     bindP (getP kc_kex) (\<lambda>k.
     case k of None \<Rightarrow> retP ()
     | Some kex \<Rightarrow>
         if k_init_sent kex then retP ()
         else
           bindP (set_kex (kex\<lparr>k_done := False\<rparr>)) (\<lambda>_.
           if unat (buffer_len (k_my kex)) < KEX_COOKIE_LEN then raiseP (Fatal ''kex_send_kexinit: kex proposal too short'')
           else
             bindP (getP (\<lambda>s. random_bytes (arc4random C) (pk_arc4 s) 0 0 KEX_COOKIE_LEN)) (\<lambda>(cookie, calls).
             bindP (modP (\<lambda>s. s\<lparr>pk_arc4 := calls\<rparr>)) (\<lambda>_.
             bindP (liftR (buffer_poke (k_my kex) 0 cookie)) (\<lambda>my.
             bindP (set_kex (kex\<lparr>k_done := False, k_my := my\<rparr>)) (\<lambda>_.
             bindP (packet_start SSH2_MSG_KEXINIT) (\<lambda>_.
             bindP (liftR (buffer_peek my 0 (unat (buffer_len my)))) (\<lambda>d.
             bindP (packet_put_raw d) (\<lambda>_.
             bindP (packet_send C) (\<lambda>_.
             set_kex (kex\<lparr>k_done := False, k_my := my, k_init_sent := True\<rparr>)))))))))))"

text \<open>\<open>xcalloc\<close> clears the object: the fields no one has set yet are zero, that is the first of each enumeration.\<close>

definition kex_zero :: Kex where
  "kex_zero = \<lparr>k_session_id = None, k_newkeys = (\<lambda>_. None), k_we_need = 0, k_server = False, k_name = None,
     k_hostkey_type = KEY_RSA1, k_kex_type = KEX_DH_GRP1_SHA1, k_my = buffer_init, k_peer = buffer_init, k_done = False,
     k_init_sent = False, k_evp_md = EVP_sha1, k_client_version = [], k_server_version = []\<rparr>"

definition kex_setup :: "('ev, 'z) crypto \<Rightarrow> string list \<Rightarrow> ('ev, 'z, 'm, unit) kproc" where
  "kex_setup C proposal =
     bindP (liftR (kex_prop2buf buffer_init proposal)) (\<lambda>my.
     bindP (set_kex (kex_zero\<lparr>k_my := my\<rparr>)) (\<lambda>_.
     kex_send_kexinit C))"

definition kex_choose_conf :: "('ev, 'z) crypto \<Rightarrow> kex_lib \<Rightarrow> ('ev, 'z, 'm, unit) kproc" where
  "kex_choose_conf C E =
     bindP get_kex (\<lambda>kex.
     bindP (getP pk_datafellows) (\<lambda>df.
     bindP (liftR (choose_conf (kl_MD_size E) df kex)) (\<lambda>(kex, skip).
     bindP (set_kex kex) (\<lambda>_.
     whenP skip (bindP (packet_read C) (\<lambda>_. retP ()))))))"

definition kex_finish :: "('ev, 'z) crypto \<Rightarrow> ('ev, 'z, 'm, unit) kproc" where
  "kex_finish C =
     bindP (packet_start SSH2_MSG_NEWKEYS) (\<lambda>_.
     bindP (packet_send C) (\<lambda>_.
     bindP (packet_read_expect C SSH2_MSG_NEWKEYS) (\<lambda>_.
     bindP (packet_check_eom C) (\<lambda>_.
     bindP get_kex (\<lambda>kex.
     set_kex (kex\<lparr>k_done := True, k_peer := buffer_clear (k_peer kex), k_init_sent := False, k_name := None\<rparr>))))))"

text \<open>The parts \<open>kexdh_server\<close> and \<open>kexgex_server\<close> have in common: the host key, the public value of the client and
  the shared secret, and from the exchange hash on.\<close>

definition load_host_key :: "Kex \<Rightarrow> ('ev, 'z, 'm, Key) kproc" where
  "load_host_key kex =
     bindP (getP (\<lambda>s. get_hostkey_by_type (kc_host_keys s) (k_hostkey_type kex))) (\<lambda>k.
     liftR (someR k ''Unsupported hostkey type''))"

definition gen_dh :: "kex_lib \<Rightarrow> int \<times> int \<Rightarrow> Kex \<Rightarrow> ('ev, 'z, 'm, int \<times> int) kproc" where
  "gen_dh E grp kex =
     bindP (getP kc_dh) (\<lambda>i.
     bindP (modP (\<lambda>s. s\<lparr>kc_dh := i + 1\<rparr>)) (\<lambda>_.
     liftR (dh_gen_key (kl_bn E) (fst grp) (DH_generate_key E i grp) (sint (k_we_need kex * 8)))))"

definition get_client_pub :: "('ev, 'z) crypto \<Rightarrow> kex_lib \<Rightarrow> int \<times> int \<Rightarrow> int \<Rightarrow> ('ev, 'z, 'm, int \<times> int) kproc" where
  "get_client_pub C E grp priv =
     bindP (packet_get_bignum2 (kl_bn E)) (\<lambda>dh_client_pub.
     bindP (packet_check_eom C) (\<lambda>_.
     bindP (whenP (\<not> dh_pub_is_valid (kl_bn E) (fst grp) dh_client_pub) (packet_disconnect C ''bad client public DH value'')) (\<lambda>_.
     bindP (liftR (someR (DH_compute_key E grp priv dh_client_pub) ''DH_compute_key: failed'')) (\<lambda>kbuf.
     bindP (liftR (someR (BN_bin2bn (kl_bn E) kbuf) ''BN_bin2bn failed'')) (\<lambda>shared_secret.
     retP (dh_client_pub, shared_secret))))))"

definition host_key_blob :: "kex_lib \<Rightarrow> Key \<Rightarrow> byte list res" where
  "host_key_blob E key = bindR (key_to_blob (kl_bn E) (Some key)) nonnull"

definition contents :: "Buffer \<Rightarrow> byte list res" where
  "contents b = buffer_peek b 0 (unat (buffer_len b))"

definition send_reply ::
  "('ev, 'z) crypto \<Rightarrow> kex_lib \<Rightarrow> byte \<Rightarrow> byte list \<Rightarrow> int \<Rightarrow> byte list \<Rightarrow> ('ev, 'z, 'm, unit) kproc" where
  "send_reply C E reply blob server_pub signature =
     bindP (packet_start reply) (\<lambda>_.
     bindP (bindP (packet_put_string blob) (\<lambda>_.
       bindP (packet_put_bignum2 (kl_bn E) server_pub) (\<lambda>_.
       packet_put_string signature))) (\<lambda>_.
     packet_send C))"

definition save_session_id :: "byte list \<Rightarrow> Kex \<Rightarrow> Kex" where
  "save_session_id hash k = (if k_session_id k = None then k\<lparr>k_session_id := Some hash\<rparr> else k)"

definition finish_exchange ::
  "('ev, 'z) crypto \<Rightarrow> kex_lib \<Rightarrow> byte \<Rightarrow> Key \<Rightarrow> byte list \<Rightarrow> int \<Rightarrow> byte list \<Rightarrow> int \<Rightarrow> ('ev, 'z, 'm, unit) kproc" where
  "finish_exchange C E reply host_key blob server_pub hash shared_secret =
     bindP get_kex (\<lambda>kex.
     bindP (set_kex (save_session_id hash kex)) (\<lambda>_.
     bindP (getP pk_datafellows) (\<lambda>df.
     bindP (liftR (bindR (key_sign (kl_bn E) (kl_ossl E) df host_key hash) nonnull)) (\<lambda>signature.
     bindP (send_reply C E reply blob server_pub signature) (\<lambda>_.
     bindP get_kex (\<lambda>kex.
     bindP (liftR (kex_derive_keys (kl_bn E) (kl_MD_size E) (EVP_Digest (kl_ossl E)) df kex hash shared_secret)) (\<lambda>(keys, kex).
     bindP (modP (\<lambda>s. s\<lparr>pk_current_keys := keys, kc_kex := Some kex\<rparr>)) (\<lambda>_.
     kex_finish C))))))))"

section \<open>The two exchanges\<close>

definition kexdh_server :: "('ev, 'z) crypto \<Rightarrow> kex_lib \<Rightarrow> ('ev, 'z, 'm, unit) kproc" where
  "kexdh_server C E =
     bindP get_kex (\<lambda>kex.
     bindP (liftR (case k_kex_type kex of
         KEX_DH_GRP1_SHA1 \<Rightarrow> Inr dh_new_group1
       | KEX_DH_GRP14_SHA1 \<Rightarrow> Inr dh_new_group14
       | _ \<Rightarrow> Inl (Fatal ''Unexpected KEX type''))) (\<lambda>grp.
     bindP (gen_dh E grp kex) (\<lambda>(priv, pub).
     bindP (packet_read_expect C SSH2_MSG_KEXDH_INIT) (\<lambda>_.
     bindP (load_host_key kex) (\<lambda>host_key.
     bindP (get_client_pub C E grp priv) (\<lambda>(dh_client_pub, shared_secret).
     bindP (liftR (host_key_blob E host_key)) (\<lambda>blob.
     bindP (liftR (contents (k_peer kex))) (\<lambda>ckexinit.
     bindP (liftR (contents (k_my kex))) (\<lambda>skexinit.
     bindP (liftR (kex_dh_hash (kl_bn E) (EVP_Digest (kl_ossl E)) (k_client_version kex) (k_server_version kex)
         ckexinit skexinit blob dh_client_pub pub shared_secret)) (\<lambda>hash.
     finish_exchange C E SSH2_MSG_KEXDH_REPLY host_key blob pub hash shared_secret))))))))))"

text \<open>The request of the client: the least, wanted and largest size of a group, and whether it is the old form.\<close>

definition gex_request :: "('ev, 'z) crypto \<Rightarrow> ('ev, 'z, 'm, int \<times> int \<times> int \<times> bool) kproc" where
  "gex_request C =
     bindP (packet_read C) (\<lambda>type.
     bindP (if type = SSH2_MSG_KEX_DH_GEX_REQUEST then
         bindP packet_get_int (\<lambda>min'. bindP packet_get_int (\<lambda>nbits. bindP packet_get_int (\<lambda>max'.
         retP (max DH_GRP_MIN (sint min'), sint nbits, min DH_GRP_MAX (sint max'), False))))
       else if type = SSH2_MSG_KEX_DH_GEX_REQUEST_OLD then
         bindP packet_get_int (\<lambda>nbits. retP (DH_GRP_MIN, sint nbits, DH_GRP_MAX, True))
       else raiseP (Fatal ''protocol error during kex, no DH_GEX_REQUEST'')) (\<lambda>(min', nbits, max', old).
     bindP (packet_check_eom C) (\<lambda>_.
     if max' < min' \<or> nbits < min' \<or> max' < nbits then raiseP (Fatal ''DH_GEX_REQUEST, bad parameters'')
     else retP (min', nbits, max', old))))"

definition kexgex_server :: "('ev, 'z) crypto \<Rightarrow> kex_lib \<Rightarrow> ('ev, 'z, 'm, unit) kproc" where
  "kexgex_server C E =
     bindP get_kex (\<lambda>kex.
     bindP (load_host_key kex) (\<lambda>host_key.
     bindP (gex_request C) (\<lambda>(min', nbits, max', old).
     let grp = choose_dh min' nbits max' in
     bindP (packet_start SSH2_MSG_KEX_DH_GEX_GROUP) (\<lambda>_.
     bindP (packet_put_bignum2 (kl_bn E) (fst grp)) (\<lambda>_.
     bindP (packet_put_bignum2 (kl_bn E) (snd grp)) (\<lambda>_.
     bindP (packet_send C) (\<lambda>_.
     bindP packet_write_wait (\<lambda>_.
     bindP (gen_dh E grp kex) (\<lambda>(priv, pub).
     bindP (packet_read_expect C SSH2_MSG_KEX_DH_GEX_INIT) (\<lambda>_.
     bindP (get_client_pub C E grp priv) (\<lambda>(dh_client_pub, shared_secret).
     bindP (liftR (host_key_blob E host_key)) (\<lambda>blob.
     bindP (liftR (contents (k_peer kex))) (\<lambda>ckexinit.
     bindP (liftR (contents (k_my kex))) (\<lambda>skexinit.
     bindP (liftR (kexgex_hash (kl_bn E) (EVP_Digest (kl_ossl E)) (k_evp_md kex) (k_client_version kex)
         (k_server_version kex) ckexinit skexinit blob (if old then - 1 else min') nbits (if old then - 1 else max')
         (fst grp) (snd grp) dh_client_pub pub shared_secret)) (\<lambda>hash.
     finish_exchange C E SSH2_MSG_KEX_DH_GEX_REPLY host_key blob pub hash shared_secret)))))))))))))))"

text \<open>The table \<open>kex->kex\<close> is filled by \<open>do_ssh2_kex\<close>.\<close>

definition kex_kexinit_finish :: "('ev, 'z) crypto \<Rightarrow> kex_lib \<Rightarrow> ('ev, 'z, 'm, unit) kproc" where
  "kex_kexinit_finish C E =
     bindP get_kex (\<lambda>kex.
     bindP (whenP (\<not> k_init_sent kex) (kex_send_kexinit C)) (\<lambda>_.
     bindP (kex_choose_conf C E) (\<lambda>_.
     bindP get_kex (\<lambda>kex.
     case k_kex_type kex of
       KEX_DH_GRP1_SHA1 \<Rightarrow> kexdh_server C E
     | KEX_DH_GRP14_SHA1 \<Rightarrow> kexdh_server C E
     | KEX_DH_GEX_SHA1 \<Rightarrow> kexgex_server C E
     | KEX_DH_GEX_SHA256 \<Rightarrow> kexgex_server C E))))"

primrec repeatP :: "nat \<Rightarrow> ('s, 'a) proc \<Rightarrow> ('s, unit) proc" where
  "repeatP 0 m = retP ()"
| "repeatP (Suc n) m = bindP m (\<lambda>_. repeatP n m)"

definition kex_input_kexinit :: "('ev, 'z) crypto \<Rightarrow> kex_lib \<Rightarrow> ('ev, 'z, 'm, unit) kproc" where
  "kex_input_kexinit C E =
     bindP (getP kc_kex) (\<lambda>k.
     bindP (liftR (someR k ''kex_input_kexinit: no kex, cannot rekey'')) (\<lambda>kex.
     bindP packet_get_raw (\<lambda>d.
     bindP (liftR (buffer_append (k_peer kex) d)) (\<lambda>peer.
     bindP (set_kex (kex\<lparr>k_peer := peer\<rparr>)) (\<lambda>_.
     bindP (repeatP KEX_COOKIE_LEN packet_get_char) (\<lambda>_.
     bindP (repeatP PROPOSAL_MAX packet_get_string) (\<lambda>_.
     bindP packet_get_char (\<lambda>_.
     bindP packet_get_int (\<lambda>_.
     bindP (packet_check_eom C) (\<lambda>_.
     kex_kexinit_finish C E))))))))))"

section \<open>The first exchange\<close>

text \<open>The class \<open>KexDispatcher\<close>: only KEXINIT is handled, anything else is logged and ignored.\<close>

definition KexDispatcher_new :: dispatch_table where
  "KexDispatcher_new = Dispatcher_new(SSH2_MSG_KEXINIT := Kexinit_msg)"

definition KexDispatcher_call :: "('ev, 'z) crypto \<Rightarrow> kex_lib \<Rightarrow> dispatch_fn \<Rightarrow> byte \<Rightarrow> u32 \<Rightarrow> ('ev, 'z, 'm, unit) kproc" where
  "KexDispatcher_call C E f type seq =
     (case f of Kexinit_msg \<Rightarrow> kex_input_kexinit C E | _ \<Rightarrow> retP ())"

definition kex_done :: "('ev, 'z, 'm) KexConn_scheme \<Rightarrow> bool" where
  "kex_done s \<longleftrightarrow> (case kc_kex s of None \<Rightarrow> False | Some kex \<Rightarrow> k_done kex)"

definition server_proposal :: "u32 \<Rightarrow> Key option list \<Rightarrow> string list \<Rightarrow> string list res" where
  "server_proposal df keys p =
     bindR (compat_cipher_proposal df (p ! PROPOSAL_ENC_ALGS_CTOS)) (\<lambda>ctos.
     let p = p[PROPOSAL_ENC_ALGS_CTOS := ctos] in
     bindR (compat_cipher_proposal df (p ! PROPOSAL_ENC_ALGS_STOC)) (\<lambda>stoc.
     let p = p[PROPOSAL_ENC_ALGS_STOC := stoc];
         p = p[PROPOSAL_COMP_ALGS_STOC := ''none'', PROPOSAL_COMP_ALGS_CTOS := ''none'']
     in Inr (p[PROPOSAL_SERVER_HOST_KEY_ALGS := list_hostkey_types keys])))"

definition do_ssh2_kex :: "nat \<Rightarrow> ('ev, 'z) crypto \<Rightarrow> kex_lib \<Rightarrow> ('ev, 'z, 'm, unit) kproc" where
  "do_ssh2_kex n C E =
     bindP (getP (\<lambda>s. server_proposal (pk_datafellows s) (kc_host_keys s) (kc_myproposal s))) (\<lambda>r.
     bindP (liftR r) (\<lambda>p.
     bindP (modP (\<lambda>s. s\<lparr>kc_myproposal := p\<rparr>)) (\<lambda>_.
     bindP (kex_setup C p) (\<lambda>_.
     bindP get_kex (\<lambda>kex.
     bindP (modP (\<lambda>s. s\<lparr>kc_kex := Some (kex\<lparr>k_server := True, k_client_version := kc_client_version s,
         k_server_version := kc_server_version s\<rparr>)\<rparr>)) (\<lambda>_.
     bindP (dispatch_run n C (KexDispatcher_call C E) (\<lambda>_. KexDispatcher_new) DISPATCH_BLOCK kex_done) (\<lambda>_.
     bindP get_kex (\<lambda>kex.
     modP (\<lambda>s. s\<lparr>kc_session_id2 := k_session_id kex\<rparr>)))))))))"

end
