(* ===== verification/Kex_Install.thy ===== *)
theory Kex_Install
  imports Kex_Server Packet_Frame Packet_Safe
begin

text \<open>
  Which keys the packet layer uses: only \<open>NEWKEYS\<close> changes them, sending one for the outgoing direction and
  receiving one for the incoming direction, and it installs the keys the last exchange left in \<open>current_keys\<close>.
\<close>

section \<open>The keys in use\<close>

text \<open>The cipher and the MAC of each direction, without the flag that says that the MAC is on, and the keys that
  wait to be installed.\<close>

definition crypt_of :: "Newkeys \<Rightarrow> Enc \<times> Mac" where
  "crypt_of nk = (nk_enc nk, (nk_mac nk)\<lparr>mac_enabled := False\<rparr>)"

definition keys_of :: "('ev, 'z, 'm) Packets_scheme \<Rightarrow> (kex_mode \<Rightarrow> (Enc \<times> Mac) option) \<times> (kex_mode \<Rightarrow> Newkeys option)" where
  "keys_of s = ((\<lambda>mode. map_option crypt_of (pk_newkeys s mode)), pk_current_keys s)"

definition install ::
  "kex_mode \<Rightarrow> (kex_mode \<Rightarrow> (Enc \<times> Mac) option) \<times> (kex_mode \<Rightarrow> Newkeys option) \<Rightarrow>
   (kex_mode \<Rightarrow> (Enc \<times> Mac) option) \<times> (kex_mode \<Rightarrow> Newkeys option)" where
  "install mode kv = ((fst kv)(mode := map_option crypt_of (snd kv mode)), (snd kv)(mode := None))"

lemmas keys_simps = keys_of_def packet_set_state_def packet_get_state_def Let_def

lemma keys_compression [frame_intros]:
  "keeps keys_of packet_init_compression" "keeps keys_of (buffer_compress_init_send C l)"
  "keeps keys_of (buffer_compress_init_recv C)" "keeps keys_of (buffer_compress C)" "keeps keys_of (buffer_uncompress C)"
  unfolding packet_init_compression_def buffer_compress_init_send_def buffer_compress_init_recv_def buffer_compress_def
    buffer_uncompress_def
  by (intro frame_intros; simp add: keys_simps)+

text \<open>Storing keys for a direction.\<close>

definition store :: "kex_mode \<Rightarrow> Newkeys option \<Rightarrow> (kex_mode \<Rightarrow> (Enc \<times> Mac) option) \<times> (kex_mode \<Rightarrow> Newkeys option) \<Rightarrow>
   (kex_mode \<Rightarrow> (Enc \<times> Mac) option) \<times> (kex_mode \<Rightarrow> Newkeys option)" where
  "store mode nk kv = ((fst kv)(mode := map_option crypt_of nk), snd kv)"

lemma keys_put: "moves keys_of (store mode nk) (put_newkeys mode nk)"
  by (auto simp: moves_def put_newkeys_def modP_def keys_of_def store_def)

lemma keys_start_comp: "moves keys_of (store mode (Some nk)) (start_comp C mode nk)"
proof -
  have "store mode (Some (nk\<lparr>nk_comp := c\<rparr>)) = store mode (Some nk)" for c
    by (auto simp: store_def crypt_of_def)
  then have "moves keys_of (store mode (Some nk)) (put_newkeys mode (Some (nk\<lparr>nk_comp := c\<rparr>)))" for c
    using keys_put by metis
  then show ?thesis unfolding start_comp_def by (intro moves_after frame_intros)
qed

lemma keys_delayed [frame_intros]: "keeps keys_of (delayed_compress C mode)"
  unfolding moves_def
proof (intro allI impI)
  fix s t and x :: unit
  assume "delayed_compress C mode s = (Inr x, t)"
  then consider "t = s" | nk where "pk_newkeys s mode = Some nk" "start_comp C mode nk s = (Inr (), t)"
    by (auto simp: delayed_compress_def bindP_Inr getP_def retP_def whenP_def split: option.splits if_splits)
  then show "keys_of t = keys_of s"
  proof cases
    case 2
    then have "keys_of t = store mode (Some nk) (keys_of s)" by (simp add: movesD [OF keys_start_comp])
    then show ?thesis using 2(1) by (auto simp: store_def keys_of_def)
  qed simp
qed

lemma keys_enable [frame_intros]: "keeps keys_of (packet_enable_delayed_compress C)"
  unfolding packet_enable_delayed_compress_def by (intro frame_intros) (simp add: keys_simps)

lemma stored_stays:
  assumes "fst kv mode = Some (crypt_of nk)"
  shows "stays (\<lambda>s. keys_of s = kv) (put_newkeys mode (Some nk))" "stays (\<lambda>s. keys_of s = kv) (start_comp C mode nk)"
proof -
  have s: "store mode (Some nk) kv = kv" using assms by (cases kv) (auto simp: store_def)
  show "stays (\<lambda>s. keys_of s = kv) (put_newkeys mode (Some nk))"
    by (rule hoareI) (simp add: movesD [OF keys_put] s)
  show "stays (\<lambda>s. keys_of s = kv) (start_comp C mode nk)"
    by (rule hoareI) (simp add: movesD [OF keys_start_comp] s)
qed

lemma keys_use:
  assumes "fst kv mode = Some (crypt_of nk)"
  shows "stays (\<lambda>s. keys_of s = kv) (use_newkeys C mode nk)"
proof -
  let ?on = "\<lambda>ok. if ok then nk\<lparr>nk_mac := (nk_mac nk)\<lparr>mac_enabled := True\<rparr>\<rparr> else nk"
  have "fst kv mode = Some (crypt_of (?on ok))" for ok using assms by (simp add: crypt_of_def)
  note stored = stored_stays [OF this]
  have mods: "stays (\<lambda>s. keys_of s = kv) (modP f)" if "\<And>s. keys_of (f s) = keys_of s" for f
    using that by (simp add: hoare_mod)
  show ?thesis
    unfolding use_newkeys_def Let_def
    by (intro stays_bind stays_basic stays_cases mods stored) (simp_all add: keys_of_def split: kex_mode.split)
qed

lemma keys_set_newkeys:
  assumes "set_newkeys C mode s = (Inr (), t)"
  shows "keys_of t = install mode (keys_of s)" "pk_current_keys s mode \<noteq> None"
proof -
  obtain u nk where nk: "pk_current_keys s mode = Some nk" and u: "keys_of u = install mode (keys_of s)"
    and t: "use_newkeys C mode nk u = (Inr (), t)"
  proof (cases "pk_current_keys s mode")
    case None
    then show ?thesis using assms
      by (auto simp: set_newkeys_def kex_get_newkeys_def put_newkeys_def bindP_Inr getP_def modP_def retP_def raiseP_def
          split: kex_mode.splits)
  next
    case (Some nk)
    obtain u where u: "use_newkeys C mode nk u = (Inr (), t)" "pk_newkeys u = (pk_newkeys s)(mode := Some nk)"
        "pk_current_keys u = (pk_current_keys s)(mode := None)"
      using assms Some
      by (cases mode) (simp_all add: set_newkeys_def kex_get_newkeys_def put_newkeys_def bindP_Inr getP_def modP_def retP_def)
    then have "keys_of u = install mode (keys_of s)" using Some by (auto simp: keys_of_def install_def)
    then show ?thesis using that [OF Some] u(1) by blast
  qed
  have "fst (install mode (keys_of s)) mode = Some (crypt_of nk)" using nk by (simp add: install_def keys_of_def)
  from hoareD [OF keys_use [OF this] u t] show "keys_of t = install mode (keys_of s)" .
  show "pk_current_keys s mode \<noteq> None" using nk by simp
qed

section \<open>Sending\<close>

lemma keys_send_stages [frame_intros]:
  "keeps keys_of (packet_compress C)" "keeps keys_of (add_padding C he bs)" "keeps keys_of (put_header p)"
  "keeps keys_of (encrypt_packet C)" "keeps keys_of (count_packet mode bs len)"
  unfolding packet_compress_def add_padding_def put_header_def encrypt_packet_def count_packet_def Let_def
  by (intro frame_intros; simp add: keys_simps)+

lemma keys_seal: "keeps keys_of (seal_packet C)"
  unfolding seal_packet_def by (intro frame_intros) (simp_all add: keys_simps)

lemma seal_type: "seal_packet C s = (Inr ty, t) \<Longrightarrow> packet_type s = Inr ty"
  by (auto simp: seal_packet_def packet_type_def bindP_Inr getP_def liftR_def retP_def)

definition sent_keys :: "byte \<Rightarrow> (kex_mode \<Rightarrow> (Enc \<times> Mac) option) \<times> (kex_mode \<Rightarrow> Newkeys option) \<Rightarrow>
   (kex_mode \<Rightarrow> (Enc \<times> Mac) option) \<times> (kex_mode \<Rightarrow> Newkeys option)" where
  "sent_keys ty kv = (if ty = SSH2_MSG_NEWKEYS then install MODE_OUT kv else kv)"

lemma keys_wrapped:
  assumes "packet_send2_wrapped C s = (Inr (), t)" "packet_type s = Inr ty"
  shows "keys_of t = sent_keys ty (keys_of s)"
proof -
  obtain u where u: "seal_packet C s = (Inr ty, u)"
    and t: "(if ty = SSH2_MSG_NEWKEYS then set_newkeys C MODE_OUT
      else whenP (ty = SSH2_MSG_USERAUTH_SUCCESS \<and> server_side) (packet_enable_delayed_compress C)) u = (Inr (), t)"
    using assms seal_type by (fastforce simp: packet_send2_wrapped_def bindP_Inr)
  have "keys_of u = keys_of s" using movesD [OF keys_seal u] .
  then show ?thesis using t keys_set_newkeys [of C MODE_OUT u t]
    by (auto simp: sent_keys_def whenP_def retP_def server_side_def split: if_splits)
qed

text \<open>The packets held back carry the type they are queued under.\<close>

definition queue_inv :: "('ev, 'z, 'm) Packets_scheme \<Rightarrow> bool" where
  "queue_inv s \<longleftrightarrow> rekey_inv s \<and> (\<forall>(ty, b) \<in> set (pk_outgoing s). \<exists>d. buffer_peek b 5 1 = Inr d \<and> d ! 0 = ty)"

lemma queue_inv_queue: "queue_of t = queue_of s \<Longrightarrow> queue_inv s \<Longrightarrow> queue_inv t"
  by (simp add: queue_inv_def queue_of_def rekey_inv_def)

lemma keys_flush:
  assumes "flush_queue n C s = (Inr (), t)"
    and "\<forall>(ty, b) \<in> set (pk_outgoing s). \<not> transport_type ty \<and> (\<exists>d. buffer_peek b 5 1 = Inr d \<and> d ! 0 = ty)"
  shows "keys_of t = keys_of s"
  using assms
proof (induction n arbitrary: s)
  case (Suc n)
  show ?case
  proof (cases "pk_outgoing s")
    case Nil
    then show ?thesis using Suc.prems(1) by (simp add: run_simps)
  next
    case (Cons a q)
    obtain ty b where a: "a = (ty, b)" by (cases a)
    let ?s = "s\<lparr>pk_outgoing_packet := b, pk_outgoing := q\<rparr>"
    obtain u where u: "packet_send2_wrapped C ?s = (Inr (), u)" and t: "flush_queue n C u = (Inr (), t)"
      using Suc.prems(1) Cons a by (auto simp: bindP_Inr getP_def modP_def)
    have ty: "packet_type ?s = Inr ty" "ty \<noteq> SSH2_MSG_NEWKEYS"
      using Suc.prems(2) Cons a by (auto simp: packet_type_def transport_type_def msg_consts)
    have q: "pk_outgoing u = q" using movesD [OF wrapped_queue u] by (simp add: queue_of_def)
    have "keys_of u = keys_of s" using keys_wrapped [OF u ty(1)] ty(2) by (simp add: sent_keys_def keys_of_def)
    then show ?thesis using Suc.IH [OF t] Suc.prems(2) Cons q by simp
  qed
qed (simp add: raiseP_def)

lemma keys_send:
  assumes "packet_send C s = (Inr (), t)" "queue_inv s" "packet_type s = Inr ty"
  shows "keys_of t = sent_keys ty (keys_of s)" "queue_inv t"
proof -
  have run: "packet_send2 C s = (Inr (), t)" using assms(1) by (simp add: packet_send_def)
  have k: "keys_of t = sent_keys ty (keys_of s) \<and> (\<forall>(ty, b) \<in> set (pk_outgoing t). \<exists>d. buffer_peek b 5 1 = Inr d \<and> d ! 0 = ty)"
    using run
  proof (cases rule: send2_cases)
    case (held ty')
    then show ?thesis using assms(2,3)
      by (auto simp: queue_inv_def packet_type_def bindR_eq_Inr sent_keys_def keys_of_def transport_type_def msg_consts)
  next
    case (newkeys u)
    have q: "pk_outgoing u = pk_outgoing s" using movesD [OF wrapped_queue newkeys(2)] by (simp add: queue_of_def)
    have "keys_of t = keys_of (u\<lparr>pk_send2_rekeying := False\<rparr>)"
      using assms(2) q by (intro keys_flush [OF newkeys(3)]) (auto simp: queue_inv_def rekey_inv_def)
    then show ?thesis using keys_wrapped [OF newkeys(2,1)] assms(3) newkeys(1) flush_queue_run [OF newkeys(3)]
      by (simp add: keys_of_def)
  next
    case (sent ty' u)
    have u: "packet_type u = packet_type s" "keys_of u = keys_of s" "pk_outgoing u = pk_outgoing s"
      using sent(6) by (simp_all add: packet_type_def keys_of_def)
    have "pk_outgoing t = pk_outgoing s" using movesD [OF wrapped_queue sent(5)] u(3) by (simp add: queue_of_def)
    then show ?thesis using keys_wrapped [OF sent(5)] u assms(2,3) by (simp add: queue_inv_def)
  qed
  then show "keys_of t = sent_keys ty (keys_of s)" "queue_inv t"
    using send_rekey_inv [OF assms(1)] assms(2) by (simp_all add: queue_inv_def)
qed

section \<open>Receiving\<close>

definition recv_keys :: "byte \<Rightarrow> (kex_mode \<Rightarrow> (Enc \<times> Mac) option) \<times> (kex_mode \<Rightarrow> Newkeys option) \<Rightarrow>
   (kex_mode \<Rightarrow> (Enc \<times> Mac) option) \<times> (kex_mode \<Rightarrow> Newkeys option)" where
  "recv_keys ty kv = (if ty = SSH2_MSG_NEWKEYS then install MODE_IN kv else kv)"

text \<open>A packet of that type was received: if it is NEWKEYS, there were keys to take into use.\<close>

abbreviation recvd :: "byte \<Rightarrow> (kex_mode \<Rightarrow> (Enc \<times> Mac) option) \<times> (kex_mode \<Rightarrow> Newkeys option) \<Rightarrow>
   (kex_mode \<Rightarrow> (Enc \<times> Mac) option) \<times> (kex_mode \<Rightarrow> Newkeys option) \<Rightarrow> bool" where
  "recvd ty kv kv' \<equiv> kv' = recv_keys ty kv \<and> (ty = SSH2_MSG_NEWKEYS \<longrightarrow> snd kv MODE_IN \<noteq> None)"

definition receives :: "('ev, 'z, 'm, byte \<times> u32) pproc \<Rightarrow> bool" where
  "receives m \<longleftrightarrow> (\<forall>s ty sq t. m s = (Inr (ty, sq), t) \<longrightarrow> recvd ty (keys_of s) (keys_of t))"

lemma receivesI: "(\<And>s ty sq t. m s = (Inr (ty, sq), t) \<Longrightarrow> recvd ty (keys_of s) (keys_of t)) \<Longrightarrow> receives m"
  by (simp add: receives_def)

lemma receivesD: "receives m \<Longrightarrow> m s = (Inr (ty, sq), t) \<Longrightarrow> recvd ty (keys_of s) (keys_of t)"
  by (simp add: receives_def)

lemma keys_receive_stages [frame_intros]:
  "keeps keys_of (decrypt_input C n)" "keeps keys_of (read_first_block C bs)" "keeps keys_of (check_mac C nk)"
  "keeps keys_of (strip_packet C)" "keeps keys_of (packet_uncompress C)"
  unfolding decrypt_input_def read_first_block_def check_mac_def strip_packet_def packet_uncompress_def
  by (intro frame_intros; simp add: keys_simps)+

lemma keys_parse [frame_intros]:
  "keeps keys_of packet_get_char" "keeps keys_of packet_get_int" "keeps keys_of packet_get_string" "keeps keys_of packet_get_raw"
  "keeps keys_of (packet_get_bignum2 L)" "keeps keys_of packet_remaining" "keeps keys_of (packet_process_incoming d)"
  unfolding packet_get_char_def packet_get_int_def packet_get_string_def packet_get_raw_def
    packet_get_bignum2_def packet_remaining_def packet_process_incoming_def
  by (intro frame_intros; simp add: keys_simps)+

lemma keys_build [frame_intros]:
  "keeps keys_of (packet_start type)" "keeps keys_of (packet_put_char c)" "keeps keys_of (packet_put_int n)"
  "keeps keys_of (packet_put_string d)" "keeps keys_of (packet_put_cstring str)" "keeps keys_of (packet_put_raw d)"
  "keeps keys_of (packet_put_bignum2 L v)"
  unfolding packet_start_def packet_put_char_def packet_put_int_def packet_put_string_def packet_put_cstring_def
    packet_put_raw_def packet_put_bignum2_def
  by (intro frame_intros; simp add: keys_simps)+

lemma keys_write [frame_intros]: "keeps keys_of packet_write_poll" "keeps keys_of (wait_socket msg)"
  unfolding packet_write_poll_def wait_socket_def by (intro frame_intros; simp add: keys_simps)+

lemma keys_write_loop [frame_intros]: "keeps keys_of (write_wait_loop n)"
  by (induction n) (auto intro!: frame_intros)

lemma keys_write_wait [frame_intros]: "keeps keys_of packet_write_wait" "keeps keys_of (packet_check_eom C)"
  unfolding packet_write_wait_def packet_check_eom_def by (intro frame_intros)+

lemma keys_take_type:
  assumes "take_type C s = (Inr ty, t)"
  shows "recvd ty (keys_of s) (keys_of t)"
proof -
  obtain b u where u: "(if ty = SSH2_MSG_NEWKEYS then set_newkeys C MODE_IN
      else whenP (ty = SSH2_MSG_USERAUTH_SUCCESS \<and> \<not> server_side) (packet_enable_delayed_compress C))
      (s\<lparr>pk_incoming_packet := b\<rparr>) = (Inr (), u)" and t: "t = u\<lparr>pk_poll2_packet_length := 0\<rparr>"
    using assms by (auto simp: take_type_def steps_Inr modP_def retP_def)
  have k: "keys_of (s\<lparr>pk_incoming_packet := b\<rparr>) = keys_of s" "keys_of t = keys_of u" by (simp_all add: t keys_of_def)
  show ?thesis
  proof (cases "ty = SSH2_MSG_NEWKEYS")
    case True
    then have "set_newkeys C MODE_IN (s\<lparr>pk_incoming_packet := b\<rparr>) = (Inr (), u)" using u by simp
    from keys_set_newkeys [OF this] show ?thesis using True k by (simp add: recv_keys_def) (simp add: keys_of_def)
  next
    case False
    let ?m = "whenP (ty = SSH2_MSG_USERAUTH_SUCCESS \<and> \<not> server_side) (packet_enable_delayed_compress C)"
    have m: "keeps keys_of ?m" by (intro frame_intros)
    have "?m (s\<lparr>pk_incoming_packet := b\<rparr>) = (Inr (), u)" using u False by simp
    from movesD [OF m this] show ?thesis using k False by (simp add: recv_keys_def)
  qed
qed

lemma keys_read_rest:
  assumes "read_rest C nk need len s = (Inr ty, t)"
  shows "recvd ty (keys_of s) (keys_of t)"
proof -
  let ?m = "bindP (decrypt_input C need) (\<lambda>_. bindP (on_input (\<lambda>b. buffer_consume b need)) (\<lambda>_.
      bindP (check_mac C nk) (\<lambda>_. bindP (count_packet MODE_IN (block_size_of nk) len) (\<lambda>_.
      bindP (strip_packet C) (\<lambda>_. whenP (comp_on nk) (packet_uncompress C))))))"
  obtain u where u: "?m s = (Inr (), u)" and t: "take_type C u = (Inr ty, t)"
    using assms by (fastforce simp: read_rest_def bindP_Inr)
  have "keeps keys_of ?m" by (intro frame_intros; simp add: keys_simps)
  then have "keys_of u = keys_of s" using u by (rule movesD)
  then show ?thesis using keys_take_type [OF t] by simp
qed

lemma keys_poll2: "receives (packet_read_poll2 C)"
proof (rule receivesI)
  fix s ty sq t
  assume run: "packet_read_poll2 C s = (Inr (ty, sq), t)"
  obtain st u where u: "read_first_block C (block_size_of (pk_newkeys s MODE_IN)) s = (Inr st, u)"
    and t: "t = u \<and> ty = SSH_MSG_NONE \<or> (\<exists>n l. read_rest C (pk_newkeys s MODE_IN) n l u = (Inr ty, t))"
    using run by (auto simp: packet_read_poll2_def Let_def bindP_Inr getP_def retP_def liftR_def when_disconnect
        split: if_splits)
  from t have "recvd ty (keys_of u) (keys_of t)"
  proof
    assume "t = u \<and> ty = SSH_MSG_NONE"
    then show ?thesis by (simp add: recv_keys_def msg_consts)
  qed (use keys_read_rest in blast)
  then show "recvd ty (keys_of s) (keys_of t)" using movesD [OF keys_receive_stages(2) u] by simp
qed

lemma keys_dispatch [frame_intros]: "keeps keys_of (poll_dispatch ty sq)"
  unfolding poll_dispatch_def by (intro frame_intros) (simp add: keys_simps)

lemma dispatch_result:
  "poll_dispatch ty sq s = (Inr None, t) \<Longrightarrow> ty \<noteq> SSH2_MSG_NEWKEYS"
  "poll_dispatch ty sq s = (Inr (Some r), t) \<Longrightarrow> r = (ty, sq)"
  by (auto simp: poll_dispatch_def bindP_Inr retP_def raiseP_def msg_consts split: if_splits)

lemma keys_poll_once:
  assumes "poll_once C s = (Inr r, t)"
  shows "case r of None \<Rightarrow> keys_of t = keys_of s | Some (ty, _) \<Rightarrow> recvd ty (keys_of s) (keys_of t)"
proof -
  obtain ty sq u where u: "packet_read_poll2 C s = (Inr (ty, sq), u)" and t: "poll_dispatch ty sq u = (Inr r, t)"
    using assms by (auto simp: poll_once_def bindP_Inr)
  have k: "recvd ty (keys_of s) (keys_of t)" using receivesD [OF keys_poll2 u] movesD [OF keys_dispatch t] by simp
  show ?thesis
  proof (cases r)
    case None
    then have "ty \<noteq> SSH2_MSG_NEWKEYS" using dispatch_result(1) t by simp
    then show ?thesis using k None by (simp add: recv_keys_def)
  next
    case (Some a)
    then have "a = (ty, sq)" using dispatch_result(2) t by simp
    then show ?thesis using k Some by simp
  qed
qed

lemma keys_poll_loop: "receives (poll_loop n C)"
proof (induction n)
  case (Suc n)
  show ?case
  proof (rule receivesI, goal_cases)
    case run: (1 s ty sq t)
    obtain r u where u: "poll_once C s = (Inr r, u)"
      and t: "(case r of None \<Rightarrow> poll_loop n C | Some x \<Rightarrow> retP x) u = (Inr (ty, sq), t)"
      using run by (auto simp: bindP_Inr)
    show ?case
    proof (cases r)
      case None
      then have "poll_loop n C u = (Inr (ty, sq), t)" using t by simp
      from receivesD [OF Suc.IH this] show ?thesis using keys_poll_once [OF u] None by simp
    next
      case (Some a)
      then show ?thesis using keys_poll_once [OF u] t by (simp add: retP_def)
    qed
  qed
qed (simp add: receives_def raiseP_def)

lemma keys_poll_seqnr: "receives (packet_read_poll_seqnr C)"
proof (rule receivesI)
  fix s ty sq t
  assume "packet_read_poll_seqnr C s = (Inr (ty, sq), t)"
  then have "poll_loop (Suc (Suc (unat (buffer_len (pk_input s))))) C s = (Inr (ty, sq), t)"
    by (simp only: packet_read_poll_seqnr_def bindP_Inr getP_def) simp
  then show "recvd ty (keys_of s) (keys_of t)" by (rule receivesD [OF keys_poll_loop])
qed

text \<open>The step from one call of \<open>recv\<close> to the next round of the loop.\<close>

lemma read_loop_cases:
  assumes "read_loop (Suc n) C s = (Inr (ty, sq), t)"
  obtains "packet_read_poll_seqnr C s = (Inr (ty, sq), t)"
  | sq' u v d w where "packet_read_poll_seqnr C s = (Inr (SSH_MSG_NONE, sq'), u)"
      "wait_socket ''timed out while waiting to read'' u = (Inr (), v)"
      "packet_process_incoming d (v\<lparr>pk_recv := tl (pk_recv v)\<rparr>) = (Inr (), w)" "read_loop n C w = (Inr (ty, sq), t)"
proof -
  obtain ty' sq' u where u: "packet_read_poll_seqnr C s = (Inr (ty', sq'), u)"
    using assms by (auto simp: bindP_Inr)
  show ?thesis
  proof (cases "ty' = SSH_MSG_NONE")
    case True
    then obtain v where v: "wait_socket ''timed out while waiting to read'' u = (Inr (), v)"
      using assms u by (auto simp: bindP_Inr)
    show ?thesis
    proof (cases "pk_recv v")
      case Nil
      then show ?thesis using assms u True v by (simp add: bindP_def getP_def raiseP_def)
    next
      case (Cons r rs)
      then show ?thesis using assms u True v that(2)
        by (cases r) (auto simp: bindP_def getP_def modP_def raiseP_def split: if_splits prod.splits sum.splits)
    qed
  next
    case False
    then show ?thesis using assms u that(1) by (simp add: bindP_def retP_def)
  qed
qed

lemma keys_read_loop: "receives (read_loop n C)"
proof (induction n)
  case (Suc n)
  show ?case
  proof (rule receivesI, goal_cases)
    case (1 s ty sq t)
    then show ?case
    proof (cases rule: read_loop_cases)
      case 1
      then show ?thesis by (rule receivesD [OF keys_poll_seqnr])
    next
      case (2 sq' u v d w)
      have "keys_of w = keys_of (v\<lparr>pk_recv := tl (pk_recv v)\<rparr>)" using movesD [OF keys_parse(7) 2(3)] .
      also have "\<dots> = keys_of v" by (simp add: keys_of_def)
      finally show ?thesis
        using receivesD [OF keys_poll_seqnr 2(1)] movesD [OF keys_write(2) 2(2)] receivesD [OF Suc.IH 2(4)]
        by (simp add: recv_keys_def msg_consts)
    qed
  qed
qed (simp add: receives_def raiseP_def)

lemma keys_read_seqnr: "receives (packet_read_seqnr C)"
proof (rule receivesI)
  fix s ty sq t
  assume "packet_read_seqnr C s = (Inr (ty, sq), t)"
  then obtain u where u: "packet_write_wait s = (Inr (), u)" "read_loop (Suc (length (pk_recv u))) C u = (Inr (ty, sq), t)"
    by (auto simp: packet_read_seqnr_def bindP_Inr getP_def simp del: read_loop.simps)
  then show "recvd ty (keys_of s) (keys_of t)"
    using movesD [OF keys_write_wait(1) u(1)] receivesD [OF keys_read_loop u(2)] by simp
qed

lemma keys_read: "packet_read C s = (Inr ty, t) \<Longrightarrow> keys_of t = recv_keys ty (keys_of s)"
  using receivesD [OF keys_read_seqnr, THEN conjunct1] by (auto simp: packet_read_def bindP_Inr retP_def)

lemma keys_expect: "packet_read_expect C ty s = (Inr (), t) \<Longrightarrow> keys_of t = recv_keys ty (keys_of s)"
  using keys_read by (auto simp: packet_read_expect_def bindP_Inr when_disconnect)

end
