(* ===== verification/Packet_Out.thy ===== *)
theory Packet_Out
  imports Kex_Install
begin

text \<open>
  The packet under construction: its buffer stays well formed, \<open>packet_start\<close> determines its type, and sending it
  changes the keys in use exactly if it is \<open>NEWKEYS\<close>.
\<close>

section \<open>Functions that append to a buffer\<close>

definition grows :: "(Buffer \<Rightarrow> Buffer res) \<Rightarrow> bool" where
  "grows f \<longleftrightarrow> (\<forall>b c. buffer_inv b \<longrightarrow> f b = Inr c \<longrightarrow> buffer_inv c \<and> (\<exists>x. bytes c = bytes b @ x))"

lemma growsD: "grows f \<Longrightarrow> buffer_inv b \<Longrightarrow> f b = Inr c \<Longrightarrow> buffer_inv c \<and> (\<exists>x. bytes c = bytes b @ x)"
  by (simp add: grows_def)

lemma grows_append: "grows (\<lambda>b. buffer_append b d)"
  unfolding grows_def using buffer_append_Inr by blast

lemma grows_put_string: "grows (\<lambda>b. buffer_put_string b d)"
  unfolding grows_def using wstring.put_Inr by blast

lemma grows_put_int: "grows (\<lambda>b. buffer_put_int b v)"
  unfolding grows_def using wint.put_Inr by blast

lemma grows_put_cstring: "grows (\<lambda>b. buffer_put_cstring b (Some d))"
  using grows_put_string by (simp add: buffer_put_cstring_def)

lemma grows_put_bignum2: "grows (\<lambda>b. buffer_put_bignum2 L b v)"
  unfolding grows_def
proof (intro allI impI)
  fix b c assume b: "buffer_inv b" and c: "buffer_put_bignum2 L b v = Inr c"
  then consider "buffer_put_int b 0 = Inr c" | d where "buffer_put_string b d = Inr c"
    by (auto simp: buffer_put_bignum2_def buffer_put_bignum2_ret_def Let_def bindR_eq_Inr split: if_splits)
  then show "buffer_inv c \<and> (\<exists>x. bytes c = bytes b @ x)"
    using growsD [OF grows_put_int b] growsD [OF grows_put_string b] by cases blast+
qed

section \<open>The invariant\<close>

definition out_inv :: "('ev, 'z, 'm) Packets_scheme \<Rightarrow> bool" where
  "out_inv s \<longleftrightarrow> queue_inv s \<and> buffer_inv (pk_outgoing_packet s) \<and> (\<forall>(ty, b) \<in> set (pk_outgoing s). buffer_inv b)"

definition building :: "byte \<Rightarrow> ('ev, 'z, 'm) Packets_scheme \<Rightarrow> bool" where
  "building ty s \<longleftrightarrow> out_inv s \<and> 6 \<le> length (bytes (pk_outgoing_packet s)) \<and> bytes (pk_outgoing_packet s) ! 5 = ty"

lemma building_type: "building ty s \<Longrightarrow> packet_type s = Inr ty"
  by (auto simp: building_def out_inv_def packet_type_def buffer_peek_ok)

lemma out_inv_out: "out_inv s \<Longrightarrow> buffer_inv b \<Longrightarrow> out_inv (s\<lparr>pk_outgoing_packet := b\<rparr>)"
  by (auto simp: out_inv_def queue_inv_def rekey_inv_def)

lemma start_building: "out_inv s \<Longrightarrow> packet_start ty s = (Inr (), t) \<Longrightarrow> building ty t"
proof -
  assume s: "out_inv s" and t: "packet_start ty s = (Inr (), t)"
  obtain b where b: "buffer_append (buffer_clear (pk_outgoing_packet s)) (replicate 5 0 @ [ty]) = Inr b"
      "t = s\<lparr>pk_outgoing_packet := b\<rparr>" using t by (auto simp: packet_start_def set_Inr)
  have "buffer_inv (buffer_clear (pk_outgoing_packet s))" using s by (simp add: out_inv_def)
  note buffer_append_Inr(1,2) [OF b(1) this]
  then show ?thesis using b(2) out_inv_out [OF s] by (simp add: building_def nth_append)
qed

lemma grow_building: "grows f \<Longrightarrow> stays (building ty) (on_outgoing f)"
proof (rule hoareI)
  fix s t and x :: unit
  assume f: "grows f" and s: "building ty s" and "on_outgoing f s = (Inr x, t)"
  then obtain b where b: "f (pk_outgoing_packet s) = Inr b" "t = s\<lparr>pk_outgoing_packet := b\<rparr>" by (auto simp: set_Inr)
  then obtain y where "buffer_inv b" "bytes b = bytes (pk_outgoing_packet s) @ y"
    using growsD [OF f _ b(1)] s by (auto simp: building_def out_inv_def)
  then show "building ty t" using s b(2) out_inv_out [of s b] by (simp add: building_def nth_append)
qed

lemma puts_building [stays_intros]:
  "stays (building ty) (packet_put_char c)" "stays (building ty) (packet_put_int n)" "stays (building ty) (packet_put_string d)"
  "stays (building ty) (packet_put_cstring str)" "stays (building ty) (packet_put_raw d)"
  "stays (building ty) (packet_put_bignum2 L v)"
  unfolding packet_put_char_def packet_put_int_def packet_put_string_def packet_put_cstring_def packet_put_raw_def
    packet_put_bignum2_def
  by (intro grow_building grows_append grows_put_int grows_put_string grows_put_cstring grows_put_bignum2)+

section \<open>Sending keeps it\<close>

abbreviation out_ok :: "('ev, 'z, 'm) Packets_scheme \<Rightarrow> bool" where
  "out_ok s \<equiv> buffer_inv (pk_outgoing_packet s)"

lemma stays_set: "(\<And>s p. P s \<Longrightarrow> f (sel s) = Inr p \<Longrightarrow> P (upd p s)) \<Longrightarrow> stays P (setR sel upd f)"
  by (auto simp: hoare_def set_Inr)

lemma stays_upd: "(\<And>s x p. P s \<Longrightarrow> f (sel s) = Inr (x, p) \<Longrightarrow> P (upd p s)) \<Longrightarrow> stays P (updR sel upd f)"
  by (auto simp: hoare_def upd_Inr)

lemma space_inv: "buffer_inv b \<Longrightarrow> buffer_append_space b n = Inr (p, c) \<Longrightarrow> buffer_inv c"
proof -
  assume inv: "buffer_inv b" and sp: "buffer_append_space b n = Inr (p, c)"
  have l: "unat n \<le> 0x100000"
    using sp by (simp add: buffer_append_space_def buffer_consts word_less_nat_alt split: if_splits)
  have "space_for b n (p, c)"
  proof (rule append_space_spec [OF inv l])
    fix ok
    assume "ok \<Longrightarrow> \<exists>r. buffer_append_space b n = Inr r \<and> space_for b n r"
      and "\<not> ok \<Longrightarrow> buffer_append_space b n = Inl (Fatal ''buffer_append_space: alloc'')"
    then show ?thesis using sp by (cases ok) simp_all
  qed
  then show ?thesis by (simp add: space_for_def)
qed

lemma poke_inv: "buffer_inv b \<Longrightarrow> buffer_poke b i d = Inr c \<Longrightarrow> buffer_inv c"
  "buffer_inv b \<Longrightarrow> buffer_fill p d b = Inr c \<Longrightarrow> buffer_inv c"
  by (auto simp: buffer_poke_def buffer_fill_def bindR_eq_Inr mem_write_eq_Inr buffer_inv_nat)

lemma out_ok_more [frame_intros]:
  "keeps pk_outgoing_packet packet_init_compression" "keeps pk_outgoing_packet (buffer_compress_init_send C l)"
  "keeps pk_outgoing_packet (buffer_compress_init_recv C)" "keeps pk_outgoing_packet (put_newkeys mode nk)"
  "keeps pk_outgoing_packet (buffer_compress C)" "keeps pk_outgoing_packet (buffer_uncompress C)"
  "keeps pk_outgoing_packet (encrypt_packet C)" "keeps pk_outgoing_packet (count_packet mode bs len)"
  unfolding packet_init_compression_def buffer_compress_init_send_def buffer_compress_init_recv_def put_newkeys_def
    buffer_compress_def buffer_uncompress_def encrypt_packet_def count_packet_def Let_def
  by (intro frame_intros; simp add: keys_simps)+

lemma out_ok_start_comp [frame_intros]: "keeps pk_outgoing_packet (start_comp C mode nk)"
  unfolding start_comp_def by (intro frame_intros)

lemma out_ok_keys [frame_intros]:
  "keeps pk_outgoing_packet (set_newkeys C mode)" "keeps pk_outgoing_packet (packet_enable_delayed_compress C)"
  unfolding set_newkeys_def use_newkeys_def kex_get_newkeys_def packet_enable_delayed_compress_def delayed_compress_def Let_def
  by (intro frame_intros; simp split: kex_mode.split)+

lemmas out_keeps = stays_keeps [where f = pk_outgoing_packet and P = out_ok]

lemma out_ok_stages:
  "stays out_ok (packet_compress C)" "stays out_ok (add_padding C he bs)" "stays out_ok (put_header p)"
proof -
  have o: "stays out_ok (on_outgoing f)" if "\<And>b c. buffer_inv b \<Longrightarrow> f b = Inr c \<Longrightarrow> buffer_inv c" for f
    by (rule stays_set) (simp add: that)
  have c: "stays out_ok (on_outgoing (\<lambda>b. buffer_consume b n))" for n
    by (rule o) (simp add: consume_inv)
  have a: "stays out_ok (on_outgoing (\<lambda>b. buffer_append b d))" for d
    by (rule o) (rule buffer_append_Inr(1))
  have a': "stays out_ok (on_outgoing (\<lambda>b. buffer_append (buffer_clear b) d))" for d
    by (rule o, erule buffer_append_Inr(1), rule buffer_clear_inv)
  have f: "stays out_ok (on_outgoing (buffer_fill p d))" for p d
    by (rule o) (rule poke_inv(2))
  have f': "stays out_ok (on_outgoing (\<lambda>b. buffer_poke b i d))" for i d
    by (rule o) (rule poke_inv(1))
  have m: "stays out_ok (modP h)" if "\<And>s. pk_outgoing_packet (h s) = pk_outgoing_packet s" for h
    using that by (simp add: hoare_mod)
  have k: "stays out_ok (buffer_compress C)" by (rule out_keeps) (auto intro!: frame_intros)
  show "stays out_ok (packet_compress C)"
    unfolding packet_compress_def by (intro stays_bind stays_basic c a a' m k) simp
  have sp: "stays out_ok (updR pk_outgoing_packet (\<lambda>b s. s\<lparr>pk_outgoing_packet := b\<rparr>) (\<lambda>b. buffer_append_space b n))" for n
    by (rule stays_upd) (simp add: space_inv)
  show "stays out_ok (add_padding C he bs)"
    unfolding add_padding_def Let_def by (intro stays_bind stays_basic stays_cases sp m f) simp_all
  show "stays out_ok (put_header p)"
    unfolding put_header_def by (intro stays_bind stays_basic f')
qed

lemma out_ok_wrapped: "stays out_ok (packet_send2_wrapped C)"
proof -
  have a: "stays out_ok (on_output f)" for f
    by (rule stays_set) simp
  have c: "stays out_ok (on_outgoing (\<lambda>b. Inr (buffer_clear b)))"
    by (rule stays_set) auto
  have k: "stays out_ok m" if "keeps pk_outgoing_packet m" for m using that by (rule out_keeps) simp
  have n: "stays out_ok (encrypt_packet C)" "stays out_ok (count_packet mode bs len)" "stays out_ok (set_newkeys C mode)"
      "stays out_ok (packet_enable_delayed_compress C)" for mode bs len
    by (intro k frame_intros)+
  show ?thesis
    unfolding packet_send2_wrapped_def seal_packet_def
    by (intro stays_bind stays_basic stays_cases out_ok_stages a c n)
qed

lemma out_ok_flush:
  assumes "flush_queue n C s = (Inr (), t)" "out_ok s" "\<forall>(ty, b) \<in> set (pk_outgoing s). buffer_inv b"
  shows "out_ok t"
  using assms
proof (induction n arbitrary: s)
  case (Suc n)
  show ?case
  proof (cases "pk_outgoing s")
    case Nil
    then show ?thesis using Suc.prems by (simp add: run_simps)
  next
    case (Cons a q)
    obtain ty b where a: "a = (ty, b)" by (cases a)
    let ?s = "s\<lparr>pk_outgoing_packet := b, pk_outgoing := q\<rparr>"
    obtain u where u: "packet_send2_wrapped C ?s = (Inr (), u)" and t: "flush_queue n C u = (Inr (), t)"
      using Suc.prems(1) Cons a by (auto simp: bindP_Inr getP_def modP_def)
    have "out_ok u" using hoareD [OF out_ok_wrapped _ u] Suc.prems(3) Cons a by simp
    moreover have "pk_outgoing u = q" using movesD [OF wrapped_queue u] by (simp add: queue_of_def)
    ultimately show ?thesis using Suc.IH [OF t] Suc.prems(3) Cons by simp
  qed
qed (simp add: raiseP_def)

lemma send_out_inv:
  assumes "packet_send C s = (Inr (), t)" "out_inv s"
  shows "out_inv t"
proof -
  have run: "packet_send2 C s = (Inr (), t)" using assms(1) by (simp add: packet_send_def)
  obtain d where "buffer_peek (pk_outgoing_packet s) 5 1 = Inr d"
    using run by (auto simp: packet_send2_def bindP_Inr getP_def liftR_def)
  then have "packet_type s = Inr (d ! 0)" by (simp add: packet_type_def)
  then have q: "queue_inv t" using keys_send(2) [OF assms(1)] assms(2) by (simp add: out_inv_def)
  have "out_ok t \<and> (\<forall>(ty, b) \<in> set (pk_outgoing t). buffer_inv b)" using run
  proof (cases rule: send2_cases)
    case (held ty)
    then show ?thesis using assms(2) by (auto simp: out_inv_def buffer_init_inv)
  next
    case (newkeys u)
    have u: "out_ok (u\<lparr>pk_send2_rekeying := False\<rparr>)" "pk_outgoing u = pk_outgoing s"
      using hoareD [OF out_ok_wrapped _ newkeys(2)] movesD [OF wrapped_queue newkeys(2)] assms(2)
      by (simp_all add: out_inv_def queue_of_def)
    have "out_ok t" by (rule out_ok_flush [OF newkeys(3) u(1)]) (use u(2) assms(2) in \<open>simp add: out_inv_def\<close>)
    then show ?thesis using flush_queue_run [OF newkeys(3)] by simp
  next
    case (sent ty u)
    have u: "out_ok u" "pk_outgoing u = pk_outgoing s" using sent(6) assms(2) by (simp_all add: out_inv_def)
    then show ?thesis using hoareD [OF out_ok_wrapped u(1) sent(5)] movesD [OF wrapped_queue sent(5)] assms(2)
      by (simp add: queue_of_def out_inv_def)
  qed
  then show ?thesis using q by (simp add: out_inv_def)
qed

lemma send_building:
  assumes "packet_send C s = (Inr (), t)" "building ty s"
  shows "out_inv t" "keys_of t = sent_keys ty (keys_of s)"
  using send_out_inv [OF assms(1)] keys_send(1) [OF assms(1) _ building_type [OF assms(2)]] assms(2)
  by (simp_all add: building_def out_inv_def)

section \<open>Receiving does not touch it\<close>

definition out_of :: "('ev, 'z, 'm) Packets_scheme \<Rightarrow> Buffer \<times> (byte \<times> Buffer) list \<times> bool" where
  "out_of s = (pk_outgoing_packet s, queue_of s)"

lemma out_inv_view: "out_of t = out_of s \<Longrightarrow> out_inv s \<Longrightarrow> out_inv t"
  by (simp add: out_of_def out_inv_def queue_of_def queue_inv_def rekey_inv_def)

lemmas out_simps = out_of_def queue_of_def packet_set_state_def packet_get_state_def Let_def

lemma out_compression [frame_intros]:
  "keeps out_of packet_init_compression" "keeps out_of (buffer_compress_init_send C l)"
  "keeps out_of (buffer_compress_init_recv C)" "keeps out_of (buffer_uncompress C)" "keeps out_of (put_newkeys mode nk)"
  unfolding packet_init_compression_def buffer_compress_init_send_def buffer_compress_init_recv_def buffer_uncompress_def
    put_newkeys_def
  by (intro frame_intros; simp add: out_simps)+

lemma out_start_comp [frame_intros]: "keeps out_of (start_comp C mode nk)"
  unfolding start_comp_def by (intro frame_intros)

lemma out_keys [frame_intros]: "keeps out_of (set_newkeys C mode)" "keeps out_of (packet_enable_delayed_compress C)"
  unfolding set_newkeys_def use_newkeys_def kex_get_newkeys_def packet_enable_delayed_compress_def delayed_compress_def Let_def
  by (intro frame_intros; simp add: out_simps split: kex_mode.split)+

lemma out_parse [frame_intros]:
  "keeps out_of packet_get_char" "keeps out_of packet_get_int" "keeps out_of packet_get_string" "keeps out_of packet_get_raw"
  "keeps out_of packet_get_string_ptr" "keeps out_of (packet_get_bignum2 L)" "keeps out_of packet_remaining"
  "keeps out_of (packet_process_incoming d)" "keeps out_of (count_packet mode bs len)"
  unfolding packet_get_char_def packet_get_int_def packet_get_string_def packet_get_raw_def packet_get_string_ptr_def
    packet_get_bignum2_def packet_remaining_def packet_process_incoming_def count_packet_def Let_def
  by (intro frame_intros; simp add: out_simps)+

lemma out_write [frame_intros]: "keeps out_of packet_write_poll" "keeps out_of (wait_socket msg)"
  unfolding packet_write_poll_def wait_socket_def by (intro frame_intros; simp add: out_simps)+

lemma out_write_loop [frame_intros]: "keeps out_of (write_wait_loop n)"
  by (induction n) (auto intro!: frame_intros)

lemma out_write_wait [frame_intros]: "keeps out_of packet_write_wait" "keeps out_of (packet_check_eom C)"
  unfolding packet_write_wait_def packet_check_eom_def by (intro frame_intros)+

lemma out_receive_stages [frame_intros]:
  "keeps out_of (decrypt_input C n)" "keeps out_of (read_first_block C bs)" "keeps out_of (check_mac C nk)"
  "keeps out_of (strip_packet C)" "keeps out_of (packet_uncompress C)" "keeps out_of (take_type C)"
  unfolding decrypt_input_def read_first_block_def check_mac_def strip_packet_def packet_uncompress_def take_type_def
  by (intro frame_intros; simp add: out_simps)+

lemma out_poll2 [frame_intros]: "keeps out_of (packet_read_poll2 C)"
  unfolding packet_read_poll2_def read_rest_def Let_def by (intro frame_intros) (simp_all add: out_simps)

lemma out_poll_once [frame_intros]: "keeps out_of (poll_once C)"
  unfolding poll_once_def poll_dispatch_def by (intro frame_intros) (simp_all add: out_simps)

lemma out_poll_loop [frame_intros]: "keeps out_of (poll_loop n C)"
  by (induction n) (auto intro!: frame_intros)

lemma out_poll_seqnr [frame_intros]: "keeps out_of (packet_read_poll_seqnr C)"
  unfolding packet_read_poll_seqnr_def by (intro frame_intros)

lemma out_read_loop [frame_intros]: "keeps out_of (read_loop n C)"
proof (induction n)
  case (Suc n)
  then show ?case unfolding read_loop.simps by (intro frame_intros Suc.IH) (simp_all add: out_simps)
qed (auto intro: frame_intros)

lemma out_read [frame_intros]:
  "keeps out_of (packet_read_seqnr C)" "keeps out_of (packet_read C)" "keeps out_of (packet_read_expect C ty)"
  unfolding packet_read_seqnr_def packet_read_def packet_read_expect_def by (intro frame_intros)+

end
