(* ===== verification/Kex_Server_Props.thy ===== *)
theory Kex_Server_Props
  imports Kex_Server Kex_Install Packet_Out
begin

text \<open>
  What a key exchange of the server achieves: once it ends, both directions of the packet layer use the keys
  derived from the exchange hash, the shared secret and the session identifier, and the session identifier is
  the hash of the first exchange for the whole life of the connection.
\<close>

section \<open>What the packet layer leaves alone\<close>

lemma ext_KexConn:
  assumes "ext t = ext (s :: ('ev, 'z, 'm) KexConn_scheme)"
  shows "kc_kex t = kc_kex s" "kc_host_keys t = kc_host_keys s" "kc_session_id2 t = kc_session_id2 s"
    "KexConn.more t = KexConn.more s" "kc_dh t = kc_dh s" "kc_client_version t = kc_client_version s"
    "kc_server_version t = kc_server_version s"
  using assms by (cases s; cases t; simp)+

lemma kex_keeps [frame_intros]: "keeps ext m \<Longrightarrow> keeps kc_kex m"
  unfolding moves_def by (meson ext_KexConn(1))

section \<open>An exchange installs its keys\<close>

lemma bindP_unit: "bindP m (k :: unit \<Rightarrow> _) s = (Inr y, t) \<longleftrightarrow> (\<exists>u. m s = (Inr (), u) \<and> k () u = (Inr y, t))"
  by (simp add: bindP_Inr)

definition finished :: "Kex \<Rightarrow> Kex" where
  "finished k = k\<lparr>k_done := True, k_peer := buffer_clear (k_peer k), k_init_sent := False, k_name := None\<rparr>"

lemma nonnull_Inr: "nonnull p = Inr x \<longleftrightarrow> p = Some x"
  by (auto simp: nonnull_def split: option.split)

lemma kex_finish_keys:
  assumes "kex_finish C s = (Inr (), t)" "out_inv s" "kc_kex s = Some k"
  shows "kc_kex t = Some (finished k)" "out_inv t" "keys_of t = ((\<lambda>mode. map_option crypt_of (pk_current_keys s mode)), \<lambda>_. None)"
proof -
  obtain u v w x where u: "packet_start SSH2_MSG_NEWKEYS s = (Inr (), u)" and v: "packet_send C u = (Inr (), v)"
    and w: "packet_read_expect C SSH2_MSG_NEWKEYS v = (Inr (), w)" and x: "packet_check_eom C w = (Inr (), x)"
    and t: "kc_kex x \<noteq> None \<longrightarrow> t = x\<lparr>kc_kex := Some (finished (the (kc_kex x)))\<rparr>"
    using assms(1) by (auto simp: kex_finish_def finished_def bindP_Inr getP_def liftR_def nonnull_Inr modP_def)
  have b: "building SSH2_MSG_NEWKEYS u" using start_building [OF assms(2) u] .
  have kx: "kc_kex x = Some k"
    using movesD [OF kex_keeps [OF ext_build(1)] u] movesD [OF kex_keeps [OF ext_send] v]
      movesD [OF kex_keeps [OF ext_read(3)] w] movesD [OF kex_keeps [OF ext_check_eom] x] assms(3) by simp
  then have t: "t = x\<lparr>kc_kex := Some (finished k)\<rparr>" using t by simp
  then show "kc_kex t = Some (finished k)" by simp
  have "out_inv x"
    using send_building(1) [OF v b] out_inv_view movesD [OF out_read(3) w] movesD [OF out_write_wait(2) x] by metis
  then show "out_inv t" using t by (simp add: out_inv_def queue_inv_def rekey_inv_def)
  have "keys_of x = install MODE_IN (install MODE_OUT (keys_of s))"
    using movesD [OF keys_build(1) u] send_building(2) [OF v b] keys_expect [OF w] movesD [OF keys_write_wait(2) x]
    by (simp add: sent_keys_def recv_keys_def)
  moreover have "keys_of t = keys_of x" using t by (simp add: keys_of_def)
  ultimately show "keys_of t = ((\<lambda>mode. map_option crypt_of (pk_current_keys s mode)), \<lambda>_. None)"
    by (auto simp: install_def keys_of_def fun_eq_iff) (metis kex_mode.exhaust)+
qed

abbreviation derived :: "kex_lib \<Rightarrow> u32 \<Rightarrow> Kex \<Rightarrow> byte list \<Rightarrow> int \<Rightarrow> ((kex_mode \<Rightarrow> Newkeys option) \<times> Kex) res" where
  "derived E \<equiv> kex_derive_keys (kl_bn E) (kl_MD_size E) (EVP_Digest (kl_ossl E))"

lemma derived_kex: "derived E df k hash secret = Inr (keys, k') \<Longrightarrow> k' = k\<lparr>k_newkeys := (\<lambda>_. None)\<rparr> \<and> (\<forall>mode. keys mode \<noteq> None)"
  by (cases "k_newkeys k MODE_IN"; cases "k_newkeys k MODE_OUT")
    (auto simp: kex_derive_keys_def Let_def bindR_eq_Inr simp del: derive_all.simps split: kex_mode.split)

lemma ext_reply: "keeps ext (send_reply C E reply blob pub sig)"
  unfolding send_reply_def by (intro frame_intros)

lemma reply_out:
  assumes "send_reply C E reply blob pub sig s = (Inr (), t)" "out_inv s"
  shows "out_inv t"
proof -
  let ?puts = "bindP (packet_put_string blob) (\<lambda>_. bindP (packet_put_bignum2 (kl_bn E) pub) (\<lambda>_. packet_put_string sig))"
  obtain u v where u: "packet_start reply s = (Inr (), u)" and v: "?puts u = (Inr (), v)" and t: "packet_send C v = (Inr (), t)"
    using assms(1) unfolding send_reply_def bindP_unit [of "packet_start reply"] bindP_unit [of ?puts] by blast
  have "stays (building reply) ?puts" by (intro stays_intros)
  then have "building reply v" using start_building [OF assms(2) u] v by (rule hoareD)
  then show ?thesis by (rule send_building(1) [OF t])
qed

lemma finish_exchange_keys:
  assumes "finish_exchange C E reply host_key blob pub hash secret s = (Inr (), t)" "out_inv s" "kc_kex s = Some k"
  shows "out_inv t"
    and "\<exists>df keys. derived E df (save_session_id hash k) hash secret = Inr (keys, (save_session_id hash k)\<lparr>k_newkeys := (\<lambda>_. None)\<rparr>) \<and>
      kc_kex t = Some (finished ((save_session_id hash k)\<lparr>k_newkeys := (\<lambda>_. None)\<rparr>)) \<and>
      keys_of t = ((\<lambda>mode. map_option crypt_of (keys mode)), \<lambda>_. None)"
proof -
  let ?k = "save_session_id hash k" and ?s = "s\<lparr>kc_kex := Some (save_session_id hash k)\<rparr>" and ?df = "pk_datafellows s"
  obtain sig w where w: "send_reply C E reply blob pub sig ?s = (Inr (), w)"
    and rest: "bindP get_kex (\<lambda>kex. bindP (liftR (derived E ?df kex hash secret)) (\<lambda>(keys, kex).
      bindP (modP (\<lambda>s. s\<lparr>pk_current_keys := keys, kc_kex := Some kex\<rparr>)) (\<lambda>_. kex_finish C))) w = (Inr (), t)"
  proof (cases "bindR (key_sign (kl_bn E) (kl_ossl E) ?df host_key hash) nonnull")
    case (Inl e)
    then show ?thesis using assms(1,3) by (simp add: finish_exchange_def bindP_def getP_def liftR_def modP_def nonnull_def)
  next
    case (Inr sig)
    then have "bindP (send_reply C E reply blob pub sig) (\<lambda>_. bindP get_kex (\<lambda>kex.
        bindP (liftR (derived E ?df kex hash secret)) (\<lambda>(keys, kex).
        bindP (modP (\<lambda>s. s\<lparr>pk_current_keys := keys, kc_kex := Some kex\<rparr>)) (\<lambda>_. kex_finish C)))) ?s = (Inr (), t)"
      using assms(1,3) by (simp add: finish_exchange_def bindP_def getP_def liftR_def modP_def nonnull_def)
    then show ?thesis using that unfolding bindP_unit [of "send_reply C E reply blob pub sig"] by blast
  qed
  have s: "out_inv ?s" using assms(2) by (simp add: out_inv_def queue_inv_def rekey_inv_def)
  have kw: "kc_kex w = Some ?k" using movesD [OF kex_keeps [OF ext_reply] w] by simp
  obtain keys k' where d: "derived E ?df ?k hash secret = Inr (keys, k')"
    and t: "kex_finish C (w\<lparr>pk_current_keys := keys, kc_kex := Some k'\<rparr>) = (Inr (), t)"
    using rest kw by (auto simp: bindP_Inr getP_def liftR_def modP_def nonnull_def)
  then have k': "k' = ?k\<lparr>k_newkeys := (\<lambda>_. None)\<rparr>" using derived_kex by blast
  let ?w = "w\<lparr>pk_current_keys := keys, kc_kex := Some k'\<rparr>"
  have o: "out_inv ?w" using reply_out [OF w s] by (simp add: out_inv_def queue_inv_def rekey_inv_def)
  note fin = kex_finish_keys [OF t o, of k']
  show "out_inv t" using fin(2) by simp
  show "\<exists>df keys. derived E df ?k hash secret = Inr (keys, ?k\<lparr>k_newkeys := (\<lambda>_. None)\<rparr>) \<and>
      kc_kex t = Some (finished (?k\<lparr>k_newkeys := (\<lambda>_. None)\<rparr>)) \<and> keys_of t = ((\<lambda>mode. map_option crypt_of (keys mode)), \<lambda>_. None)"
    using d k' fin(1,3) by auto
qed

section \<open>The two exchanges\<close>

text \<open>The connection holds the state \<open>k\<close> of an exchange and the host keys \<open>hks\<close>.\<close>

definition in_kex :: "Kex \<Rightarrow> Key option list \<Rightarrow> ('ev, 'z, 'm) KexConn_scheme \<Rightarrow> bool" where
  "in_kex k hks s \<longleftrightarrow> out_inv s \<and> kc_kex s = Some k \<and> kc_host_keys s = hks"

lemma in_kex_keeps: "keeps ext m \<Longrightarrow> keeps out_of m \<Longrightarrow> stays (in_kex k hks) m"
  unfolding hoare_def in_kex_def moves_def using out_inv_view by (metis ext_KexConn(1,2))

lemma hoare_after: "stays P m \<Longrightarrow> (\<And>x. hoare P (k x) Q) \<Longrightarrow> hoare P (bindP m k) Q"
  by (rule hoare_bind)

lemma hoare_lift_bind: "(\<And>x. r = Inr x \<Longrightarrow> hoare P (k x) Q) \<Longrightarrow> hoare P (bindP (liftR r) k) Q"
  by (cases r) (auto simp: hoare_def bindP_def liftR_def)

lemma hoare_pure: "(F \<Longrightarrow> hoare P m Q) \<Longrightarrow> hoare (\<lambda>s. P s \<and> F) m Q"
  unfolding hoare_def by blast

lemma hoare_split: "(\<And>x y. r = (x, y) \<Longrightarrow> hoare P (k x y) Q) \<Longrightarrow> hoare P (case r of (x, y) \<Rightarrow> k x y) Q"
  by (cases r) simp

lemma get_kex_bind: "hoare (in_kex k hks) (n k) Q \<Longrightarrow> hoare (in_kex k hks) (bindP get_kex n) Q"
  by (simp add: hoare_def in_kex_def bindP_def getP_def liftR_def nonnull_def)

text \<open>Both directions use the keys derived from the exchange hash and the shared secret, no further keys wait to be
  taken into use, and the exchange is over.\<close>

definition rekeyed :: "kex_lib \<Rightarrow> Kex \<Rightarrow> byte list \<Rightarrow> int \<Rightarrow> ('ev, 'z, 'm) KexConn_scheme \<Rightarrow> bool" where
  "rekeyed E k hash secret t \<longleftrightarrow> out_inv t \<and> (\<exists>df keys.
     derived E df (save_session_id hash k) hash secret = Inr (keys, (save_session_id hash k)\<lparr>k_newkeys := (\<lambda>_. None)\<rparr>) \<and>
     kc_kex t = Some (finished ((save_session_id hash k)\<lparr>k_newkeys := (\<lambda>_. None)\<rparr>)) \<and> pk_current_keys t = (\<lambda>_. None) \<and>
     (\<forall>mode. map_option crypt_of (pk_newkeys t mode) = map_option crypt_of (keys mode) \<and> keys mode \<noteq> None))"

lemma finish_rekeyed:
  "hoare (in_kex k hks) (finish_exchange C E reply host_key blob pub hash secret) (\<lambda>_. rekeyed E k hash secret)"
proof (rule hoareI, goal_cases)
  case (1 s x t)
  have k: "out_inv s" "kc_kex s = Some k" using 1(1) by (simp_all add: in_kex_def)
  have "finish_exchange C E reply host_key blob pub hash secret s = (Inr (), t)" using 1(2) by simp
  note f = finish_exchange_keys [OF this k]
  obtain df keys where d: "derived E df (save_session_id hash k) hash secret = Inr (keys, (save_session_id hash k)\<lparr>k_newkeys := (\<lambda>_. None)\<rparr>)"
    "kc_kex t = Some (finished ((save_session_id hash k)\<lparr>k_newkeys := (\<lambda>_. None)\<rparr>))"
    "keys_of t = ((\<lambda>mode. map_option crypt_of (keys mode)), \<lambda>_. None)" using f(2) by blast
  have "map_option crypt_of (pk_newkeys t mode) = map_option crypt_of (keys mode) \<and> keys mode \<noteq> None" for mode
    using d(3) derived_kex [OF d(1)] by (simp add: keys_of_def fun_eq_iff)
  moreover have "pk_current_keys t = (\<lambda>_. None)" using d(3) by (simp add: keys_of_def)
  ultimately show ?case using f(1) d(1,2) unfolding rekeyed_def by blast
qed

text \<open>The public values of an exchange in a group, and the secret the server computes with its private value.\<close>

definition agreed :: "kex_lib \<Rightarrow> int \<times> int \<Rightarrow> int \<Rightarrow> int \<Rightarrow> int \<Rightarrow> bool" where
  "agreed E grp client_pub server_pub secret \<longleftrightarrow>
     dh_pub_is_valid (kl_bn E) (fst grp) client_pub \<and> dh_pub_is_valid (kl_bn E) (fst grp) server_pub \<and>
     (\<exists>i tries priv kbuf. DH_generate_key E i grp tries = (priv, server_pub) \<and>
       DH_compute_key E grp priv client_pub = Some kbuf \<and> BN_bin2bn (kl_bn E) kbuf = Some secret)"

lemma dh_gen_loop_cand: "dh_gen_loop n L p cand tries = Inr r \<Longrightarrow> \<exists>j. r = cand j"
  by (induction n arbitrary: tries) (auto split: if_splits)

lemma dh_gen_key_ok:
  assumes "dh_gen_key L p cand need = Inr (priv, pub)"
  shows "dh_pub_is_valid L p pub \<and> (\<exists>j. cand j = (priv, pub))"
proof -
  have l: "dh_gen_loop 12 L p cand 0 = Inr (priv, pub)" using assms by (simp add: dh_gen_key_def split: if_splits)
  then have "dh_pub_is_valid L p (snd (priv, pub))" using dh_gen_loop_enough(1) [of 0 12 L p cand "(priv, pub)"] by simp
  then show ?thesis using dh_gen_loop_cand [OF l] by (metis snd_conv)
qed

lemma gen_dh_hoare:
  "hoare (in_kex k hks) (gen_dh E grp kex) (\<lambda>(priv, pub) s. in_kex k hks s \<and>
     dh_pub_is_valid (kl_bn E) (fst grp) pub \<and> (\<exists>i j. DH_generate_key E i grp j = (priv, pub)))"
proof (rule hoareI, goal_cases)
  case (1 s r t)
  obtain priv pub where r: "r = (priv, pub)" by fastforce
  have g: "dh_gen_key (kl_bn E) (fst grp) (DH_generate_key E (kc_dh s) grp) (sint (k_we_need kex * 8)) = Inr (priv, pub)"
    and t: "t = s\<lparr>kc_dh := kc_dh s + 1\<rparr>"
    using 1(2) by (auto simp: gen_dh_def bindP_Inr getP_def modP_def liftR_def r)
  have "in_kex k hks t" using 1(1) t by (simp add: in_kex_def out_inv_def queue_inv_def rekey_inv_def)
  then show ?case using dh_gen_key_ok [OF g] by (auto simp: r)
qed

lemma client_pub_hoare:
  "hoare (in_kex k hks) (get_client_pub C E grp priv) (\<lambda>(client_pub, secret) s. in_kex k hks s \<and>
     dh_pub_is_valid (kl_bn E) (fst grp) client_pub \<and>
     (\<exists>kbuf. DH_compute_key E grp priv client_pub = Some kbuf \<and> BN_bin2bn (kl_bn E) kbuf = Some secret))"
  unfolding get_client_pub_def
  apply (rule hoare_after, rule in_kex_keeps, (intro frame_intros)+)
  apply (rule hoare_after, rule in_kex_keeps, (intro frame_intros)+)
  apply (rule hoare_bind [where Q = "\<lambda>_ s. in_kex k hks s \<and> dh_pub_is_valid (kl_bn E) (fst grp) _"], rule hoare_when)
    apply (rule hoare_throws [OF throws_disconnect])
   apply simp
  apply (rule hoare_pure)
  apply (rule hoare_lift_bind)+
  apply (rule hoare_ret)
  apply (auto simp: someR_def split: option.splits)
  done

lemma load_host_key_hoare:
  "hoare (in_kex k hks) (load_host_key kex) (\<lambda>host_key s. in_kex k hks s \<and> get_hostkey_by_type hks (k_hostkey_type kex) = Some host_key)"
  unfolding load_host_key_def hoare_def
  by (auto simp: bindP_Inr getP_def liftR_def someR_def in_kex_def split: option.splits)

lemma hoare_pairs: "(\<And>x y. hoare (P x y) (k x y) Q) \<Longrightarrow> hoare ((case r of (x, y) \<Rightarrow> P x y)) (case r of (x, y) \<Rightarrow> k x y) Q"
  by (cases r) simp

text \<open>The exchange hash covers what both sides have said: the versions, the two KEXINIT payloads, the host key and
  the public values, in a group the client and the server agreed on, and the shared secret.\<close>

definition dh_exchange :: "kex_lib \<Rightarrow> Kex \<Rightarrow> Key option list \<Rightarrow> int \<Rightarrow> byte list \<Rightarrow> bool" where
  "dh_exchange E k hks secret hash \<longleftrightarrow> (\<exists>grp host_key blob ckexinit skexinit client_pub server_pub.
     grp \<in> {dh_new_group1, dh_new_group14} \<and>
     get_hostkey_by_type hks (k_hostkey_type k) = Some host_key \<and> host_key_blob E host_key = Inr blob \<and>
     contents (k_peer k) = Inr ckexinit \<and> contents (k_my k) = Inr skexinit \<and> agreed E grp client_pub server_pub secret \<and>
     kex_dh_hash (kl_bn E) (EVP_Digest (kl_ossl E)) (k_client_version k) (k_server_version k) ckexinit skexinit blob
       client_pub server_pub secret = Inr hash)"

definition gex_exchange :: "kex_lib \<Rightarrow> Kex \<Rightarrow> Key option list \<Rightarrow> int \<Rightarrow> byte list \<Rightarrow> bool" where
  "gex_exchange E k hks secret hash \<longleftrightarrow> (\<exists>nbits lo hi old host_key blob ckexinit skexinit client_pub server_pub.
     DH_GRP_MIN \<le> lo \<and> lo \<le> nbits \<and> nbits \<le> hi \<and> hi \<le> DH_GRP_MAX \<and>
     get_hostkey_by_type hks (k_hostkey_type k) = Some host_key \<and> host_key_blob E host_key = Inr blob \<and>
     contents (k_peer k) = Inr ckexinit \<and> contents (k_my k) = Inr skexinit \<and>
     agreed E (choose_dh lo nbits hi) client_pub server_pub secret \<and>
     kexgex_hash (kl_bn E) (EVP_Digest (kl_ossl E)) (k_evp_md k) (k_client_version k) (k_server_version k) ckexinit skexinit
       blob (if old then - 1 else lo) nbits (if old then - 1 else hi) (fst (choose_dh lo nbits hi)) (snd (choose_dh lo nbits hi))
       client_pub server_pub secret = Inr hash)"

lemma kexdh_hoare:
  "hoare (in_kex k hks) (kexdh_server C E) (\<lambda>_ t. \<exists>secret hash. dh_exchange E k hks secret hash \<and> rekeyed E k hash secret t)"
  unfolding kexdh_server_def
  apply (rule get_kex_bind)
  apply (rule hoare_lift_bind)
  apply (rule hoare_bind [OF gen_dh_hoare], rule hoare_pairs, rule hoare_pure)
  apply (rule hoare_after, rule in_kex_keeps, (intro frame_intros)+)
  apply (rule hoare_bind [OF load_host_key_hoare], rule hoare_pure)
  apply (rule hoare_bind [OF client_pub_hoare], rule hoare_pairs, rule hoare_pure)
  apply (rule hoare_lift_bind)+
  apply (rule hoare_weaken [OF finish_rekeyed], assumption)
  subgoal premises p for grp _ priv server_pub _ host_key _ client_pub secret blob ckexinit skexinit hash
  proof -
    have "grp \<in> {dh_new_group1, dh_new_group14}" using p(1) by (auto split: kex_exchange.splits)
    moreover have "agreed E grp client_pub server_pub secret" unfolding agreed_def using p(2,4) by blast
    ultimately have "dh_exchange E k hks secret hash" unfolding dh_exchange_def using p(3,5-8) by blast
    then show ?thesis using p(9) by blast
  qed
  done

lemma gex_request_hoare:
  "hoare (in_kex k hks) (gex_request C) (\<lambda>(lo, nbits, hi, old) s. in_kex k hks s \<and>
     DH_GRP_MIN \<le> lo \<and> lo \<le> nbits \<and> nbits \<le> hi \<and> hi \<le> DH_GRP_MAX)"
proof -
  let ?P = "\<lambda>(lo, nbits, hi, old) s. in_kex k hks s \<and> DH_GRP_MIN \<le> lo \<and> hi \<le> DH_GRP_MAX"
  have i: "stays (in_kex k hks) packet_get_int" by (rule in_kex_keeps) (intro frame_intros)+
  have e: "stays (in_kex k hks) (packet_check_eom C)" by (rule in_kex_keeps) (intro frame_intros)+
  show ?thesis unfolding gex_request_def
    apply (rule hoare_after, rule in_kex_keeps, (intro frame_intros)+)
    apply (rule hoare_bind [where Q = ?P])
     apply (intro hoare_if hoare_after [OF i] hoare_ret hoare_raise; simp add: DH_GRP_MIN_def DH_GRP_MAX_def)
    apply (rule hoare_pairs)+
    apply (rule hoare_pure, rule hoare_after [OF e])
    apply (intro hoare_if hoare_raise hoare_ret)
    apply simp
    done
qed

lemma start_in_kex: "hoare (in_kex k hks) (packet_start ty) (\<lambda>_ s. in_kex k hks s \<and> building ty s)"
proof (rule hoareI, goal_cases)
  case (1 s x t)
  have "building ty t" using start_building [of s ty t] 1 by (simp add: in_kex_def)
  then show ?case using 1(1) ext_KexConn(1,2) [OF movesD [OF ext_build(1) 1(2)]] by (simp add: in_kex_def building_def)
qed

lemma put_in_kex:
  assumes "keeps ext m" "stays (building ty) m"
  shows "stays (\<lambda>s. in_kex k hks s \<and> building ty s) m"
  using assms unfolding hoare_def in_kex_def moves_def by (metis building_def ext_KexConn(1,2))

lemma send_in_kex: "hoare (\<lambda>s. in_kex k hks s \<and> building ty s) (packet_send C) (\<lambda>_. in_kex k hks)"
proof (rule hoareI, goal_cases)
  case (1 s x t)
  then show ?case using send_building(1) [of C s t ty] ext_KexConn(1,2) [OF movesD [OF ext_send 1(2)]] by (simp add: in_kex_def)
qed

lemma kexgex_hoare:
  "hoare (in_kex k hks) (kexgex_server C E) (\<lambda>_ t. \<exists>secret hash. gex_exchange E k hks secret hash \<and> rekeyed E k hash secret t)"
  unfolding kexgex_server_def Let_def
  apply (rule get_kex_bind)
  apply (rule hoare_bind [OF load_host_key_hoare], rule hoare_pure)
  apply (rule hoare_bind [OF gex_request_hoare], (rule hoare_pairs)+, rule hoare_pure)
  apply (rule hoare_bind [OF start_in_kex])
  apply (rule hoare_after, rule put_in_kex, intro frame_intros, intro stays_intros)
  apply (rule hoare_after, rule put_in_kex, intro frame_intros, intro stays_intros)
  apply (rule hoare_bind [OF send_in_kex])
  apply (rule hoare_after, rule in_kex_keeps, (intro frame_intros)+)
  apply (rule hoare_bind [OF gen_dh_hoare], rule hoare_pairs, rule hoare_pure)
  apply (rule hoare_after, rule in_kex_keeps, (intro frame_intros)+)
  apply (rule hoare_bind [OF client_pub_hoare], rule hoare_pairs, rule hoare_pure)
  apply (rule hoare_lift_bind)+
  apply (rule hoare_weaken [OF finish_rekeyed], assumption)
  subgoal premises p for host_key _ lo _ nbits _ hi old _ _ _ _ _ _ priv server_pub _ _ client_pub secret blob ckexinit skexinit hash
  proof -
    have "agreed E (choose_dh lo nbits hi) client_pub server_pub secret" unfolding agreed_def using p(3,4) by blast
    then have "gex_exchange E k hks secret hash" unfolding gex_exchange_def using p(1,2,5-8) by blast
    then show ?thesis using p(9) by blast
  qed
  done

section \<open>From KEXINIT to the keys\<close>

text \<open>What the messages of the peer cannot change while an exchange is set up.\<close>

definition id_of :: "Kex \<Rightarrow> byte list option \<times> string \<times> string" where
  "id_of k = (k_session_id k, k_client_version k, k_server_version k)"

definition some_kex :: "byte list option \<times> string \<times> string \<Rightarrow> Key option list \<Rightarrow> ('ev, 'z, 'm) KexConn_scheme \<Rightarrow> bool" where
  "some_kex v hks s \<longleftrightarrow> (\<exists>k. in_kex k hks s \<and> id_of k = v)"

lemma some_kexI: "in_kex k hks s \<Longrightarrow> id_of k = v \<Longrightarrow> some_kex v hks s"
  unfolding some_kex_def by blast

lemma some_kex_hoare: "(\<And>k. id_of k = v \<Longrightarrow> hoare (in_kex k hks) m Q) \<Longrightarrow> hoare (some_kex v hks) m Q"
  unfolding some_kex_def hoare_def by blast

lemma getP_kex_bind: "hoare (in_kex k hks) (n (Some k)) Q \<Longrightarrow> hoare (in_kex k hks) (bindP (getP kc_kex) n) Q"
  by (simp add: hoare_def in_kex_def bindP_def getP_def)

lemma in_kex_update:
  "in_kex k hks s \<Longrightarrow> in_kex k' hks (s\<lparr>kc_kex := Some k'\<rparr>)" "in_kex k hks s \<Longrightarrow> in_kex k hks (s\<lparr>pk_arc4 := c\<rparr>)"
  "in_kex k hks s \<Longrightarrow> in_kex k hks (s\<lparr>kc_myproposal := p\<rparr>)"
  by (simp_all add: in_kex_def out_inv_def queue_inv_def rekey_inv_def)

lemma set_kex_bind: "hoare (in_kex k' hks) (n ()) Q \<Longrightarrow> hoare (in_kex k hks) (bindP (set_kex k') n) Q"
  by (rule hoare_bind [where Q = "\<lambda>_. in_kex k' hks"]) (auto intro: hoare_mod in_kex_update)

lemma send_kexinit_done:
  "hoare (in_kex k hks) (kex_send_kexinit C) (\<lambda>_ s. some_kex (id_of k) hks s \<and> (k_done k \<or> \<not> kex_done s))"
  unfolding kex_send_kexinit_def
  apply (rule getP_kex_bind, simp only: option.case)
  apply (rule hoare_if, rule hoare_ret, rule conjI, erule some_kexI, rule refl, simp add: kex_done_def in_kex_def)
  apply (rule set_kex_bind, rule hoare_if, rule hoare_raise)
  apply (rule hoare_after, rule stays_basic, rule hoare_prod)
  apply (rule hoare_after, rule stays_mod, erule in_kex_update)
  apply (rule hoare_lift_bind, rule set_kex_bind)
  apply (rule hoare_bind [OF start_in_kex], rule hoare_lift_bind)
  apply (rule hoare_after, rule put_in_kex, intro frame_intros, intro stays_intros)
  apply (rule hoare_bind [OF send_in_kex], rule hoare_mod, rule conjI, rule some_kexI, erule in_kex_update)
   apply (simp_all add: id_of_def kex_done_def)
  done

lemma send_kexinit_hoare: "hoare (in_kex k hks) (kex_send_kexinit C) (\<lambda>_. some_kex (id_of k) hks)"
  by (rule hoare_weaken [OF send_kexinit_done]) auto

lemma choose_conf_id: "choose_conf sz df k = Inr (k', skip) \<Longrightarrow> id_of k' = id_of k"
  by (erule choose_conf_Inr) (simp add: id_of_def)

lemma choose_conf_hoare: "hoare (in_kex k hks) (kex_choose_conf C E) (\<lambda>_. some_kex (id_of k) hks)"
  unfolding kex_choose_conf_def
  apply (rule get_kex_bind, rule hoare_after, rule stays_basic, rule hoare_lift_bind, rule hoare_split, rule set_kex_bind)
  apply (rule hoare_when)
   apply (rule hoare_after, rule in_kex_keeps, intro frame_intros, intro frame_intros, rule hoare_ret)
   apply (erule some_kexI, simp add: choose_conf_id)
  apply (erule some_kexI, simp add: choose_conf_id)
  done

text \<open>An exchange that started in \<open>v\<close> with the host keys \<open>hks\<close> is over.\<close>

definition exchanged :: "kex_lib \<Rightarrow> byte list option \<times> string \<times> string \<Rightarrow> Key option list \<Rightarrow> ('ev, 'z, 'm) KexConn_scheme \<Rightarrow> bool" where
  "exchanged E v hks t \<longleftrightarrow> (\<exists>k secret hash. id_of k = v \<and>
     (dh_exchange E k hks secret hash \<or> gex_exchange E k hks secret hash) \<and> rekeyed E k hash secret t)"

lemma kexinit_finish_hoare: "hoare (some_kex v hks) (kex_kexinit_finish C E) (\<lambda>_. exchanged E v hks)"
proof -
  have dh: "hoare (in_kex k hks) (kexdh_server C E) (\<lambda>_. exchanged E (id_of k) hks)" for k
    by (rule hoare_weaken [OF kexdh_hoare], assumption) (auto simp: exchanged_def)
  have gex: "hoare (in_kex k hks) (kexgex_server C E) (\<lambda>_. exchanged E (id_of k) hks)" for k
    by (rule hoare_weaken [OF kexgex_hoare], assumption) (auto simp: exchanged_def)
  have w: "hoare (in_kex k hks) (whenP c (kex_send_kexinit C)) (\<lambda>_. some_kex (id_of k) hks)" for k c
    by (rule hoare_when [OF send_kexinit_hoare]) (auto intro: some_kexI)
  have c: "hoare (some_kex v hks) (kex_choose_conf C E) (\<lambda>_. some_kex v hks)" for v
  proof (rule some_kex_hoare, goal_cases)
    case (1 k)
    then show ?case using choose_conf_hoare [of k hks C E] by simp
  qed
  show ?thesis unfolding kex_kexinit_finish_def
    apply (rule some_kex_hoare, rule get_kex_bind, rule hoare_bind [OF w], drule sym, simp only:)
    apply (rule hoare_bind [OF c], rule some_kex_hoare, rule get_kex_bind, drule sym [of "id_of _" "id_of _"])
    apply (simp split: kex_exchange.split)
    apply (intro conjI impI; rule dh gex)
    done
qed

lemma stays_repeat [stays_intros]: "stays P m \<Longrightarrow> stays P (repeatP n m)"
  by (induction n) (auto intro: stays_intros)

lemma input_kexinit_hoare: "hoare (some_kex v hks) (kex_input_kexinit C E) (\<lambda>_. exchanged E v hks)"
proof -
  have p: "stays (in_kex k hks) packet_get_char" "stays (in_kex k hks) packet_get_string" "stays (in_kex k hks) packet_get_int"
    "stays (in_kex k hks) packet_get_raw" "stays (in_kex k hks) (packet_check_eom C)" for k
    by (rule in_kex_keeps; intro frame_intros)+
  show ?thesis unfolding kex_input_kexinit_def
    apply (rule some_kex_hoare, rule getP_kex_bind, rule hoare_lift_bind)
    apply (rule hoare_after [OF p(4)], rule hoare_lift_bind, rule set_kex_bind)
    apply (rule hoare_after, rule stays_repeat [OF p(1)], rule hoare_after, rule stays_repeat [OF p(2)])
    apply (rule hoare_after [OF p(1)], rule hoare_after [OF p(3)], rule hoare_after [OF p(5)])
    apply (rule hoare_weaken [OF kexinit_finish_hoare [where v = v]], erule some_kexI, simp add: id_of_def someR_def, assumption)
    done
qed

section \<open>The first exchange\<close>

lemma exchanged_done: "exchanged E v hks t \<Longrightarrow> kex_done t"
  by (auto simp: exchanged_def rekeyed_def finished_def kex_done_def)

text \<open>A loop that ends as soon as \<open>done'\<close>: the packets read in between keep the invariant.\<close>

lemma dispatch_block_hoare:
  assumes "stays P (packet_read_seqnr C)"
    and "\<And>t type seqnr. hoare (\<lambda>s. P s \<and> t = table s) (dispatch_packet call t type seqnr) (\<lambda>_ s. if done' s then Q s else P s)"
  shows "hoare P (dispatch_run n C call table DISPATCH_BLOCK done') (\<lambda>_. Q)"
proof (induction n)
  case 0
  show ?case by (simp add: hoare_raise)
next
  case (Suc n)
  have g: "hoare (\<lambda>s. if done' s then Q s else P s) (bindP (getP done') (\<lambda>stop. if stop then retP () else
      dispatch_run n C call table DISPATCH_BLOCK done')) (\<lambda>_. Q)"
    using Suc by (auto simp: hoare_def bindP_def getP_def retP_def split: if_splits)
  have "hoare P (bindP (getP table) (\<lambda>t. bindP (dispatch_packet call t type seqnr) (\<lambda>_. bindP (getP done') (\<lambda>stop.
      if stop then retP () else dispatch_run n C call table DISPATCH_BLOCK done')))) (\<lambda>_. Q)" for type seqnr
    by (rule hoare_bind [where Q = "\<lambda>t s. P s \<and> t = table s"]) (auto intro: hoare_get hoare_bind [OF assms(2) g])
  then show ?case by (auto intro!: hoare_after [OF assms(1)] hoare_prod)
qed

definition versions :: "('ev, 'z, 'm) KexConn_scheme \<Rightarrow> string \<times> string" where
  "versions s = (kc_client_version s, kc_server_version s)"

lemma versions_keeps [frame_intros]: "keeps ext m \<Longrightarrow> keeps versions m"
  unfolding moves_def versions_def by (metis ext_KexConn(6,7))

lemma versions_setup: "keeps versions (kex_setup C p)"
  unfolding kex_setup_def kex_send_kexinit_def by (intro frame_intros; simp add: versions_def)

text \<open>The state before the first exchange.\<close>

definition before_kex :: "string \<Rightarrow> string \<Rightarrow> Key option list \<Rightarrow> ('ev, 'z, 'm) KexConn_scheme \<Rightarrow> bool" where
  "before_kex cv sv hks s \<longleftrightarrow> out_inv s \<and> kc_host_keys s = hks \<and> versions s = (cv, sv)"

definition awaits_kexinit :: "string \<Rightarrow> string \<Rightarrow> Key option list \<Rightarrow> ('ev, 'z, 'm) KexConn_scheme \<Rightarrow> bool" where
  "awaits_kexinit cv sv hks s \<longleftrightarrow> some_kex (None, cv, sv) hks s \<and> \<not> kex_done s"

lemma setup_hoare:
  "hoare (before_kex cv sv hks) (kex_setup C p) (\<lambda>_ s. some_kex (None, [], []) hks s \<and> \<not> kex_done s \<and> versions s = (cv, sv))"
proof -
  have "hoare (\<lambda>s. out_inv s \<and> kc_host_keys s = hks) (kex_setup C p) (\<lambda>_ s. some_kex (None, [], []) hks s \<and> \<not> kex_done s)"
    unfolding kex_setup_def
  proof (rule hoare_lift_bind, goal_cases)
    case (1 my)
    have "hoare (\<lambda>s. out_inv s \<and> kc_host_keys s = hks) (set_kex (kex_zero\<lparr>k_my := my\<rparr>)) (\<lambda>_. in_kex (kex_zero\<lparr>k_my := my\<rparr>) hks)"
      by (rule hoare_mod) (simp add: in_kex_def out_inv_def queue_inv_def rekey_inv_def)
    then show ?case by (rule hoare_bind) (rule hoare_weaken [OF send_kexinit_done], assumption, simp add: id_of_def kex_zero_def)
  qed
  moreover have "hoare (\<lambda>s. versions s = (cv, sv)) (kex_setup C p) (\<lambda>_ s. versions s = (cv, sv))"
    by (rule hoare_keeps [OF versions_setup]) simp
  ultimately show ?thesis unfolding before_kex_def hoare_def by blast
qed

lemma kexinit_dispatch_hoare:
  "hoare (\<lambda>s. awaits_kexinit cv sv hks s \<and> t = tab s) (dispatch_packet (KexDispatcher_call C E) t type seqnr)
     (\<lambda>_ s. if kex_done s then exchanged E (None, cv, sv) hks s else awaits_kexinit cv sv hks s)"
proof -
  have h: "hoare (awaits_kexinit cv sv hks) (kex_input_kexinit C E)
     (\<lambda>_ s. if kex_done s then exchanged E (None, cv, sv) hks s else awaits_kexinit cv sv hks s)"
    by (rule hoare_weaken [OF input_kexinit_hoare [where v = "(None, cv, sv)" and hks = hks]]) (simp_all add: awaits_kexinit_def exchanged_done)
  have o: "hoare (awaits_kexinit cv sv hks) (retP ())
     (\<lambda>_ s. if kex_done s then exchanged E (None, cv, sv) hks s else awaits_kexinit cv sv hks s)"
    by (rule hoare_ret) (simp add: awaits_kexinit_def)
  have c: "hoare (awaits_kexinit cv sv hks) (KexDispatcher_call C E f type seqnr)
     (\<lambda>_ s. if kex_done s then exchanged E (None, cv, sv) hks s else awaits_kexinit cv sv hks s)" for f
    unfolding KexDispatcher_call_def using h o by (cases f) (simp_all only: dispatch_fn.case)
  show ?thesis unfolding dispatch_packet_def by (intro hoare_if; rule hoare_weaken [OF c], erule conjunct1, assumption)
qed

lemma exchanged_session: "exchanged E v hks (s\<lparr>kc_session_id2 := x\<rparr>) = exchanged E v hks s"
  by (simp add: exchanged_def rekeyed_def out_inv_def queue_inv_def rekey_inv_def)

lemma do_ssh2_kex_hoare:
  "hoare (before_kex cv sv hks) (do_ssh2_kex n C E) (\<lambda>_ t. exchanged E (None, cv, sv) hks t \<and>
     kc_session_id2 t = k_session_id (the (kc_kex t)))"
proof -
  have r: "stays (awaits_kexinit cv sv hks) (packet_read_seqnr C)"
  proof (rule hoareI, goal_cases)
    case (1 s x t)
    have "some_kex (None, cv, sv) hks t"
      using 1 hoareD [OF in_kex_keeps [OF ext_read(1) out_read(1)] _ 1(2)] by (auto simp: awaits_kexinit_def some_kex_def)
    moreover have "kc_kex t = kc_kex s" using movesD [OF kex_keeps [OF ext_read(1)] 1(2)] by simp
    ultimately show ?case using 1(1) by (simp add: awaits_kexinit_def kex_done_def)
  qed
  let ?Q = "\<lambda>kex s. in_kex kex hks s \<and> id_of kex = (None, [], []) \<and> \<not> k_done kex \<and> versions s = (cv, sv)"
  have g: "hoare (\<lambda>s. some_kex (None, [], []) hks s \<and> \<not> kex_done s \<and> versions s = (cv, sv)) get_kex ?Q"
    by (rule hoareI) (auto simp: some_kex_def in_kex_def kex_done_def bindP_Inr getP_def liftR_def nonnull_def)
  have m: "hoare (?Q kex) (modP (\<lambda>s. s\<lparr>kc_kex := Some (kex\<lparr>k_server := True, k_client_version := kc_client_version s,
         k_server_version := kc_server_version s\<rparr>)\<rparr>)) (\<lambda>_. awaits_kexinit cv sv hks)" for kex
    by (rule hoare_mod) (auto simp: awaits_kexinit_def some_kex_def in_kex_def out_inv_def queue_inv_def rekey_inv_def
      id_of_def versions_def kex_done_def)
  have e: "hoare (exchanged E (None, cv, sv) hks) (bindP get_kex (\<lambda>kex. modP (\<lambda>s. s\<lparr>kc_session_id2 := k_session_id kex\<rparr>)))
    (\<lambda>_ t. exchanged E (None, cv, sv) hks t \<and> kc_session_id2 t = k_session_id (the (kc_kex t)))"
    by (rule hoareI) (auto simp: exchanged_session bindP_Inr getP_def liftR_def nonnull_def modP_def split: option.splits)
  show ?thesis unfolding do_ssh2_kex_def
    apply (rule hoare_after, rule stays_basic, rule hoare_lift_bind)
    apply (rule hoare_after, rule stays_mod, simp add: before_kex_def versions_def out_inv_def queue_inv_def rekey_inv_def)
    apply (rule hoare_bind [OF setup_hoare], rule hoare_bind [OF g], rule hoare_bind [OF m], rule hoare_bind [OF _ e])
    apply (rule dispatch_block_hoare [OF r kexinit_dispatch_hoare])
    done
qed

lemma exchanged_session_id:
  assumes "exchanged E (x, cv, sv) hks t"
  obtains k secret hash where "id_of k = (x, cv, sv)" "dh_exchange E k hks secret hash \<or> gex_exchange E k hks secret hash"
    "rekeyed E k hash secret t" "kc_kex t \<noteq> None" "k_done (the (kc_kex t))"
    "k_session_id (the (kc_kex t)) = (if x = None then Some hash else x)"
proof -
  obtain k secret hash where k: "id_of k = (x, cv, sv)" "dh_exchange E k hks secret hash \<or> gex_exchange E k hks secret hash"
    "rekeyed E k hash secret t" using assms unfolding exchanged_def by blast
  have "kc_kex t = Some (finished ((save_session_id hash k)\<lparr>k_newkeys := (\<lambda>_. None)\<rparr>))" using k(3) by (auto simp: rekeyed_def)
  then show thesis by (intro that [OF k]) (use k(1) in \<open>auto simp: finished_def save_session_id_def id_of_def\<close>)
qed

text \<open>C3: If the first key exchange returns, it ran to the end: the client sent a valid public value in a group of the
  server (fixed, or of a size the client asked for), the exchange hash covers the versions of both sides, both KEXINIT
  payloads, the host key and the public values, both directions of the packet layer use the cipher and MAC keys derived
  from that hash and the shared secret, and the session identifier is that hash.\<close>

theorem first_exchange_installs_keys:
  "hoare (before_kex cv sv hks) (do_ssh2_kex n C E) (\<lambda>_ t. \<exists>k secret hash.
     id_of k = (None, cv, sv) \<and> (dh_exchange E k hks secret hash \<or> gex_exchange E k hks secret hash) \<and>
     rekeyed E k hash secret t \<and> kc_session_id2 t = Some hash)"
proof (rule hoare_weaken [OF do_ssh2_kex_hoare], assumption)
  fix x :: unit and s :: "('a, 'b, 'c) KexConn_scheme"
  assume s: "exchanged E (None, cv, sv) hks s \<and> kc_session_id2 s = k_session_id (the (kc_kex s))"
  then show "\<exists>k secret hash. id_of k = (None, cv, sv) \<and> (dh_exchange E k hks secret hash \<or> gex_exchange E k hks secret hash) \<and>
     rekeyed E k hash secret s \<and> kc_session_id2 s = Some hash"
    by (elim conjE exchanged_session_id) auto
qed


end
