(* ===== verification/Ident.thy ===== *)
theory Ident
  imports Kex_Server Text_Codec
begin

text \<open>
  The exchange of version strings a connection starts with (\<open>sshd.cpp\<close>), with the loops around \<open>recv\<close>
  (\<open>atomicio.cpp\<close>) and \<open>send\<close> (\<open>RInOutSocket.cpp\<close>) it uses.
\<close>

section \<open>Sending and receiving all of it\<close>

text \<open>The result of a call of \<open>recv\<close>: the data, with no data for a closed connection, or an error, with whether it is
  one to try again after.\<close>

datatype recv_result = Received "byte list" | Recv_error bool

fun recv_loop :: "nat \<Rightarrow> recv_result list \<Rightarrow> byte list \<Rightarrow> (nat \<times> byte list \<times> recv_result list) res" where
  "recv_loop n [] got = (if n \<le> length got then Inr (length got, got, []) else Inl Diverge)"
| "recv_loop n (Recv_error again # rs) got =
     (if n \<le> length got then Inr (length got, got, Recv_error again # rs)
      else if again then recv_loop n rs got else Inr (0, got, rs))"
| "recv_loop n (Received d # rs) got =
     (if n \<le> length got then Inr (length got, got, Received d # rs)
      else if d = [] then Inl (S_exception ''The connection is closed by peer'')
      else recv_loop n rs (got @ d))"

definition atomicio_recv :: "nat \<Rightarrow> recv_result list \<Rightarrow> (nat \<times> byte list \<times> recv_result list) res" where
  "atomicio_recv n rs = recv_loop n rs []"

text \<open>\<open>RInOutSocket::send\<close> throws for every error but the two to try again after.\<close>

fun send_loop :: "byte list \<Rightarrow> send_result list \<Rightarrow> byte list \<Rightarrow> unit res \<times> send_result list \<times> byte list" where
  "send_loop d [] net = (if d = [] then Inr () else Inl Diverge, [], net)"
| "send_loop d (Send_error again # rs) net =
     (if d = [] then (Inr (), Send_error again # rs, net)
      else if again then send_loop d rs net else (Inl (S_exception ''Write failed''), rs, net))"
| "send_loop d (Sent n # rs) net =
     (if d = [] then (Inr (), Sent n # rs, net)
      else if n = 0 then (Inl (S_exception ''The connection is closed by peer''), rs, net)
      else send_loop (drop n d) rs (net @ take n d))"

definition atomicio_send :: "byte list \<Rightarrow> ('ev, 'z, 'm, nat) pproc" where
  "atomicio_send d = (\<lambda>s. let (r, rs, net) = send_loop d (pk_sends s) (pk_net s) in
     (bindR r (\<lambda>_. Inr (length d)), s\<lparr>pk_sends := rs, pk_net := net\<rparr>))"

section \<open>Version strings\<close>

definition Options_version :: string where "Options_version = ''1.4d2''"

definition progName :: string where "progName = ''ShieSSH''"

definition prog_name_version :: string where "prog_name_version = progName @ ''_'' @ Options_version"

definition get_protocol_version_exchange_string :: string where
  "get_protocol_version_exchange_string = ''SSH-2.0-'' @ prog_name_version @ '' obihod'' @ [CHR 13, CHR 10]"

definition chop :: "string \<Rightarrow> string" where
  "chop s = takeWhile (\<lambda>c. c \<noteq> CHR 10 \<and> c \<noteq> CHR 13) s"

text \<open>Reading the line of the client, at most 255 bytes, one at a time: carriage return and line feed become null
  bytes, and the first null byte ends the string.\<close>

fun ident_loop :: "nat \<Rightarrow> recv_result list \<Rightarrow> byte list \<Rightarrow> (byte list \<times> recv_result list) res" where
  "ident_loop 0 rs buf = Inr (buf, rs)"
| "ident_loop (Suc k) rs buf =
     bindR (atomicio_recv 1 rs) (\<lambda>(n, d, rs).
     if n \<noteq> 1 then Inl (Cleanup_exit ''Did not receive identification string'')
     else if hd d = 13 then
       if length buf = 12 \<and> buf = bytes_of_string ''SSH-1.5-W1.0'' then Inr (buf @ [0], rs)
       else ident_loop k rs (buf @ [0])
     else if hd d = 10 then Inr (buf @ [0], rs)
     else ident_loop k rs (buf @ d))"

text \<open>\<open>sscanf\<close>: \<open>%d\<close> skips white space and takes an optional sign and digits; a number that is too large wraps
  around. A literal character of the format must come next.\<close>

definition scan_int :: "string \<Rightarrow> (int \<times> string) option" where
  "scan_int s =
     (let s = dropWhile isspace s;
          sgn = (if s \<noteq> [] \<and> hd s \<in> {CHR ''-'', CHR ''+''} then [hd s] else []);
          s = drop (length sgn) s;
          ds = takeWhile isdigit s;
          v = foldl (\<lambda>v c. 10 * v + (int (of_char c) - 48)) 0 ds
      in if ds = [] then None
         else Some (sint (of_int (if sgn = ''-'' then - v else v) :: 32 word), drop (length ds) s))"

fun scan_lit :: "string \<Rightarrow> string \<Rightarrow> string option" where
  "scan_lit [] s = Some s"
| "scan_lit (c # cs) [] = None"
| "scan_lit (c # cs) (d # ds) = (if c = d then scan_lit cs ds else None)"

text \<open>The format \<open>SSH-%d.%d-%[^\n]\<close>: three items, or fewer.\<close>

definition scan_version :: "string \<Rightarrow> (int \<times> int \<times> string) option" where
  "scan_version s =
     Option.bind (scan_lit ''SSH-'' s) (\<lambda>s.
     Option.bind (scan_int s) (\<lambda>(major, s).
     Option.bind (scan_lit ''.'' s) (\<lambda>s.
     Option.bind (scan_int s) (\<lambda>(minor, s).
     Option.bind (scan_lit ''-'' s) (\<lambda>s.
     let version = takeWhile (\<lambda>c. c \<noteq> CHR 10) s in
     if version = [] then None else Some (major, minor, version))))))"

section \<open>The exchange\<close>

definition sshd_exchange_identification :: "recv_result list \<Rightarrow> ('ev, 'z, 'm, unit) kproc" where
  "sshd_exchange_identification rs =
     (let ours = get_protocol_version_exchange_string in
      bindP (atomicio_send (bytes_of_string ours)) (\<lambda>n.
      if n \<noteq> length ours then raiseP (Cleanup_exit ''Could not write ident string'')
      else
        bindP (liftR (ident_loop 255 rs [])) (\<lambda>(buf, _).
        let client_version = c_string buf in
        case scan_version client_version of
          None \<Rightarrow> bindP (atomicio_send (bytes_of_string (''Protocol mismatch.'' @ [CHR 10]))) (\<lambda>_.
            raiseP (Cleanup_exit ''Bad protocol version identification''))
        | Some (remote_major, remote_minor, remote_version) \<Rightarrow>
            bindP (modP (\<lambda>s. s\<lparr>pk_datafellows := compat_datafellows remote_version (pk_datafellows s)\<rparr>)) (\<lambda>_.
            bindP (getP pk_datafellows) (\<lambda>datafellows.
            if datafellows AND SSH_BUG_PROBE \<noteq> 0 then raiseP (Cleanup_exit ''probed'')
            else if datafellows AND SSH_BUG_SCANNER \<noteq> 0 then raiseP (Cleanup_exit ''scanned'')
            else if remote_major \<noteq> 2 then
              bindP (atomicio_send (bytes_of_string (''Protocol major versions differ.'' @ [CHR 10]))) (\<lambda>_.
              raiseP (Cleanup_exit ''Protocol major versions differ''))
            else modP (\<lambda>s. s\<lparr>kc_server_version := chop ours, kc_client_version := client_version\<rparr>))))))"

section \<open>The line of the client is read as it was sent\<close>

abbreviation byte_by_byte :: "byte list \<Rightarrow> recv_result list" where
  "byte_by_byte d \<equiv> map (\<lambda>b. Received [b]) d"

lemma recv_one [simp]: "atomicio_recv 1 (Received [b] # rs) = Inr (1, [b], rs)"
  by (cases rs; cases "hd rs") (simp_all add: atomicio_recv_def)

lemma ident_loop_plain:
  "10 \<notin> set d \<Longrightarrow> 13 \<notin> set d \<Longrightarrow> ident_loop (length d + k) (byte_by_byte d @ rs) buf = ident_loop k rs (buf @ d)"
  by (induction d arbitrary: buf) (auto simp del: One_nat_def)

lemma ident_loop_line:
  assumes "10 \<notin> set d" "13 \<notin> set d" "length d \<le> 253" "take 12 d \<noteq> bytes_of_string ''SSH-1.5-W1.0''"
  shows "ident_loop 255 (byte_by_byte (d @ [13, 10])) [] = Inr (d @ [0, 0], [])"
proof -
  define k where "k = 253 - length d"
  have k: "255 = length d + Suc (Suc k)" using assms(3) by (simp add: k_def)
  have "ident_loop (length d + Suc (Suc k)) (byte_by_byte d @ byte_by_byte [13, 10]) [] = ident_loop (Suc (Suc k)) (byte_by_byte [13, 10]) d"
    unfolding ident_loop_plain [OF assms(1,2)] by (simp only: append_Nil)
  also have "\<dots> = Inr (d @ [0, 0], [])" using assms(4) by (auto simp del: One_nat_def)
  finally show ?thesis unfolding k by simp
qed

lemma c_string_null: "c_string (d @ 0 # x) = c_string d"
  by (simp add: c_string_def takeWhile_tail)

lemma byte_of_char_eq: "byte_of_char c = byte_of_char d \<longleftrightarrow> c = d"
  by (metis char_of_byte_of_char)

lemma byte_in: "byte_of_char c \<in> set (bytes_of_string l) \<longleftrightarrow> c \<in> set l"
  by (auto simp: bytes_of_string_def byte_of_char_eq)

lemma scan_version_2:
  assumes "v \<noteq> []" "CHR 10 \<notin> set v"
  shows "scan_version (''SSH-2.0-'' @ v) = Some (2, 0, v)"
proof -
  have v: "takeWhile (\<lambda>c. c \<noteq> CHR 10) v = v" using assms(2) by (auto simp: takeWhile_eq_all_conv)
  have s: "scan_int (''2.0-'' @ v) = Some (2, ''.0-'' @ v)" "scan_int (''0-'' @ v) = Some (0, ''-'' @ v)"
    by (simp_all add: scan_int_def isspace_def isdigit_def Let_def less_eq_char_def)
  show ?thesis using assms(1) s by (simp add: scan_version_def Let_def v)
qed

text \<open>C38: A client that sends its version line byte by byte, \<open>SSH-2.0-\<close>, its name and carriage return and line feed,
  is read back with exactly that line, protocol 2.0 and that name, if the line fits the 255 bytes the server reads.\<close>

theorem identification_round_trip:
  assumes "v \<noteq> []" "set v \<inter> {CHR 0x00, CHR 10, CHR 13} = {}" "length v \<le> 245"
  shows "\<exists>buf rest. ident_loop 255 (byte_by_byte (bytes_of_string (''SSH-2.0-'' @ v @ [CHR 13, CHR 10]))) [] = Inr (buf, rest) \<and>
    c_string buf = ''SSH-2.0-'' @ v \<and> scan_version (c_string buf) = Some (2, 0, v)"
proof -
  let ?l = "''SSH-2.0-'' @ v" let ?d = "bytes_of_string ?l"
  have n: "no_null ?l" using assms(2) by (auto simp: no_null_def)
  have c: "(10 :: byte) = byte_of_char (CHR 10)" "(13 :: byte) = byte_of_char (CHR 13)" by (simp_all add: byte_of_char_def)
  have "10 \<notin> set ?d" "13 \<notin> set ?d" unfolding c byte_in using assms(2) by auto
  then have "ident_loop 255 (byte_by_byte (?d @ [13, 10])) [] = Inr (?d @ [0, 0], [])"
    using assms(3) by (intro ident_loop_line) (auto simp: bytes_of_string_def byte_of_char_eq)
  moreover have "bytes_of_string (''SSH-2.0-'' @ v @ [CHR 13, CHR 10]) = ?d @ [13, 10]"
    by (simp add: bytes_of_string_def byte_of_char_def)
  moreover have "c_string (?d @ [0, 0]) = ?l"
    using c_string_bytes_of_string [OF n] c_string_null [of ?d "[0]"] by simp
  moreover have "scan_version ?l = Some (2, 0, v)" using scan_version_2 assms(1,2) by blast
  ultimately show ?thesis by metis
qed

theorem identification_round_trip_witness:
  "\<exists>buf rest. ident_loop 255 (byte_by_byte (bytes_of_string (''SSH-2.0-'' @ ''PuTTY_0.6'' @ [CHR 13, CHR 10]))) [] = Inr (buf, rest) \<and>
    c_string buf = ''SSH-2.0-PuTTY_0.6'' \<and> scan_version (c_string buf) = Some (2, 0, ''PuTTY_0.6'')"
  using identification_round_trip [of "''PuTTY_0.6''"] by simp

end
