(* ===== verification/Auth.thy ===== *)
theory Auth
  imports Kex_Server
begin

text \<open>
  Authentication of the user: the dispatcher of \<open>AuthDispatcher.cpp\<close>, the requests of \<open>auth2.cpp\<close>, the methods
  none and password (\<open>auth2-none.cpp\<close>, \<open>auth2-passwd.cpp\<close>, \<open>auth-passwd.cpp\<close>) and the queries of \<open>User.cpp\<close>.
  The table \<open>users\<close> is a parameter: what the database answers to the \<open>i\<close>-th query of a kind, with
  \<^term>\<open>None\<close> for an exception of the database library.
\<close>

section \<open>The user database (User.cpp)\<close>

record User =
  homeDir :: string
  userName :: string

text \<open>
  \<open>sql_user\<close> answers the query for a login with the columns login and pwd, \<open>sql_password\<close> the query for a login and
  a password with the column pwd; a column that is null leaves the string empty. \<open>no_return\<close> is what a caller gets
  from a function that ends without a return statement, see \<open>sys_auth_passwd\<close>.
\<close>

record auth_db =
  sql_user :: "nat \<Rightarrow> string \<Rightarrow> (string \<times> string) option option"
  sql_password :: "nat \<Rightarrow> string \<Rightarrow> string \<Rightarrow> string option option"
  no_return :: int

record Authctxt =
  a_success :: bool
  a_postponed :: bool
  a_valid :: bool
  a_attempt :: int
  a_failures :: int
  a_server_caused_failure :: bool
  a_user :: "string option"
  a_service :: "string option"
  a_pw :: "User option"
  a_style :: "string option"
  a_role :: "string option"

text \<open>The part of a connection that authentication needs; \<open>ac_finds\<close> and \<open>ac_checks\<close> count the two kinds of queries.\<close>

record ('ev, 'z) AuthConn = "('ev, 'z) KexConn" +
  ac_authctxt :: Authctxt
  ac_none_auth_method_enabled :: bool
  ac_password_authentication :: bool
  ac_dispatch :: dispatch_table
  ac_finds :: nat
  ac_checks :: nat

type_synonym ('ev, 'z, 'm, 'a) aproc = "(('ev, 'z, 'm) AuthConn_scheme, 'a) proc"

abbreviation on_ctxt :: "(Authctxt \<Rightarrow> Authctxt) \<Rightarrow> ('ev, 'z, 'm, unit) aproc" where
  "on_ctxt f \<equiv> modP (\<lambda>s. s\<lparr>ac_authctxt := f (ac_authctxt s)\<rparr>)"

definition user_row :: "(string \<times> string) option option \<Rightarrow> User option" where
  "user_row r = (case r of Some (Some (login, pwd)) \<Rightarrow>
     Some \<lparr>homeDir = (if pwd = [] then ''c:'' @ [CHR 92] else pwd), userName = login\<rparr> | _ \<Rightarrow> None)"

definition find_allowed :: "auth_db \<Rightarrow> string \<Rightarrow> ('ev, 'z, 'm, User option) aproc" where
  "find_allowed D user =
     bindP (getP ac_finds) (\<lambda>i.
     bindP (modP (\<lambda>s. s\<lparr>ac_finds := i + 1\<rparr>)) (\<lambda>_.
     retP (user_row (sql_user D i user))))"

definition User_auth_passwd :: "auth_db \<Rightarrow> string \<Rightarrow> string \<Rightarrow> ('ev, 'z, 'm, User option) aproc" where
  "User_auth_passwd D login passwd =
     bindP (getP ac_checks) (\<lambda>i.
     bindP (modP (\<lambda>s. s\<lparr>ac_checks := i + 1\<rparr>)) (\<lambda>_.
     case sql_password D i login passwd of
       None \<Rightarrow> raiseP (S_exception ''soci_error'')
     | Some None \<Rightarrow> retP None
     | Some (Some pwd) \<Rightarrow> retP (Some \<lparr>homeDir = pwd, userName = []\<rparr>)))"

section \<open>Passwords (auth-passwd.cpp)\<close>

text \<open>The function ends without a value when the password is right.\<close>

definition sys_auth_passwd :: "auth_db \<Rightarrow> Authctxt \<Rightarrow> string \<Rightarrow> ('ev, 'z, 'm, int) aproc" where
  "sys_auth_passwd D authctxt password =
     bindP (liftR (nonnull (a_user authctxt))) (\<lambda>login.
     bindP (User_auth_passwd D login password) (\<lambda>user.
     case user of None \<Rightarrow> retP 0 | Some _ \<Rightarrow> retP (no_return D)))"

definition auth_password :: "auth_db \<Rightarrow> Authctxt \<Rightarrow> string \<Rightarrow> ('ev, 'z, 'm, bool) aproc" where
  "auth_password D authctxt password =
     (let ok = a_valid authctxt in
      if password = [] then retP False
      else bindP (sys_auth_passwd D authctxt password) (\<lambda>result. retP (result \<noteq> 0 \<and> ok)))"

section \<open>The methods (auth2-none.cpp, auth2-passwd.cpp)\<close>

definition userauth_none :: "('ev, 'z) crypto \<Rightarrow> ('ev, 'z, 'm, bool) aproc" where
  "userauth_none C =
     bindP (modP (\<lambda>s. s\<lparr>ac_none_auth_method_enabled := False\<rparr>)) (\<lambda>_.
     bindP (packet_check_eom C) (\<lambda>_.
     retP False))"

definition userauth_passwd :: "('ev, 'z) crypto \<Rightarrow> auth_db \<Rightarrow> ('ev, 'z, 'm, bool) aproc" where
  "userauth_passwd C D =
     bindP packet_get_char (\<lambda>change.
     bindP packet_get_string (\<lambda>password.
     bindP (whenP (change \<noteq> 0) (bindP packet_get_string (\<lambda>_. retP ()))) (\<lambda>_.
     bindP (packet_check_eom C) (\<lambda>_.
     if change \<noteq> 0 then retP False
     else bindP (getP ac_authctxt) (\<lambda>authctxt. auth_password D authctxt (c_string password))))))"

datatype authmethod_fn = Userauth_none | Userauth_passwd

text \<open>The array \<open>authmethods\<close>, each method with its name and whether it is enabled.\<close>

definition authmethods :: "('ev, 'z, 'm) AuthConn_scheme \<Rightarrow> (string \<times> authmethod_fn \<times> bool) list" where
  "authmethods s = [(''none'', Userauth_none, ac_none_auth_method_enabled s),
     (''password'', Userauth_passwd, ac_password_authentication s)]"

definition call_method :: "('ev, 'z) crypto \<Rightarrow> auth_db \<Rightarrow> authmethod_fn \<Rightarrow> ('ev, 'z, 'm, bool) aproc" where
  "call_method C D m = (case m of Userauth_none \<Rightarrow> userauth_none C | Userauth_passwd \<Rightarrow> userauth_passwd C D)"

fun authmethod_lookup :: "(string \<times> authmethod_fn \<times> bool) list \<Rightarrow> string \<Rightarrow> authmethod_fn option" where
  "authmethod_lookup [] name = None"
| "authmethod_lookup ((n, m, enabled) # ms) name = (if enabled \<and> name = n then Some m else authmethod_lookup ms name)"

fun methods_loop :: "Buffer \<Rightarrow> (string \<times> authmethod_fn \<times> bool) list \<Rightarrow> Buffer res" where
  "methods_loop b [] = Inr b"
| "methods_loop b ((n, m, enabled) # ms) =
     (if n = ''none'' then methods_loop b ms
      else if enabled then
        bindR (if buffer_len b > 0 then buffer_append b (bytes_of_string '','') else Inr b) (\<lambda>b.
        bindR (buffer_append b (bytes_of_string n)) (\<lambda>b. methods_loop b ms))
      else methods_loop b ms)"

definition authmethods_get :: "(string \<times> authmethod_fn \<times> bool) list \<Rightarrow> string res" where
  "authmethods_get ms =
     bindR (methods_loop buffer_init ms) (\<lambda>b.
     bindR (buffer_append b [0]) (\<lambda>b.
     bindR (contents b) (\<lambda>d. Inr (c_string d))))"

section \<open>Requests (auth2.cpp)\<close>

definition SSH2_MSG_SERVICE_REQUEST :: byte where "SSH2_MSG_SERVICE_REQUEST = 5"
definition SSH2_MSG_SERVICE_ACCEPT :: byte where "SSH2_MSG_SERVICE_ACCEPT = 6"
definition SSH2_MSG_USERAUTH_REQUEST :: byte where "SSH2_MSG_USERAUTH_REQUEST = 50"
definition SSH2_MSG_USERAUTH_FAILURE :: byte where "SSH2_MSG_USERAUTH_FAILURE = 51"
definition SSH2_MSG_USERAUTH_BANNER :: byte where "SSH2_MSG_USERAUTH_BANNER = 53"

definition max_login_attempts :: int where "max_login_attempts = 5"

definition enable_userauth_request_msg :: "('ev, 'z, 'm, unit) aproc" where
  "enable_userauth_request_msg =
     modP (\<lambda>s. s\<lparr>ac_dispatch := (ac_dispatch s)(SSH2_MSG_USERAUTH_REQUEST := Userauth_request_msg)\<rparr>)"

definition disable_userauth_request_msg :: "('ev, 'z, 'm, unit) aproc" where
  "disable_userauth_request_msg =
     modP (\<lambda>s. s\<lparr>ac_dispatch := (ac_dispatch s)(SSH2_MSG_USERAUTH_REQUEST := Ignored_msg)\<rparr>)"

definition userauth_send_banner :: "('ev, 'z) crypto \<Rightarrow> string \<Rightarrow> ('ev, 'z, 'm, unit) aproc" where
  "userauth_send_banner C msg =
     bindP (getP pk_datafellows) (\<lambda>df.
     if df AND SSH_BUG_BANNER \<noteq> 0 then retP ()
     else
       bindP (packet_start SSH2_MSG_USERAUTH_BANNER) (\<lambda>_.
       bindP (packet_put_cstring msg) (\<lambda>_.
       bindP (packet_put_cstring []) (\<lambda>_.
       packet_send C))))"

definition userauth_banner :: "('ev, 'z) crypto \<Rightarrow> ('ev, 'z, 'm, unit) aproc" where
  "userauth_banner C = userauth_send_banner C (''ShieSSH'' @ [CHR 10, CHR 10])"

definition input_service_request :: "('ev, 'z) crypto \<Rightarrow> ('ev, 'z, 'm, unit) aproc" where
  "input_service_request C =
     bindP packet_get_string (\<lambda>d.
     let service = c_string d in
     bindP (packet_check_eom C) (\<lambda>_.
     bindP (getP (\<lambda>s. service = ''ssh-userauth'' \<and> \<not> a_success (ac_authctxt s))) (\<lambda>acceptit.
     bindP (whenP acceptit enable_userauth_request_msg) (\<lambda>_.
     if acceptit then
       bindP (packet_start SSH2_MSG_SERVICE_ACCEPT) (\<lambda>_.
       bindP (packet_put_cstring service) (\<lambda>_.
       bindP (packet_send C) (\<lambda>_.
       packet_write_wait)))
     else packet_disconnect C (''bad service request '' @ service)))))"

definition reply_success :: "('ev, 'z) crypto \<Rightarrow> ('ev, 'z, 'm, unit) aproc" where
  "reply_success C =
     bindP disable_userauth_request_msg (\<lambda>_.
     bindP (packet_start SSH2_MSG_USERAUTH_SUCCESS) (\<lambda>_.
     bindP (packet_send C) (\<lambda>_.
     bindP packet_write_wait (\<lambda>_.
     on_ctxt (\<lambda>a. a\<lparr>a_success := True\<rparr>)))))"

definition count_failure :: "string \<Rightarrow> Authctxt \<Rightarrow> Authctxt" where
  "count_failure method' a =
     (if \<not> a_server_caused_failure a \<and> (a_attempt a > 1 \<or> method' \<noteq> ''none'')
      then a\<lparr>a_failures := a_failures a + 1\<rparr> else a)"

definition reply_failure :: "('ev, 'z) crypto \<Rightarrow> string \<Rightarrow> ('ev, 'z, 'm, unit) aproc" where
  "reply_failure C method' =
     bindP (on_ctxt (count_failure method')) (\<lambda>_.
     bindP (getP ac_authctxt) (\<lambda>a.
     bindP (whenP (a_failures a \<ge> max_login_attempts)
       (bindP (liftR (nonnull (a_user a))) (\<lambda>user.
        packet_disconnect C (''Too many authentication failures for '' @ take 100 user)))) (\<lambda>_.
     bindP (getP (\<lambda>s. authmethods_get (authmethods s))) (\<lambda>r.
     bindP (liftR r) (\<lambda>methods.
     bindP (packet_start SSH2_MSG_USERAUTH_FAILURE) (\<lambda>_.
     bindP (packet_put_cstring methods) (\<lambda>_.
     bindP (packet_put_char 0) (\<lambda>_.
     bindP (packet_send C) (\<lambda>_.
     packet_write_wait)))))))))"

definition userauth_finish :: "('ev, 'z) crypto \<Rightarrow> bool \<Rightarrow> string \<Rightarrow> ('ev, 'z, 'm, unit) aproc" where
  "userauth_finish C authenticated method' =
     bindP (getP ac_authctxt) (\<lambda>a.
     if \<not> a_valid a \<and> authenticated then raiseP (Fatal ''INTERNAL ERROR: authenticated invalid user'')
     else if a_postponed a then retP ()
     else if authenticated then reply_success C
     else reply_failure C method')"

text \<open>\<open>strchr\<close> and cutting the string there: what is before the character, and what is after it if it occurs.\<close>

definition cut_at :: "char \<Rightarrow> string \<Rightarrow> string \<times> string option" where
  "cut_at c s = (takeWhile (\<lambda>x. x \<noteq> c) s, if c \<in> set s then Some (tl (dropWhile (\<lambda>x. x \<noteq> c) s)) else None)"

text \<open>The name, the style and the role in a user string.\<close>

definition parse_user :: "string \<Rightarrow> string \<times> string option \<times> string option" where
  "parse_user u =
     (let (user, role) = cut_at (CHR ''/'') u; (user', style) = cut_at (CHR '':'') user in
      if style \<noteq> None then (user', style, role)
      else case role of None \<Rightarrow> (user', None, None)
      | Some r \<Rightarrow> let (r', style') = cut_at (CHR '':'') r in (user', style', Some r'))"

definition first_attempt ::
  "('ev, 'z) crypto \<Rightarrow> auth_db \<Rightarrow> string \<Rightarrow> string \<Rightarrow> string option \<Rightarrow> string option \<Rightarrow> ('ev, 'z, 'm, unit) aproc" where
  "first_attempt C D user service style role =
     bindP (find_allowed D user) (\<lambda>pw.
     bindP (on_ctxt (\<lambda>a. a\<lparr>a_pw := pw, a_user := Some user, a_valid := a_valid a \<or> (pw \<noteq> None \<and> service = ''ssh-connection''),
       a_service := Some service, a_style := style, a_role := role\<rparr>)) (\<lambda>_.
     userauth_banner C))"

definition same_user :: "('ev, 'z) crypto \<Rightarrow> string \<Rightarrow> string \<Rightarrow> Authctxt \<Rightarrow> ('ev, 'z, 'm, unit) aproc" where
  "same_user C user service a =
     bindP (liftR (nonnull (a_user a))) (\<lambda>u.
     bindP (liftR (nonnull (a_service a))) (\<lambda>v.
     whenP (user \<noteq> u \<or> service \<noteq> v)
       (packet_disconnect C (''Change of username or service not allowed: ('' @ u @ '','' @ v @ '') -> ('' @ user @ '','' @ service @ '')''))))"

definition try_method :: "('ev, 'z) crypto \<Rightarrow> auth_db \<Rightarrow> string \<Rightarrow> ('ev, 'z, 'm, bool) aproc" where
  "try_method C D name =
     bindP (getP (\<lambda>s. authmethod_lookup (authmethods s) name)) (\<lambda>m.
     case m of None \<Rightarrow> retP False | Some f \<Rightarrow> call_method C D f)"

definition input_userauth_request :: "('ev, 'z) crypto \<Rightarrow> auth_db \<Rightarrow> ('ev, 'z, 'm, unit) aproc" where
  "input_userauth_request C D =
     bindP packet_get_string (\<lambda>d.
     bindP packet_get_string (\<lambda>e.
     bindP packet_get_string (\<lambda>f.
     let (user, style, role) = parse_user (c_string d); service = c_string e; method' = c_string f in
     bindP (getP ac_authctxt) (\<lambda>a.
     bindP (on_ctxt (\<lambda>a. a\<lparr>a_attempt := a_attempt a + 1\<rparr>)) (\<lambda>_.
     bindP (if a_attempt a = 0 then first_attempt C D user service style role else same_user C user service a) (\<lambda>_.
     bindP (on_ctxt (\<lambda>a. a\<lparr>a_postponed := False, a_server_caused_failure := False\<rparr>)) (\<lambda>_.
     bindP (try_method C D method') (\<lambda>authenticated.
     userauth_finish C authenticated method'))))))))"

section \<open>The dispatcher (AuthDispatcher.cpp)\<close>

definition AuthDispatcher_new :: dispatch_table where
  "AuthDispatcher_new = Dispatcher_new(SSH2_MSG_SERVICE_REQUEST := Service_request_msg)"

definition AuthDispatcher_call ::
  "('ev, 'z) crypto \<Rightarrow> auth_db \<Rightarrow> dispatch_fn \<Rightarrow> byte \<Rightarrow> u32 \<Rightarrow> ('ev, 'z, 'm, unit) aproc" where
  "AuthDispatcher_call C D f type seq =
     (case f of Service_request_msg \<Rightarrow> input_service_request C
      | Userauth_request_msg \<Rightarrow> input_userauth_request C D
      | Unexpected_msg \<Rightarrow> protocol_error C seq
      | _ \<Rightarrow> retP ())"

definition do_authentication2 :: "nat \<Rightarrow> ('ev, 'z) crypto \<Rightarrow> auth_db \<Rightarrow> ('ev, 'z, 'm, unit) aproc" where
  "do_authentication2 n C D =
     dispatch_run n C (AuthDispatcher_call C D) ac_dispatch DISPATCH_BLOCK (\<lambda>s. a_success (ac_authctxt s))"

text \<open>The state a connection is made with: \<open>Authctxt\<close> is cleared, both methods are enabled.\<close>

definition Authctxt_new :: Authctxt where
  "Authctxt_new = \<lparr>a_success = False, a_postponed = False, a_valid = False, a_attempt = 0, a_failures = 0,
     a_server_caused_failure = False, a_user = None, a_service = None, a_pw = None, a_style = None, a_role = None\<rparr>"

end
