(* ===== verification/Auth_Props.thy ===== *)
theory Auth_Props
  imports Auth Kex_Server_Props
begin

text \<open>
  Authentication is sound and bounded: the loop of \<open>do_authentication2\<close> ends only after the database has accepted a
  non-empty password for the user the connection is for, and it asks the database about at most five passwords.
\<close>

section \<open>What the packet layer leaves alone\<close>

definition auth_of :: "('ev, 'z, 'm) AuthConn_scheme \<Rightarrow> Authctxt \<times> nat" where
  "auth_of s = (ac_authctxt s, ac_checks s)"

lemma auth_keeps [frame_intros]: "keeps ext m \<Longrightarrow> keeps auth_of m"
proof -
  have "auth_of t = auth_of s" if "ext t = ext s" for s t :: "('ev, 'z, 'm) AuthConn_scheme"
    using that by (cases s; cases t) (simp add: auth_of_def)
  then show "keeps ext m \<Longrightarrow> keeps auth_of m" unfolding moves_def by blast
qed

text \<open>A property of the authentication state.\<close>

abbreviation auth_is :: "(Authctxt \<times> nat \<Rightarrow> bool) \<Rightarrow> ('ev, 'z, 'm) AuthConn_scheme \<Rightarrow> bool" where
  "auth_is P s \<equiv> P (auth_of s)"

lemma auth_stays: "keeps auth_of m \<Longrightarrow> stays (auth_is P) m"
  by (erule hoare_keeps) simp

lemma keeps_auth [frame_intros]:
  "keeps auth_of (userauth_banner C)" "keeps auth_of enable_userauth_request_msg"
  "keeps auth_of disable_userauth_request_msg" "keeps auth_of (userauth_none C)" "keeps auth_of (find_allowed D u)"
  "keeps auth_of (input_service_request C)" "keeps auth_of (protocol_error C seq)"
  unfolding userauth_banner_def userauth_send_banner_def enable_userauth_request_msg_def disable_userauth_request_msg_def
    userauth_none_def find_allowed_def input_service_request_def protocol_error_def Let_def
  by (intro frame_intros; simp add: auth_of_def)+

section \<open>The invariant of the loop\<close>

text \<open>The user is one the database knows, and asked for the service that opens a session.\<close>

definition known :: "auth_db \<Rightarrow> Authctxt \<Rightarrow> bool" where
  "known D a \<longleftrightarrow> (\<exists>u i. a_user a = Some u \<and> a_pw a = user_row (sql_user D i u) \<and> a_pw a \<noteq> None \<and>
     a_service a = Some ''ssh-connection'')"

text \<open>At most \<open>k\<close> requests are not counted as failures, and every password that was checked is.\<close>

definition auth_ok :: "auth_db \<Rightarrow> int \<Rightarrow> Authctxt \<times> nat \<Rightarrow> bool" where
  "auth_ok D k v \<longleftrightarrow> (let (a, c) = v in \<not> a_success a \<and> \<not> a_postponed a \<and> \<not> a_server_caused_failure a \<and>
     0 \<le> a_failures a \<and> a_failures a < max_login_attempts \<and> 0 \<le> a_attempt a \<and> a_attempt a \<le> a_failures a + k \<and>
     int c \<le> a_failures a \<and> (a_attempt a > 0 \<longrightarrow> a_user a \<noteq> None \<and> a_service a \<noteq> None) \<and>
     (a_valid a \<longrightarrow> a_attempt a > 0 \<and> known D a))"

text \<open>The answer of the database that lets a user in: one of the first five passwords that were checked.\<close>

definition accepted :: "auth_db \<Rightarrow> Authctxt \<Rightarrow> nat \<Rightarrow> bool" where
  "accepted D a c \<longleftrightarrow> a_valid a \<and> (\<exists>u p row. a_user a = Some u \<and> p \<noteq> [] \<and> sql_password D c u p = Some (Some row))"

definition logged_in :: "auth_db \<Rightarrow> Authctxt \<times> nat \<Rightarrow> bool" where
  "logged_in D v \<longleftrightarrow> a_success (fst v) \<and> known D (fst v) \<and>
     (\<exists>c. accepted D (fst v) c \<and> int c < max_login_attempts \<and> snd v = c + 1)"

section \<open>The methods\<close>

lemma on_ctxt_hoare: "hoare (auth_is (\<lambda>v. v = (a, c))) (on_ctxt f) (\<lambda>_. auth_is (\<lambda>v. v = (f a, c)))"
  by (rule hoare_mod) (simp add: auth_of_def)

lemma auth_split: "(\<And>a c. P (a, c) \<Longrightarrow> hoare (auth_is (\<lambda>v. v = (a, c))) m Q) \<Longrightarrow> hoare (auth_is P) m Q"
  unfolding hoare_def by (metis surj_pair)

lemma get_ctxt_bind:
  "hoare (auth_is (\<lambda>v. v = (a, c))) (n a) Q \<Longrightarrow> hoare (auth_is (\<lambda>v. v = (a, c))) (bindP (getP ac_authctxt) n) Q"
  by (auto simp: hoare_def bindP_def getP_def auth_of_def)

lemma bindP_assoc: "bindP (bindP m k) h = bindP m (\<lambda>x. bindP (k x) h)"
  by (rule ext) (auto simp: bindP_def split: prod.split sum.split)

lemma User_auth_passwd_hoare:
  "hoare (auth_is (\<lambda>v. v = (a, c))) (User_auth_passwd D u p) (\<lambda>r. auth_is (\<lambda>v.
     v = (a, c + 1) \<and> (r \<noteq> None \<longrightarrow> (\<exists>row. sql_password D c u p = Some (Some row)))))"
proof (rule hoareI, goal_cases)
  case (1 s r t)
  have s: "ac_authctxt s = a" "ac_checks s = c" using 1(1) by (simp_all add: auth_of_def)
  consider "sql_password D c u p = None" | "sql_password D c u p = Some None" | row where "sql_password D c u p = Some (Some row)"
    by (cases "sql_password D c u p") fastforce+
  then show ?case using 1(2) s
    by cases (auto simp: User_auth_passwd_def bindP_def getP_def modP_def retP_def raiseP_def auth_of_def)
qed

lemma auth_passwd_hoare:
  "hoare (auth_is (\<lambda>v. v = (a, c))) (auth_password D a p) (\<lambda>r. auth_is (\<lambda>v.
     v \<in> {(a, c), (a, c + 1)} \<and> (r \<longrightarrow> v = (a, c + 1) \<and> accepted D a c)))"
  unfolding auth_password_def sys_auth_passwd_def Let_def bindP_assoc
  apply (rule hoare_if, rule hoare_ret, simp)
  apply (rule hoare_lift_bind)
  apply (rule hoare_bind [OF User_auth_passwd_hoare])
  apply (rule hoareI)
  apply (auto simp: bindP_Inr retP_def nonnull_Inr accepted_def split: option.splits)
  done

lemma userauth_passwd_hoare:
  "hoare (auth_is (\<lambda>v. v = (a, c))) (userauth_passwd C D) (\<lambda>r. auth_is (\<lambda>v.
     v \<in> {(a, c), (a, c + 1)} \<and> (r \<longrightarrow> v = (a, c + 1) \<and> accepted D a c)))"
  unfolding userauth_passwd_def
  apply (rule hoare_after, rule auth_stays, intro frame_intros)
  apply (rule hoare_after, rule auth_stays, intro frame_intros)
  apply (rule hoare_after, rule auth_stays, intro frame_intros)
  apply (rule hoare_after, rule auth_stays, intro frame_intros)
  apply (rule hoare_if, rule hoare_ret, simp)
  apply (rule get_ctxt_bind, rule auth_passwd_hoare)
  done

text \<open>What the chosen method can do; the name none never stands for the method that checks a password.\<close>

lemma method_hoare:
  "hoare (auth_is (\<lambda>v. v = (a, c))) (try_method C D name) (\<lambda>r. auth_is (\<lambda>v.
     v \<in> {(a, c), (a, c + 1)} \<and> (r \<longrightarrow> v = (a, c + 1) \<and> accepted D a c) \<and> (name = ''none'' \<longrightarrow> v = (a, c))))"
proof -
  let ?Q = "\<lambda>r. auth_is (\<lambda>v. v \<in> {(a, c), (a, c + 1)} \<and> (r \<longrightarrow> v = (a, c + 1) \<and> accepted D a c) \<and> (name = ''none'' \<longrightarrow> v = (a, c)))"
  have n: "hoare (auth_is (\<lambda>v. v = (a, c))) (userauth_none C) ?Q"
    unfolding userauth_none_def
    apply (rule hoare_after, rule auth_stays, intro frame_intros, simp add: auth_of_def)
    apply (rule hoare_after, rule auth_stays, intro frame_intros)
    apply (rule hoare_ret, simp)
    done
  have p: "hoare (auth_is (\<lambda>v. v = (a, c))) (userauth_passwd C D) ?Q" if "name \<noteq> ''none''"
    by (rule hoare_weaken [OF userauth_passwd_hoare], assumption) (use that in simp)
  have r: "hoare (auth_is (\<lambda>v. v = (a, c))) (retP False) ?Q" by (rule hoare_ret) simp
  have "hoare (\<lambda>s. auth_of s = (a, c) \<and> m = authmethod_lookup (authmethods s) name)
      (case m of None \<Rightarrow> retP False | Some f \<Rightarrow> call_method C D f) ?Q" for m
  proof -
    consider "m = None" | "m = Some Userauth_none" | "m = Some Userauth_passwd" "name \<noteq> ''none''"
      | "m = Some Userauth_passwd" "name = ''none''" by (metis authmethod_fn.exhaust option.exhaust)
    then show ?thesis
    proof cases
      case 1
      show ?thesis unfolding 1 option.case by (rule hoare_weaken [OF r], erule conjunct1, assumption)
    next
      case 2
      show ?thesis unfolding 2 option.case call_method_def authmethod_fn.case by (rule hoare_weaken [OF n], erule conjunct1, assumption)
    next
      case 3
      show ?thesis unfolding 3 option.case call_method_def authmethod_fn.case
        by (rule hoare_weaken [OF p [OF 3(2)]], erule conjunct1, assumption)
    next
      case 4
      have "\<not> (auth_of s = (a, c) \<and> m = authmethod_lookup (authmethods s) name)" for s
        unfolding 4 by (simp add: authmethods_def)
      then show ?thesis unfolding hoare_def by blast
    qed
  qed
  then show ?thesis unfolding try_method_def by (rule hoare_bind [OF hoare_get, rotated]) simp
qed

section \<open>A request\<close>

lemma known_cong: "a_user b = a_user a \<Longrightarrow> a_pw b = a_pw a \<Longrightarrow> a_service b = a_service a \<Longrightarrow> known D b = known D a"
  by (simp add: known_def)

lemma reply_success_hoare:
  "hoare (auth_is (\<lambda>v. v = (a, c))) (reply_success C) (\<lambda>_. auth_is (\<lambda>v. v = (a\<lparr>a_success := True\<rparr>, c)))"
  unfolding reply_success_def
  apply (rule hoare_after [OF auth_stays [OF keeps_auth(3)]])
  apply (rule hoare_after, rule auth_stays, intro frame_intros)
  apply (rule hoare_after, rule auth_stays, intro frame_intros)
  apply (rule hoare_after, rule auth_stays, intro frame_intros)
  apply (rule on_ctxt_hoare)
  done

lemma reply_failure_hoare:
  "hoare (auth_is (\<lambda>v. v = (a, c))) (reply_failure C name)
     (\<lambda>_. auth_is (\<lambda>v. v = (count_failure name a, c) \<and> a_failures (count_failure name a) < max_login_attempts))"
  unfolding reply_failure_def
  apply (rule hoare_bind [OF on_ctxt_hoare], rule get_ctxt_bind)
  apply (rule hoare_bind [where Q = "\<lambda>_. auth_is (\<lambda>v. v = (count_failure name a, c) \<and> a_failures (count_failure name a) < max_login_attempts)"])
   apply (rule hoare_when, rule hoare_lift_bind, rule hoare_throws [OF throws_disconnect], simp)
  apply (rule auth_stays, (intro frame_intros)+)
  done

text \<open>After the attempt is counted and the user is set up or compared.\<close>

definition attempted :: "auth_db \<Rightarrow> Authctxt \<times> nat \<Rightarrow> bool" where
  "attempted D v \<longleftrightarrow> auth_ok D 2 v \<and> a_attempt (fst v) > 0"

lemma success_logged_in:
  assumes "attempted D (a, c)" "accepted D a c"
  shows "logged_in D (a\<lparr>a_success := True\<rparr>, c + 1)"
proof -
  have "known D a" "int c < max_login_attempts" using assms by (auto simp: attempted_def auth_ok_def accepted_def)
  then show ?thesis using assms(2) by (simp add: logged_in_def known_def accepted_def)
qed

lemma failure_auth_ok:
  assumes "attempted D (a, c)" "c' = c \<or> c' = c + 1 \<and> name \<noteq> ''none''"
    "a_failures (count_failure name a) < max_login_attempts"
  shows "auth_ok D 1 (count_failure name a, c')" "\<not> a_success (count_failure name a)"
  using assms by (auto simp: attempted_def auth_ok_def count_failure_def known_def split: if_splits)

lemma finish_hoare:
  assumes a: "attempted D (a, c)" and c': "c' = c \<or> c' = c + 1 \<and> name \<noteq> ''none''"
    and r: "r \<longrightarrow> c' = c + 1 \<and> accepted D a c"
  shows "hoare (auth_is (\<lambda>v. v = (a, c'))) (userauth_finish C r name)
    (\<lambda>_. auth_is (\<lambda>v. if a_success (fst v) then logged_in D v else auth_ok D 1 v))"
proof -
  have p: "\<not> a_postponed a" using a by (simp add: attempted_def auth_ok_def)
  show ?thesis unfolding userauth_finish_def
    apply (rule get_ctxt_bind, rule hoare_if, rule hoare_raise, simp only: p if_False, rule hoare_if)
     apply (rule hoare_weaken [OF reply_success_hoare], assumption)
    using r success_logged_in [OF a] apply simp
    apply (rule hoare_weaken [OF reply_failure_hoare], assumption)
    using failure_auth_ok [OF a c'] apply simp
    done
qed

lemma request_user:
  assumes "auth_ok D 1 (a, c)"
  shows "hoare (auth_is (\<lambda>v. v = (a\<lparr>a_attempt := a_attempt a + 1\<rparr>, c)))
    (if a_attempt a = 0 then first_attempt C D user service style role else same_user C user service a)
    (\<lambda>_. auth_is (attempted D))"
proof (rule hoare_if)
  assume z: "a_attempt a = 0"
  show "hoare (auth_is (\<lambda>v. v = (a\<lparr>a_attempt := a_attempt a + 1\<rparr>, c))) (first_attempt C D user service style role)
    (\<lambda>_. auth_is (attempted D))"
    unfolding first_attempt_def
    apply (rule hoare_bind [where Q = "\<lambda>pw s. auth_of s = (a\<lparr>a_attempt := a_attempt a + 1\<rparr>, c) \<and> (\<exists>i. pw = user_row (sql_user D i user))"])
     apply (rule hoareI, auto simp: find_allowed_def bindP_Inr getP_def modP_def retP_def auth_of_def)[1]
    apply (rule hoare_pure, rule hoare_bind [OF on_ctxt_hoare], rule hoare_keeps [OF keeps_auth(1)])
    using assms z apply (auto simp: attempted_def auth_ok_def known_def)
    done
next
  assume z: "a_attempt a \<noteq> 0"
  show "hoare (auth_is (\<lambda>v. v = (a\<lparr>a_attempt := a_attempt a + 1\<rparr>, c))) (same_user C user service a) (\<lambda>_. auth_is (attempted D))"
    unfolding same_user_def
    apply (rule hoare_lift_bind, rule hoare_lift_bind, rule hoare_when, rule hoare_throws [OF throws_disconnect])
    using assms z apply (auto simp: attempted_def auth_ok_def known_def)
    done
qed

lemma request_hoare:
  "hoare (auth_is (auth_ok D 1)) (input_userauth_request C D)
    (\<lambda>_. auth_is (\<lambda>v. if a_success (fst v) then logged_in D v else auth_ok D 1 v))"
proof -
  let ?R = "\<lambda>_. auth_is (\<lambda>v. if a_success (fst v) then logged_in D v else auth_ok D 1 v)"
  have m: "hoare (auth_is (attempted D)) (bindP (try_method C D name) (\<lambda>r. userauth_finish C r name)) ?R" for name
  proof (rule auth_split, rule hoare_bind [OF method_hoare], rule auth_split, goal_cases)
    case (1 a c r a' c')
    then have a': "a' = a" by auto
    show ?case unfolding a' by (rule finish_hoare [OF 1(1)]) (use 1(2) in auto)
  qed
  have s: "hoare (auth_is (\<lambda>v. v = (a\<lparr>a_attempt := a_attempt a + 1\<rparr>, c)))
     (if a_attempt a = 0 then first_attempt C D user service style role else same_user C user service a)
     (\<lambda>_. auth_is (attempted D))" if "auth_ok D 1 (a, c)" for a c user service style role
    using request_user [OF that] by blast
  have p: "hoare (auth_is (attempted D)) (on_ctxt (\<lambda>a. a\<lparr>a_postponed := False, a_server_caused_failure := False\<rparr>))
     (\<lambda>_. auth_is (attempted D))"
    by (rule hoare_mod) (auto simp: auth_of_def attempted_def auth_ok_def known_def)
  have "hoare (auth_is (\<lambda>v. v = (a, c))) (input_userauth_request C D) ?R" if ok: "auth_ok D 1 (a, c)" for a c
    unfolding input_userauth_request_def Let_def
    apply (rule hoare_after, rule auth_stays, intro frame_intros)
    apply (rule hoare_after, rule auth_stays, intro frame_intros)
    apply (rule hoare_after, rule auth_stays, intro frame_intros)
    apply (rule hoare_prod)+
    apply (rule get_ctxt_bind, rule hoare_bind [OF on_ctxt_hoare], rule hoare_bind [OF s [OF ok]], rule hoare_bind [OF p], rule m)
    done
  then show ?thesis by (rule auth_split)
qed

section \<open>The connection stays encrypted\<close>

text \<open>The keys in use are \<open>kv\<close>, and none wait to be taken into use.\<close>

definition sealed :: "(kex_mode \<Rightarrow> (Enc \<times> Mac) option) \<Rightarrow> ('ev, 'z, 'm) Packets_scheme \<Rightarrow> bool" where
  "sealed kv s \<longleftrightarrow> out_inv s \<and> keys_of s = (kv, \<lambda>_. None)"

lemmas sealed_simps = sealed_def out_inv_def queue_inv_def rekey_inv_def keys_of_def

lemma sealed_keeps: "keeps out_of m \<Longrightarrow> keeps keys_of m \<Longrightarrow> stays (sealed kv) m"
  unfolding hoare_def sealed_def moves_def using out_inv_view by metis

lemma sealed_read: "stays (sealed kv) (packet_read_seqnr C)"
proof (rule hoareI, goal_cases)
  case (1 s x t)
  obtain ty sq where x: "x = (ty, sq)" by fastforce
  have k: "keys_of s = (kv, \<lambda>_. None)" and o: "out_inv s" using 1(1) by (simp_all add: sealed_def)
  have "out_inv t" using out_inv_view [OF movesD [OF out_read(1) 1(2)] o] .
  moreover have "keys_of t = keys_of s" using receivesD [OF keys_read_seqnr 1(2) [unfolded x]] k by (auto simp: recv_keys_def)
  ultimately show ?case using k by (simp add: sealed_def)
qed

lemma sealed_start: "hoare (sealed kv) (packet_start ty) (\<lambda>_ s. sealed kv s \<and> building ty s)"
proof (rule hoareI, goal_cases)
  case (1 s x t)
  have "building ty t" using start_building [of s ty t] 1 by (simp add: sealed_def)
  then show ?case using 1(1) movesD [OF keys_build(1) 1(2)] by (simp add: sealed_def building_def)
qed

lemma sealed_put:
  assumes "keeps keys_of m" "stays (building ty) m"
  shows "stays (\<lambda>s. sealed kv s \<and> building ty s) m"
  using assms unfolding hoare_def sealed_def moves_def by (metis building_def)

lemma sealed_send:
  assumes "ty \<noteq> SSH2_MSG_NEWKEYS"
  shows "hoare (\<lambda>s. sealed kv s \<and> building ty s) (packet_send C) (\<lambda>_. sealed kv)"
proof (rule hoareI, goal_cases)
  case (1 s x t)
  then show ?case using send_building [of C s t ty] assms by (simp add: sealed_def sent_keys_def)
qed

lemma sealed_wait: "stays (sealed kv) packet_write_wait" "stays (sealed kv) (packet_check_eom C)"
  "stays (sealed kv) packet_get_string" "stays (sealed kv) packet_get_char"
  by (rule sealed_keeps; intro frame_intros)+

lemma sealed_ctxt: "stays (sealed kv) (on_ctxt f)"
  by (rule stays_mod) (simp add: sealed_simps)

lemma sealed_queries:
  "stays (sealed kv) (find_allowed D u)" "stays (sealed kv) (User_auth_passwd D u p)"
  "stays (sealed kv) enable_userauth_request_msg" "stays (sealed kv) disable_userauth_request_msg"
  unfolding find_allowed_def User_auth_passwd_def enable_userauth_request_msg_def disable_userauth_request_msg_def
  by (intro stays_intros; simp add: sealed_simps)+

lemmas sealed_steps = sealed_wait sealed_ctxt sealed_queries

lemma sealed_banner: "stays (sealed kv) (userauth_banner C)"
  unfolding userauth_banner_def userauth_send_banner_def
  apply (rule hoare_after, rule stays_basic, rule hoare_if, rule stays_basic, rule hoare_bind [OF sealed_start])
  apply (rule hoare_after, rule sealed_put, intro frame_intros, intro stays_intros)
  apply (rule hoare_after, rule sealed_put, intro frame_intros, intro stays_intros)
  apply (rule sealed_send, simp add: SSH2_MSG_USERAUTH_BANNER_def msg_consts)
  done

lemmas auth_consts = SSH2_MSG_SERVICE_ACCEPT_def SSH2_MSG_USERAUTH_FAILURE_def SSH2_MSG_USERAUTH_BANNER_def msg_consts

lemma sealed_service: "stays (sealed kv) (input_service_request C)"
  unfolding input_service_request_def Let_def
  apply (rule hoare_after [OF sealed_wait(3)], rule hoare_after [OF sealed_wait(2)], rule hoare_after [OF stays_basic(2)])
  apply (rule hoare_after, rule stays_cases, rule sealed_queries, rule hoare_if)
   apply (rule hoare_bind [OF sealed_start], rule hoare_after, rule sealed_put, intro frame_intros, intro stays_intros)
   apply (rule hoare_bind [OF sealed_send], simp add: auth_consts, rule sealed_wait)
  apply (rule hoare_throws [OF throws_disconnect])
  done

lemma sealed_protocol_error: "stays (sealed kv) (protocol_error C seq)"
  unfolding protocol_error_def
  apply (rule hoare_bind [OF sealed_start], rule hoare_after, rule sealed_put, intro frame_intros, intro stays_intros)
  apply (rule hoare_bind [OF sealed_send], simp add: auth_consts, rule sealed_wait)
  done

lemma sealed_success: "stays (sealed kv) (reply_success C)"
  unfolding reply_success_def
  apply (rule hoare_after [OF sealed_queries(4)], rule hoare_bind [OF sealed_start], rule hoare_bind [OF sealed_send])
   apply (simp add: auth_consts)
  apply (rule hoare_after [OF sealed_wait(1)], rule sealed_ctxt)
  done

lemma sealed_failure: "stays (sealed kv) (reply_failure C name)"
  unfolding reply_failure_def
  apply (rule hoare_after [OF sealed_ctxt], rule hoare_after [OF stays_basic(2)])
  apply (rule hoare_after, rule stays_cases, rule stays_lift_bind, rule hoare_throws [OF throws_disconnect])
  apply (rule hoare_after [OF stays_basic(2)], rule hoare_lift_bind, rule hoare_bind [OF sealed_start])
  apply (rule hoare_after, rule sealed_put, intro frame_intros, intro stays_intros)
  apply (rule hoare_after, rule sealed_put, intro frame_intros, intro stays_intros)
  apply (rule hoare_bind [OF sealed_send], simp add: auth_consts, rule sealed_wait)
  done

lemma sealed_methods: "stays (sealed kv) (userauth_none C)" "stays (sealed kv) (userauth_passwd C D)"
  unfolding userauth_none_def userauth_passwd_def auth_password_def sys_auth_passwd_def Let_def
  by (intro stays_intros sealed_steps; simp add: sealed_simps)+

lemma sealed_method: "stays (sealed kv) (try_method C D name)"
proof -
  have "stays (sealed kv) (call_method C D f)" for f
    by (cases f) (simp_all add: call_method_def sealed_methods)
  then show ?thesis unfolding try_method_def by (intro stays_intros)
qed

lemma sealed_disconnect: "stays (sealed kv) (packet_disconnect C msg)"
  by (rule hoare_throws [OF throws_disconnect])

lemma sealed_request: "stays (sealed kv) (input_userauth_request C D)"
  unfolding input_userauth_request_def userauth_finish_def first_attempt_def same_user_def Let_def
  by (intro stays_intros sealed_steps sealed_method sealed_success sealed_failure sealed_banner sealed_disconnect)

lemma sealed_dispatch: "stays (sealed kv) (dispatch_packet (AuthDispatcher_call C D) tab type seq)"
proof -
  have "stays (sealed kv) (AuthDispatcher_call C D f type seq)" for f
    by (cases f) (simp_all add: AuthDispatcher_call_def sealed_service sealed_request sealed_protocol_error stays_basic)
  then show ?thesis unfolding dispatch_packet_def by (intro hoare_if)
qed

section \<open>The loop\<close>

lemma quiet_hoare:
  "keeps auth_of m \<Longrightarrow> hoare (auth_is (auth_ok D 1)) m (\<lambda>_. auth_is (\<lambda>v. if a_success (fst v) then logged_in D v else auth_ok D 1 v))"
  by (erule hoare_keeps) (auto simp: auth_ok_def)

lemma auth_dispatch_hoare:
  "hoare (auth_is (auth_ok D 1)) (dispatch_packet (AuthDispatcher_call C D) tab type seq)
     (\<lambda>_. auth_is (\<lambda>v. if a_success (fst v) then logged_in D v else auth_ok D 1 v))"
proof -
  let ?R = "\<lambda>_. auth_is (\<lambda>v. if a_success (fst v) then logged_in D v else auth_ok D 1 v)"
  note k = quiet_hoare [of _ D]
  have r: "hoare (auth_is (auth_ok D 1)) (retP ()) ?R" by (rule k) (rule keeps_basic)
  have "hoare (auth_is (auth_ok D 1)) (AuthDispatcher_call C D f type seq) ?R" for f
    unfolding AuthDispatcher_call_def
    using request_hoare k [OF keeps_auth(6)] k [OF keeps_auth(7)] r by (cases f) (simp_all only: dispatch_fn.case)
  then show ?thesis unfolding dispatch_packet_def by (intro hoare_if)
qed

lemma do_authentication2_hoare:
  "hoare (\<lambda>s. auth_is (auth_ok D 1) s \<and> sealed kv s) (do_authentication2 n C D) (\<lambda>_ t. auth_is (logged_in D) t \<and> sealed kv t)"
  unfolding do_authentication2_def
proof (rule dispatch_block_hoare, goal_cases)
  case 1
  show ?case by (rule hoare_conj [OF auth_stays sealed_read]) (intro frame_intros)
next
  case (2 t type seqnr)
  show ?case
    by (rule hoare_weaken [OF hoare_conj [OF auth_dispatch_hoare sealed_dispatch]]) (auto simp: auth_of_def)
qed

lemma logged_in_user:
  assumes "logged_in D (auth_of s)"
  shows "\<exists>user i j password row.
    a_user (ac_authctxt s) = Some user \<and> a_service (ac_authctxt s) = Some ''ssh-connection'' \<and>
    a_pw (ac_authctxt s) = user_row (sql_user D i user) \<and> a_pw (ac_authctxt s) \<noteq> None \<and>
    password \<noteq> [] \<and> sql_password D j user password = Some (Some row) \<and> j < 5 \<and> ac_checks s = j + 1"
proof -
  have "known D (ac_authctxt s)" and "\<exists>c. accepted D (ac_authctxt s) c \<and> c < 5 \<and> ac_checks s = c + 1"
    using assms by (auto simp: logged_in_def auth_of_def max_login_attempts_def)
  then show ?thesis unfolding known_def accepted_def by (metis option.inject)
qed

lemma fresh_auth_ok: "auth_ok D 1 (Authctxt_new, 0)"
  by (simp add: auth_ok_def Authctxt_new_def max_login_attempts_def)

text \<open>C2: If authentication returns, the database knows the user, the user asked for the connection service, and the
  database accepted a non-empty password for that user; it was among the first five passwords of the connection.
  The keys of both directions are those authentication started with.\<close>

theorem authentication_sound:
  "hoare (\<lambda>s. ac_authctxt s = Authctxt_new \<and> ac_checks s = 0 \<and> sealed kv s) (do_authentication2 n C D)
     (\<lambda>_ t. sealed kv t \<and> (\<exists>user i j password row.
       a_user (ac_authctxt t) = Some user \<and> a_service (ac_authctxt t) = Some ''ssh-connection'' \<and>
       a_pw (ac_authctxt t) = user_row (sql_user D i user) \<and> a_pw (ac_authctxt t) \<noteq> None \<and>
       password \<noteq> [] \<and> sql_password D j user password = Some (Some row) \<and> j < 5 \<and> ac_checks t = j + 1))"
proof (rule hoare_weaken [OF do_authentication2_hoare [where D = D and kv = kv]], goal_cases)
  case (1 s)
  then show ?case by (simp add: auth_of_def fresh_auth_ok)
next
  case (2 x s)
  then show ?case using logged_in_user by blast
qed

text \<open>C25: A password is accepted exactly if it is not empty, the user is valid, the database has a row for the user
  and the password, and the value \<open>sys_auth_passwd\<close> leaves when it ends without a return statement is not zero.\<close>

theorem password_check_exact:
  assumes "a_user a = Some user" "sql_password D (ac_checks s) user password \<noteq> None"
  shows "fst (auth_password D a password s) =
    Inr (password \<noteq> [] \<and> a_valid a \<and> (\<exists>row. sql_password D (ac_checks s) user password = Some (Some row)) \<and> no_return D \<noteq> 0)"
proof -
  obtain r where r: "sql_password D (ac_checks s) user password = Some r" using assms(2) by blast
  show ?thesis
    by (cases r) (auto simp: auth_password_def sys_auth_passwd_def User_auth_passwd_def Let_def bindP_def getP_def modP_def
      retP_def liftR_def nonnull_def r assms(1))
qed

text \<open>A database with one user, and a compiler that leaves one in the register of the result.\<close>

definition one_user :: auth_db where
  "one_user = \<lparr>sql_user = (\<lambda>_ u. Some (if u = ''alice'' then Some (u, []) else None)),
     sql_password = (\<lambda>_ u p. Some (if u = ''alice'' \<and> p = ''secret'' then Some [] else None)), no_return = 1\<rparr>"

theorem password_check_exact_witness:
  "\<forall>s. fst (auth_password one_user (Authctxt_new\<lparr>a_user := Some ''alice'', a_valid := True\<rparr>) ''secret'' s) = Inr True \<and>
     fst (auth_password one_user (Authctxt_new\<lparr>a_user := Some ''alice'', a_valid := True\<rparr>) ''guess'' s) = Inr False"
  by (intro allI conjI; subst password_check_exact [where user = "''alice''"]) (simp_all add: one_user_def)

end
