(* ===== verification/Conn.thy ===== *)
theory Conn
  imports Auth_Props Ident
begin

text \<open>
  A connection from its first byte to the start of the session, as \<open>CoreConnection::run\<close> has it: the version strings,
  the first key exchange and the authentication of the user. The state of each part survives the parts after it.
\<close>

section \<open>The order of the parts\<close>

text \<open>What follows in the source is \<open>server_loop\<close>. The handler around it all logs the exception and passes it on.\<close>

definition CoreConnection_run ::
  "nat \<Rightarrow> nat \<Rightarrow> ('ev, 'z) crypto \<Rightarrow> kex_lib \<Rightarrow> auth_db \<Rightarrow> recv_result list \<Rightarrow> ('ev, 'z, 'm, unit) aproc" where
  "CoreConnection_run n k C E D rs =
     bindP (sshd_exchange_identification rs) (\<lambda>_.
     bindP (do_ssh2_kex n C E) (\<lambda>_.
     do_authentication2 k C D))"

section \<open>The key exchange leaves authentication alone\<close>

lemma more_keeps [frame_intros]: "keeps ext m \<Longrightarrow> keeps KexConn.more m"
  unfolding moves_def by (metis ext_KexConn(4))

lemma more_send_kexinit [frame_intros]: "keeps KexConn.more (kex_send_kexinit C)"
  unfolding kex_send_kexinit_def by (intro frame_intros; simp)

lemma more_setup [frame_intros]: "keeps KexConn.more (kex_setup C p)"
  unfolding kex_setup_def by (intro frame_intros; simp)

lemma more_choose_conf [frame_intros]: "keeps KexConn.more (kex_choose_conf C E)"
  unfolding kex_choose_conf_def by (intro frame_intros; simp)

lemma more_finish [frame_intros]: "keeps KexConn.more (kex_finish C)"
  unfolding kex_finish_def by (intro frame_intros; simp)

lemma more_reply [frame_intros]: "keeps KexConn.more (send_reply C E reply blob pub sig)"
  by (rule more_keeps [OF ext_reply])

lemma more_finish_exchange [frame_intros]: "keeps KexConn.more (finish_exchange C E reply host_key blob pub hash secret)"
  unfolding finish_exchange_def by (intro frame_intros; simp)

lemma more_parts [frame_intros]:
  "keeps KexConn.more (load_host_key kex)" "keeps KexConn.more (gen_dh E grp kex)" "keeps KexConn.more (get_client_pub C E grp priv)"
  "keeps KexConn.more (gex_request C)"
  unfolding load_host_key_def gen_dh_def get_client_pub_def gex_request_def by (intro frame_intros; simp)+

lemma more_exchanges [frame_intros]: "keeps KexConn.more (kexdh_server C E)" "keeps KexConn.more (kexgex_server C E)"
  unfolding kexdh_server_def kexgex_server_def Let_def by (intro frame_intros)+

lemma keeps_repeat [frame_intros]: "keeps f m \<Longrightarrow> keeps f (repeatP n m)"
  by (induction n) (auto intro!: frame_intros)

lemma more_kexinit [frame_intros]: "keeps KexConn.more (kex_input_kexinit C E)"
proof -
  have k: "keeps KexConn.more (case t of KEX_DH_GRP1_SHA1 \<Rightarrow> kexdh_server C E | KEX_DH_GRP14_SHA1 \<Rightarrow> kexdh_server C E
      | KEX_DH_GEX_SHA1 \<Rightarrow> kexgex_server C E | KEX_DH_GEX_SHA256 \<Rightarrow> kexgex_server C E)" for t
    by (cases t) (simp_all add: more_exchanges)
  show ?thesis unfolding kex_input_kexinit_def kex_kexinit_finish_def by (intro frame_intros k; simp)
qed

lemma more_dispatch [frame_intros]: "keeps KexConn.more (dispatch_run n C (KexDispatcher_call C E) table DISPATCH_BLOCK done')"
proof (induction n)
  case (Suc n)
  have "keeps KexConn.more (KexDispatcher_call C E f type seq)" for f type seq
    by (cases f) (simp_all add: KexDispatcher_call_def more_kexinit keeps_basic)
  then have "keeps KexConn.more (dispatch_packet (KexDispatcher_call C E) t type seq)" for t type seq
    unfolding dispatch_packet_def by (intro keeps_if)
  note d = this
  have r: "keeps KexConn.more (packet_read_seqnr C)" by (intro frame_intros)
  show ?case by (simp, intro keeps_bind keeps_prod keeps_if keeps_basic d r Suc)
qed (simp add: keeps_basic)

lemma more_do_ssh2_kex: "keeps KexConn.more (do_ssh2_kex n C E)"
  unfolding do_ssh2_kex_def by (intro frame_intros; simp)

section \<open>The version strings\<close>

text \<open>A connection before its first byte.\<close>

definition fresh :: "Key option list \<Rightarrow> ('ev, 'z, 'm) AuthConn_scheme \<Rightarrow> bool" where
  "fresh hks s \<longleftrightarrow> out_inv s \<and> kc_host_keys s = hks \<and> ac_authctxt s = Authctxt_new \<and> ac_checks s = 0"

lemma send_hoare: "stays (fresh hks) (atomicio_send d)"
  by (rule hoareI) (auto simp: atomicio_send_def fresh_def out_inv_def queue_inv_def rekey_inv_def split: prod.splits)

lemma identification_hoare:
  "hoare (fresh hks) (sshd_exchange_identification rs) (\<lambda>_ s. fresh hks s \<and>
     (\<exists>cv minor name. before_kex cv (chop get_protocol_version_exchange_string) hks s \<and> scan_version cv = Some (2, minor, name)))"
  unfolding sshd_exchange_identification_def Let_def
  apply (rule hoare_after [OF send_hoare], rule hoare_if, rule hoare_raise, rule hoare_lift_bind, rule hoare_prod)
  apply (rule hoare_option, rule hoare_after [OF send_hoare], rule hoare_raise, (rule hoare_split)+)
  apply (rule hoare_after, rule stays_mod, simp add: fresh_def out_inv_def queue_inv_def rekey_inv_def)
  apply (rule hoare_after [OF stays_basic(2)], rule hoare_if, rule hoare_raise, rule hoare_if, rule hoare_raise, rule hoare_if)
   apply (rule hoare_after [OF send_hoare], rule hoare_raise)
  apply (rule hoare_mod)
  apply (auto simp: fresh_def before_kex_def versions_def out_inv_def queue_inv_def rekey_inv_def)
  done

section \<open>The whole way to the session\<close>

text \<open>\<open>kv\<close> are the keys of both directions that a first exchange with these versions and host keys derives.\<close>

definition keyed :: "kex_lib \<Rightarrow> string \<Rightarrow> string \<Rightarrow> Key option list \<Rightarrow> (kex_mode \<Rightarrow> (Enc \<times> Mac) option) \<Rightarrow> bool" where
  "keyed E cv sv hks kv \<longleftrightarrow> (\<exists>k secret hash df keys k'. id_of k = (None, cv, sv) \<and>
     (dh_exchange E k hks secret hash \<or> gex_exchange E k hks secret hash) \<and>
     derived E df (save_session_id hash k) hash secret = Inr (keys, k') \<and>
     (\<forall>mode. keys mode \<noteq> None) \<and> kv = (\<lambda>mode. map_option crypt_of (keys mode)))"

lemma exchanged_keyed:
  assumes "exchanged E (None, cv, sv) hks t"
  shows "\<exists>kv. keyed E cv sv hks kv \<and> sealed kv t"
proof -
  obtain k secret hash where k: "id_of k = (None, cv, sv)" "dh_exchange E k hks secret hash \<or> gex_exchange E k hks secret hash"
    "rekeyed E k hash secret t" using assms unfolding exchanged_def by blast
  obtain df keys where d: "derived E df (save_session_id hash k) hash secret = Inr (keys, (save_session_id hash k)\<lparr>k_newkeys := (\<lambda>_. None)\<rparr>)"
    "out_inv t" "pk_current_keys t = (\<lambda>_. None)"
    "\<forall>mode. map_option crypt_of (pk_newkeys t mode) = map_option crypt_of (keys mode) \<and> keys mode \<noteq> None"
    using k(3) unfolding rekeyed_def by blast
  let ?kv = "\<lambda>mode. map_option crypt_of (keys mode)"
  have "keyed E cv sv hks ?kv" unfolding keyed_def using k(1,2) d(1,4) by blast
  moreover have "sealed ?kv t" using d(2-4) by (simp add: sealed_def keys_of_def)
  ultimately show ?thesis by blast
qed

lemma kex_fresh_hoare:
  "hoare (\<lambda>s. fresh hks s \<and> before_kex cv sv hks s) (do_ssh2_kex n C E)
     (\<lambda>_ t. ac_authctxt t = Authctxt_new \<and> ac_checks t = 0 \<and> (\<exists>kv. keyed E cv sv hks kv \<and> sealed kv t))"
proof (rule hoareI, goal_cases)
  case (1 s x t)
  have "KexConn.more t = KexConn.more s" using movesD [OF more_do_ssh2_kex 1(2)] by simp
  then have "ac_authctxt t = ac_authctxt s" "ac_checks t = ac_checks s" by (cases s; cases t; simp)+
  moreover have "exchanged E (None, cv, sv) hks t" using hoareD [OF do_ssh2_kex_hoare _ 1(2)] 1(1) by blast
  ultimately show ?case using exchanged_keyed 1(1) by (simp add: fresh_def)
qed

lemma auth_sealed_hoare:
  "hoare (\<lambda>t. ac_authctxt t = Authctxt_new \<and> ac_checks t = 0 \<and> (\<exists>kv. keyed E cv sv hks kv \<and> sealed kv t)) (do_authentication2 k C D)
     (\<lambda>_ t. \<exists>kv. keyed E cv sv hks kv \<and> sealed kv t \<and> logged_in D (auth_of t))"
proof (rule hoareI, goal_cases)
  case (1 s x t)
  then obtain kv where kv: "keyed E cv sv hks kv" "sealed kv s" by blast
  have "auth_ok D 1 (auth_of s)" using 1(1) fresh_auth_ok by (simp add: auth_of_def)
  then have "logged_in D (auth_of t) \<and> sealed kv t" using hoareD [OF do_authentication2_hoare _ 1(2)] kv(2) by blast
  then show ?case using kv(1) by blast
qed

text \<open>C1: When a connection comes to the start of its session, the client spoke protocol 2, the keys of both directions are
  those of a complete key exchange whose hash covers the versions both sides sent, and the database knows the user and
  has accepted a non-empty password, one of at most five, for this user and the connection service.\<close>

theorem session_secured:
  "hoare (fresh hks) (CoreConnection_run n k C E D rs) (\<lambda>_ t. \<exists>cv minor name kv user i j password row.
     scan_version cv = Some (2, minor, name) \<and> keyed E cv (chop get_protocol_version_exchange_string) hks kv \<and> sealed kv t \<and>
     a_user (ac_authctxt t) = Some user \<and> a_service (ac_authctxt t) = Some ''ssh-connection'' \<and>
     a_pw (ac_authctxt t) = user_row (sql_user D i user) \<and> a_pw (ac_authctxt t) \<noteq> None \<and>
     password \<noteq> [] \<and> sql_password D j user password = Some (Some row) \<and> j < 5)"
proof (rule hoareI, goal_cases)
  case (1 s x t)
  let ?sv = "chop get_protocol_version_exchange_string"
  obtain u v where u: "sshd_exchange_identification rs s = (Inr (), u)" and v: "do_ssh2_kex n C E u = (Inr (), v)"
    and t: "do_authentication2 k C D v = (Inr x, t)" using 1(2) by (auto simp: CoreConnection_run_def bindP_Inr)
  obtain cv minor name where cv: "fresh hks u" "before_kex cv ?sv hks u" "scan_version cv = Some (2, minor, name)"
    using hoareD [OF identification_hoare 1(1) u] by blast
  have "ac_authctxt v = Authctxt_new \<and> ac_checks v = 0 \<and> (\<exists>kv. keyed E cv ?sv hks kv \<and> sealed kv v)"
    using hoareD [OF kex_fresh_hoare _ v] cv(1,2) by blast
  from hoareD [OF auth_sealed_hoare this t] obtain kv where kv: "keyed E cv ?sv hks kv" "sealed kv t" "logged_in D (auth_of t)" by blast
  show ?case using cv(3) kv(1,2) logged_in_user [OF kv(3)] by blast
qed

end
