(* ===== verification/Thread_Buf.thy ===== *)
theory Thread_Buf
  imports Wire "HOL-Library.Multiset"
begin

text \<open>
  The buffers between the thread of a connection and the thread of a subsystem: \<open>BusyThreadReadBuffer.h\<close> for what the
  subsystem produces and \<open>BusyThreadWriteBuffer.h\<close> for what the client sends. Each has two buffers of counted strings,
  one for either thread, which are swapped under a lock. A message is taken from the buffer of the reader, and the
  reader swaps when that one is empty.

  What runs under the lock is one step. \<open>BusyThreadWriteBuffer::get\<close> takes the lock several times and reads a counter
  of the other thread without it; its parts are the steps of the relation \<open>tb_step\<close>, between which the other
  thread may put messages. \<open>BusyThreadReadBuffer\<close> is modelled call by call: its reader takes the lock only to swap.
  The counters are integers; the count of consumed bytes is added to an unsigned 32-bit number, where it wraps as the
  \<open>int\<close> of the source does.
\<close>

section \<open>From the subsystem to the connection (BusyThreadReadBuffer.h)\<close>

record TRead =
  rb_readBuf :: Buffer
  rb_writeBuf :: Buffer
  rb_nWriteBufMsgs :: int
  rb_nReadBufMsgs :: int
  rb_dataReady :: bool

definition rb_new :: TRead where
  "rb_new = \<lparr>rb_readBuf = buffer_init, rb_writeBuf = buffer_init, rb_nWriteBufMsgs = 0, rb_nReadBufMsgs = 0,
     rb_dataReady = False\<rparr>"

definition rb_put :: "TRead \<Rightarrow> byte list \<Rightarrow> TRead res" where
  "rb_put r data =
     bindR (buffer_put_string (rb_writeBuf r) data) (\<lambda>b.
     Inr (r\<lparr>rb_writeBuf := b, rb_nWriteBufMsgs := rb_nWriteBufMsgs r + 1, rb_dataReady := True\<rparr>))"

definition rb_swap :: "TRead \<Rightarrow> TRead" where
  "rb_swap r = r\<lparr>rb_readBuf := rb_writeBuf r, rb_writeBuf := rb_readBuf r,
     rb_nReadBufMsgs := rb_nWriteBufMsgs r, rb_nWriteBufMsgs := rb_nReadBufMsgs r\<rparr>"

definition rb_take :: "TRead \<Rightarrow> (byte list \<times> TRead) res" where
  "rb_take r =
     (let n = rb_nReadBufMsgs r - 1 in
      bindR (buffer_get_string (rb_readBuf r)) (\<lambda>(data, b).
      Inr (data, r\<lparr>rb_readBuf := b, rb_nReadBufMsgs := n, rb_dataReady := (rb_dataReady r \<and> n \<noteq> 0)\<rparr>)))"

definition rb_next :: "TRead \<Rightarrow> (byte list option \<times> TRead) res" where
  "rb_next r =
     (if rb_nReadBufMsgs r \<noteq> 0 then bindR (rb_take r) (\<lambda>(d, r). Inr (Some d, r))
      else if rb_nWriteBufMsgs r \<noteq> 0 then bindR (rb_take (rb_swap r)) (\<lambda>(d, r). Inr (Some d, r))
      else Inr (None, r\<lparr>rb_dataReady := False\<rparr>))"

definition rb_get :: "Buffer \<Rightarrow> bool \<Rightarrow> TRead \<Rightarrow> (bool \<times> Buffer \<times> TRead) res" where
  "rb_get out asString r =
     bindR (rb_next r) (\<lambda>(m, r).
     case m of None \<Rightarrow> Inr (False, out, r)
     | Some data \<Rightarrow>
         bindR (if asString then buffer_put_string out data else buffer_append out data) (\<lambda>out.
         Inr (True, out, r)))"

definition rb_n_msgs :: "TRead \<Rightarrow> int" where
  "rb_n_msgs r = rb_nWriteBufMsgs r + rb_nReadBufMsgs r"

section \<open>From the connection to the subsystem (BusyThreadWriteBuffer.h)\<close>

record TWrite =
  wb_readBuf :: Buffer
  wb_writeBuf :: Buffer
  wb_nWriteBufMsgs :: int
  wb_nReadBufMsgs :: int
  wb_nWriteConsumed :: int
  wb_nReadConsumed :: int
  wb_dataArrived :: bool

definition wb_new :: TWrite where
  "wb_new = \<lparr>wb_readBuf = buffer_init, wb_writeBuf = buffer_init, wb_nWriteBufMsgs = 0, wb_nReadBufMsgs = 0,
     wb_nWriteConsumed = 0, wb_nReadConsumed = 0, wb_dataArrived = False\<rparr>"

text \<open>The result is the new value of \<open>*consumed\<close>.\<close>

definition wb_put :: "TWrite \<Rightarrow> byte list \<Rightarrow> u32 \<Rightarrow> (u32 \<times> TWrite) res" where
  "wb_put w data consumed =
     (let consumed = consumed - of_int (wb_nWriteConsumed w); w = w\<lparr>wb_nWriteConsumed := 0\<rparr> in
      if data = [] then Inr (consumed, w)
      else
        bindR (buffer_put_string (wb_writeBuf w) data) (\<lambda>b.
        Inr (consumed, w\<lparr>wb_writeBuf := b, wb_nWriteBufMsgs := wb_nWriteBufMsgs w + 1,
          wb_dataArrived := (wb_dataArrived w \<or> wb_nWriteBufMsgs w = 0)\<rparr>)))"

definition wb_put_eof :: "TWrite \<Rightarrow> TWrite res" where
  "wb_put_eof w =
     bindR (buffer_put_string (wb_writeBuf w) []) (\<lambda>b.
     Inr (w\<lparr>wb_writeBuf := b, wb_nWriteBufMsgs := wb_nWriteBufMsgs w + 1, wb_dataArrived := True\<rparr>))"

definition wb_swap :: "TWrite \<Rightarrow> TWrite" where
  "wb_swap w = w\<lparr>wb_readBuf := wb_writeBuf w, wb_writeBuf := wb_readBuf w,
     wb_nReadBufMsgs := wb_nWriteBufMsgs w, wb_nWriteBufMsgs := wb_nReadBufMsgs w,
     wb_nReadConsumed := wb_nWriteConsumed w, wb_nWriteConsumed := wb_nReadConsumed w\<rparr>"

definition wb_take :: "TWrite \<Rightarrow> (byte list \<times> TWrite) res" where
  "wb_take w =
     bindR (buffer_get_string (wb_readBuf w)) (\<lambda>(data, b).
     Inr (data, w\<lparr>wb_readBuf := b, wb_nReadBufMsgs := wb_nReadBufMsgs w - 1,
       wb_nReadConsumed := wb_nReadConsumed w - int (length data)\<rparr>))"

definition wb_n_msgs :: "TWrite \<Rightarrow> int" where
  "wb_n_msgs w = wb_nWriteBufMsgs w + wb_nReadBufMsgs w"

text \<open>The places in \<open>get\<close> between which the other thread can run: at the start, after the event is reset and before
  the counter of the writer is read, before the swap that pushes the consumed count, at the wait, after it, before the
  swap for threads that missed each other, before the last swap, and before the message is taken.\<close>

datatype get_pc = Get_start | Get_check | Get_push | Get_wait | Get_woken | Get_missed | Get_swap | Get_take

text \<open>One step of the worker: the next place, and the message \<open>get\<close> returns if it returns one. At the wait there is
  a step only if the event is set, which resets it.\<close>

fun worker_step :: "get_pc \<Rightarrow> TWrite \<Rightarrow> (get_pc \<times> byte list option \<times> TWrite) res option" where
  "worker_step Get_start w =
     (if wb_nReadBufMsgs w \<noteq> 0 then Some (bindR (wb_take w) (\<lambda>(d, w). Inr (Get_start, Some d, w)))
      else Some (Inr (Get_check, None, w\<lparr>wb_dataArrived := False\<rparr>)))"
| "worker_step Get_check w = Some (Inr (if wb_nWriteBufMsgs w = 0 then Get_push else Get_swap, None, w))"
| "worker_step Get_push w = Some (Inr (Get_wait, None, wb_swap w))"
| "worker_step Get_wait w =
     (if wb_dataArrived w then Some (Inr (Get_woken, None, w\<lparr>wb_dataArrived := False\<rparr>)) else None)"
| "worker_step Get_woken w = Some (Inr (if wb_nWriteBufMsgs w = 0 then Get_missed else Get_swap, None, w))"
| "worker_step Get_missed w = Some (Inr (Get_swap, None, wb_swap w))"
| "worker_step Get_swap w = Some (Inr (Get_take, None, wb_swap w))"
| "worker_step Get_take w = Some (bindR (wb_take w) (\<lambda>(d, w). Inr (Get_start, Some d, w)))"

text \<open>A run of both threads. The wait of \<open>get\<close> can also end with one of the other events, and then \<open>get\<close> returns no
  message; that is allowed at any time. The run records what was put, what was returned by \<open>get\<close> and the value of \<open>*consumed\<close>.\<close>

record tb_run =
  tr_buf :: TWrite
  tr_pc :: get_pc
  tr_put :: "byte list list"
  tr_got :: "byte list list"
  tr_consumed :: u32

definition tb_start :: tb_run where
  "tb_start = \<lparr>tr_buf = wb_new, tr_pc = Get_start, tr_put = [], tr_got = [], tr_consumed = 0\<rparr>"

inductive tb_step :: "tb_run \<Rightarrow> tb_run \<Rightarrow> bool" where
  put: "wb_put (tr_buf s) d (tr_consumed s) = Inr (c, w) \<Longrightarrow>
    tb_step s (s\<lparr>tr_buf := w, tr_consumed := c, tr_put := tr_put s @ (if d = [] then [] else [d])\<rparr>)"
| put_eof: "wb_put_eof (tr_buf s) = Inr w \<Longrightarrow> tb_step s (s\<lparr>tr_buf := w, tr_put := tr_put s @ [[]]\<rparr>)"
| get: "worker_step (tr_pc s) (tr_buf s) = Some (Inr (pc, m, w)) \<Longrightarrow>
    tb_step s (s\<lparr>tr_buf := w, tr_pc := pc, tr_got := tr_got s @ (case m of None \<Rightarrow> [] | Some d \<Rightarrow> [d])\<rparr>)"
| other_event: "tr_pc s = Get_wait \<Longrightarrow> tb_step s (s\<lparr>tr_pc := Get_start\<rparr>)"

text \<open>\<open>get\<close> without interference, for a worker that finds a message.\<close>

primrec wb_run :: "nat \<Rightarrow> get_pc \<Rightarrow> TWrite \<Rightarrow> (byte list option \<times> TWrite) res" where
  "wb_run 0 pc w = Inr (None, w)"
| "wb_run (Suc n) pc w =
     (case worker_step pc w of None \<Rightarrow> Inr (None, w)
      | Some r \<Rightarrow> bindR r (\<lambda>(pc, m, w). case m of None \<Rightarrow> wb_run n pc w | Some d \<Rightarrow> Inr (Some d, w)))"

definition wb_get :: "TWrite \<Rightarrow> (byte list option \<times> TWrite) res" where
  "wb_get w = wb_run 8 Get_start w"

section \<open>The messages in a buffer\<close>

definition holds :: "Buffer \<Rightarrow> byte list list \<Rightarrow> bool" where
  "holds b ms \<longleftrightarrow> buffer_inv b \<and> bytes b = concat (map enc_string ms)"

lemma holds_init: "holds buffer_init []"
  by (simp add: holds_def buffer_init_inv bytes_init)

lemma holds_put: "holds b ms \<Longrightarrow> buffer_put_string b m = Inr b' \<Longrightarrow> holds b' (ms @ [m])"
  using put_string_Inr by (auto simp: holds_def)

lemma enc_string_eq:
  assumes "enc_string d @ x = enc_string m @ y" "length d < 2 ^ 32" "length m < 2 ^ 32"
  shows "d = m \<and> x = y"
proof -
  have "put_u32 (of_nat (length d)) = put_u32 (of_nat (length m)) \<and> d @ x = m @ y"
    using assms(1) by (simp add: enc_string_def append_eq_append_conv)
  then have "(of_nat (length d) :: u32) = of_nat (length m)" "d @ x = m @ y" by (metis get_put_u32, simp)
  moreover have "unat (of_nat (length d) :: u32) = length d" "unat (of_nat (length m) :: u32) = length m"
    using assms(2,3) by (simp_all add: unat_of_nat take_bit_nat_eq_self)
  ultimately show ?thesis by (metis append_eq_append_conv)
qed

lemma holds_get:
  assumes "holds b ms" "buffer_get_string b = Inr (d, b')" "ms \<noteq> []"
  shows "ms = d # tl ms \<and> holds b' (tl ms)"
proof -
  obtain m r where ms: "ms = m # r" using assms(3) by (cases ms) auto
  have g: "buffer_inv b'" "ok_string d" "enc_string d @ bytes b' = enc_string m @ concat (map enc_string r)"
    using wstring.get_Inr [OF _ assms(2)] assms(1) by (auto simp: holds_def ms)
  have "length m \<le> length (bytes b)" using assms(1) by (simp add: holds_def ms enc_string_def)
  then have "length m < 2 ^ 32" using assms(1) length_bytes [of b] by (auto simp: holds_def buffer_inv_nat)
  then have "d = m \<and> bytes b' = concat (map enc_string r)"
    using enc_string_eq [OF g(3)] g(2) by (simp add: ok_string_def)
  then show ?thesis using g(1) by (simp add: ms holds_def)
qed

lemma holds_get_ok: "holds b (m # ms) \<Longrightarrow> ok_string m \<Longrightarrow> \<exists>b'. buffer_get_string b = Inr (m, b') \<and> holds b' ms"
  using wstring.get_ok [of b m] by (auto simp: holds_def)

section \<open>A queue of messages\<close>

text \<open>A sequence of operations on a queue, \<open>Some m\<close> to put a message and \<open>None\<close> to get one, with what was got.\<close>

primrec queue_run :: "('q \<Rightarrow> byte list \<Rightarrow> 'q res) \<Rightarrow> ('q \<Rightarrow> (byte list option \<times> 'q) res) \<Rightarrow> byte list option list \<Rightarrow> 'q \<Rightarrow>
    (byte list list \<times> 'q) res" where
  "queue_run put get [] q = Inr ([], q)"
| "queue_run put get (c # cs) q = (case c of
     Some m \<Rightarrow> bindR (put q m) (queue_run put get cs)
   | None \<Rightarrow> bindR (get q) (\<lambda>(r, q).
       bindR (queue_run put get cs q) (\<lambda>(ms, q). Inr (case r of None \<Rightarrow> ms | Some m \<Rightarrow> m # ms, q))))"

text \<open>What the two threads rely on: a message that is put goes to the end, one that is got is the first, and nothing
  is got from an empty queue. \<open>is_queue q ms\<close> says that \<open>q\<close> holds the messages \<open>ms\<close>.\<close>

locale msg_queue =
  fixes is_queue :: "'q \<Rightarrow> byte list list \<Rightarrow> bool" and new :: 'q
    and put :: "'q \<Rightarrow> byte list \<Rightarrow> 'q res" and get :: "'q \<Rightarrow> (byte list option \<times> 'q) res"
  assumes new: "is_queue new []"
    and put: "is_queue q ms \<Longrightarrow> put q m = Inr q' \<Longrightarrow> is_queue q' (ms @ [m])"
    and get: "is_queue q (m # ms) \<Longrightarrow> ok_string m \<Longrightarrow> \<exists>q'. get q = Inr (Some m, q') \<and> is_queue q' ms"
    and get_empty: "is_queue q [] \<Longrightarrow> \<exists>q'. get q = Inr (None, q') \<and> is_queue q' []"
begin

lemma run_fifo:
  assumes "is_queue q ms" "list_all ok_string ms" "list_all (case_option True ok_string) cs" "queue_run put get cs q = Inr (got, q')"
  shows "\<exists>rest. ms @ List.map_filter id cs = got @ rest \<and> is_queue q' rest"
  using assms
proof (induction cs arbitrary: q ms got)
  case (Cons c cs)
  show ?case
  proof (cases c)
    case (Some m)
    then obtain r where r: "put q m = Inr r" "queue_run put get cs r = Inr (got, q')" using Cons.prems(4) by (auto simp: bindR_eq_Inr)
    then show ?thesis using Cons.IH [OF put [OF Cons.prems(1) r(1)] _ _ r(2)] Cons.prems(2,3) Some
      by (simp add: List.map_filter_def)
  next
    case None
    obtain x r g where r: "get q = Inr (x, r)" "queue_run put get cs r = Inr (g, q')" "got = (case x of None \<Rightarrow> g | Some m \<Rightarrow> m # g)"
      using Cons.prems(4) None by (auto simp: bindR_eq_Inr)
    show ?thesis
    proof (cases ms)
      case Nil
      then have "x = None" "is_queue r []" using get_empty [of q] Cons.prems(1) r(1) by auto
      then show ?thesis using Cons.IH [of r "[]"] Cons.prems(3) r(2,3) Nil None by (simp add: List.map_filter_def)
    next
      case (Cons m rest)
      then have "x = Some m" "is_queue r rest" using get [of q m rest] Cons.prems(1,2) r(1) by auto
      then show ?thesis using Cons.IH [of r rest] Cons.prems(2,3) r(2,3) Cons None by (auto simp: List.map_filter_def)
    qed
  qed
qed (auto simp: List.map_filter_def)

end

section \<open>Both buffers are queues when the threads do not interfere\<close>

definition rb_queue :: "TRead \<Rightarrow> byte list list \<Rightarrow> bool" where
  "rb_queue r ms \<longleftrightarrow> (\<exists>rd wr. holds (rb_readBuf r) rd \<and> holds (rb_writeBuf r) wr \<and>
     rb_nReadBufMsgs r = int (length rd) \<and> rb_nWriteBufMsgs r = int (length wr) \<and> ms = rd @ wr)"

lemma rb_take_ok:
  assumes "holds (rb_readBuf r) (m # rd)" "holds (rb_writeBuf r) wr" "rb_nReadBufMsgs r = int (length (m # rd))"
    "rb_nWriteBufMsgs r = int (length wr)" "ok_string m"
  shows "\<exists>r'. rb_take r = Inr (m, r') \<and> rb_queue r' (rd @ wr)"
proof -
  obtain b where "buffer_get_string (rb_readBuf r) = Inr (m, b)" "holds b rd" using holds_get_ok assms(1,5) by blast
  then show ?thesis using assms by (auto simp: rb_take_def Let_def rb_queue_def)
qed

lemma rb_queueI:
  "holds (rb_readBuf r) rd \<Longrightarrow> holds (rb_writeBuf r) wr \<Longrightarrow> rb_nReadBufMsgs r = int (length rd) \<Longrightarrow>
     rb_nWriteBufMsgs r = int (length wr) \<Longrightarrow> rb_queue r (rd @ wr)"
  unfolding rb_queue_def by blast

lemma rb_put_queue:
  assumes "rb_queue r ms" "rb_put r m = Inr r'"
  shows "rb_queue r' (ms @ [m])"
proof -
  obtain rd wr b where r: "holds (rb_readBuf r) rd" "holds (rb_writeBuf r) wr" "rb_nReadBufMsgs r = int (length rd)"
    "rb_nWriteBufMsgs r = int (length wr)" "ms = rd @ wr" using assms(1) by (auto simp: rb_queue_def)
  obtain b where b: "buffer_put_string (rb_writeBuf r) m = Inr b"
    "r' = r\<lparr>rb_writeBuf := b, rb_nWriteBufMsgs := rb_nWriteBufMsgs r + 1, rb_dataReady := True\<rparr>"
    using assms(2) by (auto simp: rb_put_def bindR_eq_Inr)
  have "rb_queue r' (rd @ (wr @ [m]))"
    by (rule rb_queueI) (use r holds_put [OF r(2) b(1)] in \<open>simp_all add: b(2)\<close>)
  then show ?thesis by (simp add: r(5))
qed

lemma rb_next_queue:
  assumes "rb_queue r (m # ms)" "ok_string m"
  shows "\<exists>r'. rb_next r = Inr (Some m, r') \<and> rb_queue r' ms"
proof -
  obtain rd wr where r: "holds (rb_readBuf r) rd" "holds (rb_writeBuf r) wr" "rb_nReadBufMsgs r = int (length rd)"
    "rb_nWriteBufMsgs r = int (length wr)" "m # ms = rd @ wr" using assms(1) by (auto simp: rb_queue_def)
  show ?thesis
  proof (cases rd)
    case Nil
    then obtain x where "rb_take (rb_swap r) = Inr (m, x)" "rb_queue x ms"
      using rb_take_ok [of "rb_swap r" m ms "[]"] r assms(2) by (auto simp: rb_swap_def)
    then show ?thesis using Nil r(3,4,5) by (auto simp: rb_next_def)
  next
    case (Cons y rd')
    then obtain x where "rb_take r = Inr (m, x)" "rb_queue x ms"
      using rb_take_ok [of r m rd' wr] r assms(2) by auto
    then show ?thesis using Cons r(3) by (auto simp: rb_next_def)
  qed
qed

interpretation rq: msg_queue rb_queue rb_new rb_put rb_next
proof (unfold_locales, goal_cases)
  case 1
  show ?case by (simp add: rb_queue_def rb_new_def holds_init)
next
  case 2
  then show ?case by (rule rb_put_queue)
next
  case 3
  then show ?case by (rule rb_next_queue)
next
  case (4 q)
  then show ?case by (auto simp: rb_queue_def rb_next_def)
qed

text \<open>The messages in the buffer of the worker and in the one of the connection.\<close>

definition wb_holds :: "TWrite \<Rightarrow> byte list list \<Rightarrow> byte list list \<Rightarrow> bool" where
  "wb_holds w rd wr \<longleftrightarrow> holds (wb_readBuf w) rd \<and> holds (wb_writeBuf w) wr \<and>
     wb_nReadBufMsgs w = int (length rd) \<and> wb_nWriteBufMsgs w = int (length wr)"

lemma wb_holds_new: "wb_holds wb_new [] []"
  by (simp add: wb_holds_def wb_new_def holds_init)

lemma wb_holds_put:
  "wb_holds w rd wr \<Longrightarrow> wb_put w d c = Inr (c', w') \<Longrightarrow> wb_holds w' rd (wr @ (if d = [] then [] else [d]))"
  "wb_holds w rd wr \<Longrightarrow> wb_put_eof w = Inr w' \<Longrightarrow> wb_holds w' rd (wr @ [[]])"
  by (auto simp: wb_holds_def wb_put_def wb_put_eof_def Let_def bindR_eq_Inr dest: holds_put split: if_splits)

lemma wb_holds_swap: "wb_holds w rd wr \<Longrightarrow> wb_holds (wb_swap w) wr rd"
  by (simp add: wb_holds_def wb_swap_def)

lemma wb_take_Inr:
  assumes "wb_take w = Inr (d, w')"
  shows "\<exists>b. buffer_get_string (wb_readBuf w) = Inr (d, b) \<and>
    w' = w\<lparr>wb_readBuf := b, wb_nReadBufMsgs := wb_nReadBufMsgs w - 1, wb_nReadConsumed := wb_nReadConsumed w - int (length d)\<rparr>"
proof (cases "buffer_get_string (wb_readBuf w)")
  case (Inl e)
  then show ?thesis using assms by (simp add: wb_take_def)
next
  case (Inr p)
  then show ?thesis using assms by (cases p) (simp add: wb_take_def)
qed

lemma wb_holds_take:
  assumes "wb_holds w (m # rd) wr" "wb_take w = Inr (d, w')"
  shows "d = m" "wb_holds w' rd wr"
proof -
  obtain b where b: "buffer_get_string (wb_readBuf w) = Inr (d, b)"
    and w': "w' = w\<lparr>wb_readBuf := b, wb_nReadBufMsgs := wb_nReadBufMsgs w - 1, wb_nReadConsumed := wb_nReadConsumed w - int (length d)\<rparr>"
    using wb_take_Inr [OF assms(2)] by blast
  have "holds (wb_readBuf w) (m # rd)" using assms(1) by (simp add: wb_holds_def)
  from holds_get [OF this b] show "d = m" by simp
  from holds_get [OF \<open>holds (wb_readBuf w) (m # rd)\<close> b] have "holds b rd" by simp
  then show "wb_holds w' rd wr" using assms(1) by (simp add: w' wb_holds_def)
qed

lemma wb_holds_take_ok:
  assumes "wb_holds w (m # rd) wr" "ok_string m"
  shows "\<exists>w'. wb_take w = Inr (m, w') \<and> wb_holds w' rd wr"
proof -
  obtain b where "buffer_get_string (wb_readBuf w) = Inr (m, b)" "holds b rd"
    using assms holds_get_ok unfolding wb_holds_def by blast
  then show ?thesis using assms(1) by (simp add: wb_holds_def wb_take_def)
qed

lemma wb_holds_event: "wb_holds (w\<lparr>wb_dataArrived := e\<rparr>) rd wr = wb_holds w rd wr"
  by (simp add: wb_holds_def)

text \<open>Putting a message, and the empty one for the end of the input.\<close>

definition wb_send :: "TWrite \<Rightarrow> byte list \<Rightarrow> TWrite res" where
  "wb_send w m = (if m = [] then wb_put_eof w else bindR (wb_put w m 0) (\<lambda>(_, w). Inr w))"

definition wb_queue :: "TWrite \<Rightarrow> byte list list \<Rightarrow> bool" where
  "wb_queue w ms \<longleftrightarrow> (\<exists>rd wr. wb_holds w rd wr \<and> ms = rd @ wr)"

lemma wb_get_queue:
  assumes "wb_queue w (m # ms)" "ok_string m"
  shows "\<exists>w'. wb_get w = Inr (Some m, w') \<and> wb_queue w' ms"
proof -
  obtain rd wr where r: "wb_holds w rd wr" "m # ms = rd @ wr" using assms(1) by (auto simp: wb_queue_def)
  show ?thesis
  proof (cases rd)
    case Nil
    let ?w = "wb_swap (w\<lparr>wb_dataArrived := False\<rparr>)"
    have n: "wb_nReadBufMsgs w = 0" "wb_nWriteBufMsgs w \<noteq> 0" using r Nil by (auto simp: wb_holds_def)
    have "wb_holds ?w (m # ms) []" using r Nil wb_holds_swap [of "w\<lparr>wb_dataArrived := False\<rparr>" "[]" "m # ms"]
      by (simp add: wb_holds_event)
    then obtain x where x: "wb_take ?w = Inr (m, x)" "wb_holds x ms []" using wb_holds_take_ok assms(2) by blast
    have "wb_get w = Inr (Some m, x)" using n x(1) by (simp add: wb_get_def eval_nat_numeral)
    moreover have "wb_queue x (ms @ [])" using x(2) unfolding wb_queue_def by blast
    ultimately show ?thesis by simp
  next
    case (Cons y rd')
    then obtain x where x: "wb_take w = Inr (m, x)" "wb_holds x rd' wr" using wb_holds_take_ok [of w m rd' wr] r assms(2) by auto
    have "wb_nReadBufMsgs w \<noteq> 0" using r(1) Cons by (simp add: wb_holds_def)
    then have "wb_get w = Inr (Some m, x)" using x(1) by (simp add: wb_get_def eval_nat_numeral)
    moreover have "wb_queue x ms" using x(2) r(2) Cons by (auto simp: wb_queue_def)
    ultimately show ?thesis by blast
  qed
qed

lemma wb_get_empty:
  assumes "wb_queue w []"
  shows "\<exists>w'. wb_get w = Inr (None, w') \<and> wb_queue w' []"
proof -
  have h: "wb_holds w [] []" using assms by (simp add: wb_queue_def)
  then have "wb_get w = Inr (None, wb_swap (w\<lparr>wb_dataArrived := False\<rparr>))"
    by (simp add: wb_get_def wb_holds_def eval_nat_numeral) (simp add: wb_swap_def)
  moreover have "wb_holds (wb_swap (w\<lparr>wb_dataArrived := False\<rparr>)) [] []" using h wb_holds_swap by (simp add: wb_holds_event)
  ultimately show ?thesis by (auto simp: wb_queue_def)
qed

lemma wb_send_queue:
  assumes "wb_queue w ms" "wb_send w m = Inr w'"
  shows "wb_queue w' (ms @ [m])"
proof -
  obtain rd wr where r: "wb_holds w rd wr" "ms = rd @ wr" using assms(1) by (auto simp: wb_queue_def)
  have "wb_holds w' rd (wr @ [m])"
  proof (cases "m = []")
    case True
    then show ?thesis using assms(2) wb_holds_put(2) [OF r(1)] by (simp add: wb_send_def)
  next
    case False
    then obtain c where "wb_put w m 0 = Inr (c, w')" using assms(2) by (auto simp: wb_send_def bindR_eq_Inr)
    from wb_holds_put(1) [OF r(1) this] show ?thesis using False by simp
  qed
  then show ?thesis using r(2) by (auto simp: wb_queue_def)
qed

interpretation wq: msg_queue wb_queue wb_new wb_send wb_get
proof (unfold_locales, goal_cases)
  case 1
  show ?case using wb_holds_new by (simp add: wb_queue_def)
next
  case 2
  then show ?case by (rule wb_send_queue)
next
  case 3
  then show ?case by (rule wb_get_queue)
next
  case 4
  then show ?case by (rule wb_get_empty)
qed

section \<open>Both threads at once\<close>

inductive_cases tb_stepE: "tb_step s t"

definition tb_reach :: "tb_run \<Rightarrow> bool" where
  "tb_reach s \<longleftrightarrow> tb_step\<^sup>*\<^sup>* tb_start s"

text \<open>What holds at each place of \<open>get\<close>, whatever the connection does in between: \<open>e\<close> is the event.\<close>

fun pc_inv :: "get_pc \<Rightarrow> bool \<Rightarrow> byte list list \<Rightarrow> byte list list \<Rightarrow> bool" where
  "pc_inv Get_start e rd wr = True"
| "pc_inv Get_check e rd wr = (rd = [] \<and> (e \<longrightarrow> wr \<noteq> []))"
| "pc_inv Get_push e rd wr = (rd = [] \<and> (e \<longleftrightarrow> wr \<noteq> []))"
| "pc_inv Get_wait e rd wr = (e \<longleftrightarrow> rd \<noteq> [] \<or> wr \<noteq> [])"
| "pc_inv Get_woken e rd wr = (rd \<noteq> [] \<or> wr \<noteq> [])"
| "pc_inv Get_missed e rd wr = (rd \<noteq> [])"
| "pc_inv Get_swap e rd wr = (wr \<noteq> [])"
| "pc_inv Get_take e rd wr = (rd \<noteq> [])"

text \<open>The bytes reported as consumed and those still to be reported, against the messages that were got.\<close>

definition consumed_ok :: "TWrite \<Rightarrow> u32 \<Rightarrow> byte list list \<Rightarrow> bool" where
  "consumed_ok w c got \<longleftrightarrow> c - of_int (wb_nWriteConsumed w) - of_int (wb_nReadConsumed w) = of_nat (sum_list (map length got))"

definition tb_ok :: "tb_run \<Rightarrow> byte list list \<Rightarrow> byte list list \<Rightarrow> bool" where
  "tb_ok s rd wr \<longleftrightarrow> wb_holds (tr_buf s) rd wr \<and> pc_inv (tr_pc s) (wb_dataArrived (tr_buf s)) rd wr \<and>
     mset (tr_put s) = mset (tr_got s) + mset rd + mset wr \<and> consumed_ok (tr_buf s) (tr_consumed s) (tr_got s)"

lemma pc_inv_put: "pc_inv pc e rd wr \<Longrightarrow> pc_inv pc (e \<or> wr = []) rd (wr @ [m])" "pc_inv pc e rd wr \<Longrightarrow> pc_inv pc True rd (wr @ [m])"
  by (cases pc; auto)+

lemma wb_put_Inr:
  assumes "wb_put w d c = Inr (c', w')" "wb_holds w rd wr"
  shows "wb_dataArrived w' = (wb_dataArrived w \<or> d \<noteq> [] \<and> wr = [])" "consumed_ok w c got \<Longrightarrow> consumed_ok w' c' got"
  using assms by (auto simp: wb_put_def Let_def bindR_eq_Inr wb_holds_def consumed_ok_def split: if_splits)

lemma wb_put_eof_Inr:
  assumes "wb_put_eof w = Inr w'"
  shows "wb_dataArrived w'" "consumed_ok w c got \<Longrightarrow> consumed_ok w' c got"
  using assms by (auto simp: wb_put_eof_def bindR_eq_Inr consumed_ok_def)

lemma wb_take_consumed: "wb_take w = Inr (d, w') \<Longrightarrow> consumed_ok w c got \<Longrightarrow> consumed_ok w' c (got @ [d])"
  by (drule wb_take_Inr) (auto simp: consumed_ok_def algebra_simps)

lemma wb_swap_simps [simp]: "wb_dataArrived (wb_swap w) = wb_dataArrived w" "consumed_ok (wb_swap w) c got = consumed_ok w c got"
  by (simp_all add: wb_swap_def consumed_ok_def algebra_simps)

lemma consumed_event [simp]: "consumed_ok (w\<lparr>wb_dataArrived := e\<rparr>) c got = consumed_ok w c got"
  by (simp add: consumed_ok_def)

definition msgs_of :: "byte list option \<Rightarrow> byte list list" where
  "msgs_of m = (case m of None \<Rightarrow> [] | Some d \<Rightarrow> [d])"

text \<open>What a step of the worker leaves behind.\<close>

definition worker_ok :: "TWrite \<Rightarrow> byte list list \<Rightarrow> byte list list \<Rightarrow> get_pc \<times> byte list option \<times> TWrite \<Rightarrow> bool" where
  "worker_ok w rd wr r \<longleftrightarrow> (case r of (pc', m, w') \<Rightarrow> \<exists>rd' wr'. wb_holds w' rd' wr' \<and> pc_inv pc' (wb_dataArrived w') rd' wr' \<and>
     mset rd + mset wr = mset (msgs_of m) + mset rd' + mset wr' \<and>
     (\<forall>c got. consumed_ok w c got \<longrightarrow> consumed_ok w' c (got @ msgs_of m)))"

lemma worker_okI:
  "wb_holds w' rd' wr' \<Longrightarrow> pc_inv pc' (wb_dataArrived w') rd' wr' \<Longrightarrow> mset rd + mset wr = mset (msgs_of m) + mset rd' + mset wr' \<Longrightarrow>
     (\<And>c got. consumed_ok w c got \<Longrightarrow> consumed_ok w' c (got @ msgs_of m)) \<Longrightarrow> worker_ok w rd wr (pc', m, w')"
  unfolding worker_ok_def by auto

lemma take_ok:
  assumes "wb_holds w rd wr" "rd \<noteq> []" "wb_take w = Inr (d, w')"
  shows "worker_ok w rd wr (Get_start, Some d, w')"
proof -
  obtain m rd' where rd: "rd = m # rd'" using assms(2) by (cases rd) auto
  note h = wb_holds_take [OF assms(1) [unfolded rd] assms(3)]
  show ?thesis
    by (rule worker_okI [OF h(2)]) (use h(1) wb_take_consumed [OF assms(3)] in \<open>simp_all add: rd msgs_of_def\<close>)
qed

lemma swap_ok:
  assumes "wb_holds w rd wr" "pc_inv pc' (wb_dataArrived w) wr rd"
  shows "worker_ok w rd wr (pc', None, wb_swap w)"
  by (rule worker_okI [OF wb_holds_swap [OF assms(1)]]) (use assms(2) in \<open>simp_all add: msgs_of_def add.commute\<close>)

lemma stay_ok:
  assumes "wb_holds w rd wr" "pc_inv pc' e rd wr"
  shows "worker_ok w rd wr (pc', None, w\<lparr>wb_dataArrived := e\<rparr>)"
  by (rule worker_okI [of _ rd wr]) (use assms in \<open>simp_all add: msgs_of_def wb_holds_event\<close>)

lemma worker_step_ok:
  assumes "worker_step pc w = Some (Inr r)" "wb_holds w rd wr" "pc_inv pc (wb_dataArrived w) rd wr"
  shows "worker_ok w rd wr r"
proof -
  have n: "wb_nReadBufMsgs w = int (length rd)" "wb_nWriteBufMsgs w = int (length wr)" using assms(2) by (simp_all add: wb_holds_def)
  have same: "worker_ok w rd wr (pc', None, w)" if "pc_inv pc' (wb_dataArrived w) rd wr" for pc'
    using stay_ok [OF assms(2) that] by simp
  show ?thesis
  proof (cases pc)
    case Get_start
    show ?thesis
    proof (cases "rd = []")
      case True
      then show ?thesis using assms(1) n stay_ok [OF assms(2), of Get_check False] by (simp add: Get_start)
    next
      case False
      then obtain d w' where "wb_take w = Inr (d, w')" "r = (Get_start, Some d, w')"
        using assms(1) n by (auto simp: Get_start bindR_eq_Inr)
      then show ?thesis using take_ok [OF assms(2) False] by simp
    qed
  next
    case Get_take
    then obtain d w' where "wb_take w = Inr (d, w')" "r = (Get_start, Some d, w')" using assms(1) by (auto simp: bindR_eq_Inr)
    then show ?thesis using take_ok [OF assms(2)] assms(3) Get_take by simp
  next
    case Get_check
    then show ?thesis using assms(1,3) n same by (auto split: if_splits)
  next
    case Get_woken
    then show ?thesis using assms(1,3) n same by (auto split: if_splits)
  next
    case Get_wait
    then show ?thesis using assms(1,3) stay_ok [OF assms(2), of Get_woken False] by (auto split: if_splits)
  next
    case Get_push
    then show ?thesis using assms(1,3) swap_ok [OF assms(2), of Get_wait] by auto
  next
    case Get_missed
    then show ?thesis using assms(1,3) swap_ok [OF assms(2), of Get_swap] by auto
  next
    case Get_swap
    then show ?thesis using assms(1,3) swap_ok [OF assms(2), of Get_take] by auto
  qed
qed

lemma tb_step_ok:
  assumes "tb_step s t" "tb_ok s rd wr"
  shows "\<exists>rd' wr'. tb_ok t rd' wr'"
  using assms(1)
proof (cases rule: tb_step.cases)
  case (put d c w)
  have h: "wb_holds (tr_buf s) rd wr" using assms(2) by (simp add: tb_ok_def)
  have "tb_ok t rd (wr @ (if d = [] then [] else [d]))"
    using assms(2) wb_holds_put(1) [OF h put(2)] wb_put_Inr [OF put(2) h] pc_inv_put(1) [of "tr_pc s" "wb_dataArrived (tr_buf s)" rd wr d]
    by (auto simp: tb_ok_def put(1))
  then show ?thesis by blast
next
  case (put_eof w)
  have h: "wb_holds (tr_buf s) rd wr" using assms(2) by (simp add: tb_ok_def)
  have "tb_ok t rd (wr @ [[]])"
    using assms(2) wb_holds_put(2) [OF h put_eof(2)] wb_put_eof_Inr [OF put_eof(2)] pc_inv_put(2) [of "tr_pc s" "wb_dataArrived (tr_buf s)" rd wr "[]"]
    by (simp add: tb_ok_def put_eof(1))
  then show ?thesis by blast
next
  case (get pc m w)
  have "worker_ok (tr_buf s) rd wr (pc, m, w)" using worker_step_ok [OF get(2)] assms(2) by (simp add: tb_ok_def)
  then obtain rd' wr' where r: "wb_holds w rd' wr'" "pc_inv pc (wb_dataArrived w) rd' wr'"
    "mset rd + mset wr = mset (msgs_of m) + mset rd' + mset wr'"
    "\<And>c got. consumed_ok (tr_buf s) c got \<Longrightarrow> consumed_ok w c (got @ msgs_of m)" by (auto simp: worker_ok_def)
  have "mset (tr_put s) = mset (tr_got s) + (mset rd + mset wr)" using assms(2) by (simp add: tb_ok_def add.assoc)
  then have "tb_ok t rd' wr'"
    using r assms(2) by (simp add: tb_ok_def get(1) msgs_of_def [symmetric] add.assoc)
  then show ?thesis by blast
next
  case other_event
  then have "tb_ok t rd wr" using assms(2) by (simp add: tb_ok_def)
  then show ?thesis by blast
qed

lemma tb_reach_ok:
  assumes "tb_reach s"
  obtains rd wr where "tb_ok s rd wr"
proof -
  have "\<exists>rd wr. tb_ok s rd wr"
    using assms unfolding tb_reach_def
  proof (induction rule: rtranclp_induct)
    case base
    have "tb_ok tb_start [] []"
      using wb_holds_new by (simp add: tb_ok_def tb_start_def consumed_ok_def) (simp add: wb_new_def)
    then show ?case by blast
  next
    case (step s t)
    then show ?case using tb_step_ok by blast
  qed
  then show thesis using that by blast
qed

text \<open>A run in which the worker sees no message, the connection puts one, the worker swaps and waits, the connection
  puts a second one, and the worker wakes and swaps again.\<close>

lemma put_one: "\<exists>b. buffer_put_string buffer_init [x] = Inr b \<and> holds b [[x]]"
proof -
  obtain b where "buffer_put_string buffer_init [x] = Inr b" using put_string_room [of buffer_init "[x]" 0] room_init by auto
  then show ?thesis using holds_put [OF holds_init] by auto
qed

lemma reorder_run: "\<exists>s. tb_reach s \<and> tr_put s = [[1], [2]] \<and> tr_got s = [[2]]"
proof -
  obtain b1 b2 where b: "buffer_put_string buffer_init [1] = Inr b1" "buffer_put_string buffer_init [2] = Inr b2" "holds b2 [[2]]"
    using put_one by metis
  obtain b3 where b3: "buffer_get_string b2 = Inr ([2], b3)" using holds_get_ok [OF b(3)] by (auto simp: ok_string_def)
  define w1 where "w1 = wb_new\<lparr>wb_writeBuf := b1, wb_nWriteBufMsgs := 1, wb_dataArrived := True\<rparr>"
  define w2 where "w2 = (wb_swap w1)\<lparr>wb_writeBuf := b2, wb_nWriteBufMsgs := 1\<rparr>"
  define w3 where "w3 = wb_swap (w2\<lparr>wb_dataArrived := False\<rparr>)"
  define w4 where "w4 = w3\<lparr>wb_readBuf := b3, wb_nReadBufMsgs := 0, wb_nReadConsumed := - 1\<rparr>"
  let ?s = "\<lambda>w pc put got. \<lparr>tr_buf = w, tr_pc = pc, tr_put = put, tr_got = got, tr_consumed = 0\<rparr>"
  have p1: "wb_put wb_new [1] 0 = Inr (0, w1)" using b(1) by (simp add: wb_put_def wb_new_def w1_def)
  have p2: "wb_put (wb_swap w1) [2] 0 = Inr (0, w2)" using b(2) by (simp add: wb_put_def wb_new_def w1_def w2_def wb_swap_def)
  have e: "wb_new\<lparr>wb_dataArrived := False\<rparr> = wb_new" by (simp add: wb_new_def)
  have tk: "wb_take w3 = Inr ([2], w4)" using b3 by (simp add: wb_take_def w4_def w3_def w2_def wb_swap_def w1_def wb_new_def)
  note steps = r_into_rtranclp [of tb_step]
  have "tb_step tb_start (?s wb_new Get_check [] [])"
    using tb_step.get [of tb_start Get_check None wb_new] e by (simp add: tb_start_def) (simp add: wb_new_def)
  moreover have "tb_step (?s wb_new Get_check [] []) (?s wb_new Get_push [] [])"
    using tb_step.get [of "?s wb_new Get_check [] []" Get_push None wb_new] by (simp add: wb_new_def)
  moreover have "tb_step (?s wb_new Get_push [] []) (?s w1 Get_push [[1]] [])"
    using tb_step.put [of "?s wb_new Get_push [] []" "[1]" 0 w1] p1 by simp
  moreover have "tb_step (?s w1 Get_push [[1]] []) (?s (wb_swap w1) Get_wait [[1]] [])"
    using tb_step.get [of "?s w1 Get_push [[1]] []" Get_wait None "wb_swap w1"] by simp
  moreover have "tb_step (?s (wb_swap w1) Get_wait [[1]] []) (?s w2 Get_wait [[1], [2]] [])"
    using tb_step.put [of "?s (wb_swap w1) Get_wait [[1]] []" "[2]" 0 w2] p2 by simp
  moreover have "tb_step (?s w2 Get_wait [[1], [2]] []) (?s (w2\<lparr>wb_dataArrived := False\<rparr>) Get_woken [[1], [2]] [])"
    using tb_step.get [of "?s w2 Get_wait [[1], [2]] []" Get_woken None "w2\<lparr>wb_dataArrived := False\<rparr>"]
    by (simp add: w2_def w1_def wb_swap_def)
  moreover have "tb_step (?s (w2\<lparr>wb_dataArrived := False\<rparr>) Get_woken [[1], [2]] []) (?s (w2\<lparr>wb_dataArrived := False\<rparr>) Get_swap [[1], [2]] [])"
    using tb_step.get [of "?s (w2\<lparr>wb_dataArrived := False\<rparr>) Get_woken [[1], [2]] []" Get_swap None "w2\<lparr>wb_dataArrived := False\<rparr>"]
    by (simp add: w2_def)
  moreover have "tb_step (?s (w2\<lparr>wb_dataArrived := False\<rparr>) Get_swap [[1], [2]] []) (?s w3 Get_take [[1], [2]] [])"
    using tb_step.get [of "?s (w2\<lparr>wb_dataArrived := False\<rparr>) Get_swap [[1], [2]] []" Get_take None w3] by (simp add: w3_def)
  moreover have "tb_step (?s w3 Get_take [[1], [2]] []) (?s w4 Get_start [[1], [2]] [[2]])"
    using tb_step.get [of "?s w3 Get_take [[1], [2]] []" Get_start "Some [2]" w4] tk by simp
  ultimately have "tb_reach (?s w4 Get_start [[1], [2]] [[2]])"
    unfolding tb_reach_def by (meson converse_rtranclp_into_rtranclp rtranclp.rtrancl_refl)
  then show ?thesis by force
qed

section \<open>Properties\<close>

text \<open>C10: In every interleaving of the connection that puts messages and the worker that gets them, no message is lost
  or doubled: what was put is what was got and what the two buffers hold. The bytes reported to the connection as
  consumed and those still to be reported are the bytes of the messages that were got. The worker waits only when
  there is no message or its event is set, and it takes a message only when its buffer holds one.\<close>

theorem thread_buffer_keeps_messages:
  assumes "tb_reach s"
  shows "\<exists>rd wr. holds (wb_readBuf (tr_buf s)) rd \<and> holds (wb_writeBuf (tr_buf s)) wr \<and>
    mset (tr_put s) = mset (tr_got s) + mset rd + mset wr \<and>
    tr_consumed s - of_int (wb_nWriteConsumed (tr_buf s)) - of_int (wb_nReadConsumed (tr_buf s)) =
      of_nat (sum_list (map length (tr_got s))) \<and>
    (tr_pc s = Get_wait \<longrightarrow> wb_dataArrived (tr_buf s) \<or> rd = [] \<and> wr = []) \<and> (tr_pc s = Get_take \<longrightarrow> rd \<noteq> [])"
proof -
  obtain rd wr where ok: "tb_ok s rd wr" using tb_reach_ok [OF assms] .
  have "(tr_pc s = Get_wait \<longrightarrow> wb_dataArrived (tr_buf s) \<or> rd = [] \<and> wr = []) \<and> (tr_pc s = Get_take \<longrightarrow> rd \<noteq> [])"
    using ok by (cases "tr_pc s") (auto simp: tb_ok_def)
  then show ?thesis using ok by (auto simp: tb_ok_def wb_holds_def consumed_ok_def)
qed

theorem thread_buffer_keeps_messages_witness:
  "\<exists>s rd wr. tb_reach s \<and> tr_got s = [[2]] \<and> holds (wb_readBuf (tr_buf s)) rd \<and> holds (wb_writeBuf (tr_buf s)) wr \<and>
    mset (tr_put s) = mset (tr_got s) + mset rd + mset wr"
  using reorder_run thread_buffer_keeps_messages by blast

text \<open>C24: \<open>BusyThreadWriteBuffer\<close> does not keep the order of messages: there is an interleaving in which the connection
  puts two messages and the first one the worker gets is the second.\<close>

theorem thread_buffer_reorders:
  "\<exists>s. tb_reach s \<and> tr_put s = [[1], [2]] \<and> tr_got s = [[2]]"
  by (rule reorder_run)

text \<open>C23: When the calls do not overlap, both buffers are queues: whatever the order of puts and gets, the messages that
  were got are the first of those that were put, in the order they were put.\<close>

theorem thread_buffers_fifo:
  assumes "list_all (case_option True ok_string) cs"
  shows "(queue_run rb_put rb_next cs rb_new = Inr (got, r) \<longrightarrow> (\<exists>rest. List.map_filter id cs = got @ rest \<and> rb_queue r rest)) \<and>
    (queue_run wb_send wb_get cs wb_new = Inr (got', w) \<longrightarrow> (\<exists>rest. List.map_filter id cs = got' @ rest \<and> wb_queue w rest))"
  using rq.run_fifo [OF rq.new _ assms] wq.run_fifo [OF wq.new _ assms] by simp

theorem thread_buffers_fifo_witness:
  "\<exists>got r. queue_run rb_put rb_next [Some [1], None, None] rb_new = Inr (got, r) \<and>
     (\<exists>rest. List.map_filter id [Some [1], None, None] = got @ rest \<and> rb_queue r rest)"
proof -
  have ok: "list_all (case_option True ok_string) [Some [1], None, None]" by (simp add: ok_string_def)
  obtain b where b: "buffer_put_string buffer_init [1] = Inr b" using put_one by blast
  then obtain q where q: "rb_put rb_new [1] = Inr q" by (simp add: rb_put_def rb_new_def)
  then have "rb_queue q [[1]]" using rq.put [OF rq.new] by fastforce
  then obtain q' where q': "rb_next q = Inr (Some [1], q')" "rb_queue q' []" using rq.get [of q "[1]" "[]"] by (auto simp: ok_string_def)
  obtain r where "rb_next q' = Inr (None, r)" using rq.get_empty [OF q'(2)] by blast
  then have run: "queue_run rb_put rb_next [Some [1], None, None] rb_new = Inr ([[1]], r)" using q q'(1) by simp
  then show ?thesis using thread_buffers_fifo [OF ok, of "[[1]]" r] by blast
qed

end
