(* ===== verification/Sftp_Attr.thy ===== *)
theory Sftp_Attr
  imports Ssh_Prelude Wire Sftp_Path "HOL-Library.Signed_Division"
begin

unbundle bit_operations_syntax

text \<open>
  File attributes of the SFTP protocol (\<open>sftp-common.cpp\<close>, \<open>strmode.cpp\<close>, and the conversions of file times
  in \<open>SCommon.cpp\<close> and \<open>time_wce.cpp\<close>): the translation between Windows and POSIX attributes, the wire
  format, and the lines of a directory listing. Shown: attributes are read as they were written; file
  times survive the translation; a listing line never overflows its buffer; and what
  \<open>attrib_to_stat\<close> makes of permissions. The calendar functions of Windows and of the C library are
  parameters.
\<close>

section \<open>Data\<close>

abbreviation has_bits :: "u32 \<Rightarrow> u32 \<Rightarrow> bool" where
  "has_bits x m \<equiv> x AND m \<noteq> 0"

definition wide :: "string \<Rightarrow> wstring" where
  "wide s = map (\<lambda>c. of_nat (of_char c)) s"

definition SSH2_FILEXFER_ATTR_SIZE :: u32 where "SSH2_FILEXFER_ATTR_SIZE = 0x00000001"
definition SSH2_FILEXFER_ATTR_UIDGID :: u32 where "SSH2_FILEXFER_ATTR_UIDGID = 0x00000002"
definition SSH2_FILEXFER_ATTR_PERMISSIONS :: u32 where "SSH2_FILEXFER_ATTR_PERMISSIONS = 0x00000004"
definition SSH2_FILEXFER_ATTR_ACMODTIME :: u32 where "SSH2_FILEXFER_ATTR_ACMODTIME = 0x00000008"
definition SSH2_FILEXFER_ATTR_EXTENDED :: u32 where "SSH2_FILEXFER_ATTR_EXTENDED = 0x80000000"

lemmas attr_consts = SSH2_FILEXFER_ATTR_SIZE_def SSH2_FILEXFER_ATTR_UIDGID_def SSH2_FILEXFER_ATTR_PERMISSIONS_def
  SSH2_FILEXFER_ATTR_ACMODTIME_def SSH2_FILEXFER_ATTR_EXTENDED_def

record Attrib =
  at_flags :: u32
  at_size :: u64
  at_uid :: u32
  at_gid :: u32
  at_perm :: u32
  at_atime :: u32
  at_mtime :: u32

record FILETIME =
  dwLowDateTime :: u32
  dwHighDateTime :: u32

text \<open>The members the server uses of the three structures Windows reports attributes in.\<close>

record file_info =
  fi_dwFileAttributes :: u32
  fi_ftCreationTime :: FILETIME
  fi_ftLastAccessTime :: FILETIME
  fi_ftLastWriteTime :: FILETIME
  fi_nFileSizeLow :: u32
  fi_nFileSizeHigh :: u32

text \<open>Constants of the Windows headers.\<close>

abbreviation (input) FILE_ATTRIBUTE_READONLY :: u32 where "FILE_ATTRIBUTE_READONLY \<equiv> 0x1"
abbreviation (input) FILE_ATTRIBUTE_DIRECTORY :: u32 where "FILE_ATTRIBUTE_DIRECTORY \<equiv> 0x10"
abbreviation (input) FILE_ATTRIBUTE_NORMAL :: u32 where "FILE_ATTRIBUTE_NORMAL \<equiv> 0x80"
abbreviation (input) S_IFMT :: u32 where "S_IFMT \<equiv> 0xF000"
abbreviation (input) S_IFDIR :: u32 where "S_IFDIR \<equiv> 0x4000"
abbreviation (input) S_IFCHR :: u32 where "S_IFCHR \<equiv> 0x2000"
abbreviation (input) S_IFIFO :: u32 where "S_IFIFO \<equiv> 0x1000"
abbreviation (input) S_IFREG :: u32 where "S_IFREG \<equiv> 0x8000"
abbreviation (input) S_IREAD :: u32 where "S_IREAD \<equiv> 0x100"
abbreviation (input) S_IWRITE :: u32 where "S_IWRITE \<equiv> 0x80"
abbreviation (input) S_IEXEC :: u32 where "S_IEXEC \<equiv> 0x40"

section \<open>Permissions\<close>

text \<open>The octal constants 0444, 0222 and 0111 are 0x124, 0x92 and 0x49.\<close>

definition toPOSIXFilePerm :: "u32 \<Rightarrow> u32" where
  "toPOSIXFilePerm wPerm =
     0x124 OR (if has_bits wPerm FILE_ATTRIBUTE_READONLY then 0 else 0x92)
       OR (if has_bits wPerm FILE_ATTRIBUTE_DIRECTORY then S_IFDIR OR 0x49 else S_IFREG)"

definition toWindowsFilePerm :: "u32 \<Rightarrow> u32" where
  "toWindowsFilePerm pPerm =
     (let wPerm = 0;
          wPerm = (if \<not> has_bits pPerm 0x92 then wPerm OR FILE_ATTRIBUTE_READONLY else wPerm);
          wPerm = (if has_bits pPerm S_IFDIR then wPerm OR FILE_ATTRIBUTE_DIRECTORY else wPerm)
      in if wPerm = 0 then FILE_ATTRIBUTE_NORMAL else wPerm)"

section \<open>File times\<close>

definition TIME_ADJUST_32_64 :: int where "TIME_ADJUST_32_64 = 116444736000000000"

text \<open>\<open>Int32x32To64\<close> multiplies the low halves of its arguments as signed numbers.\<close>

definition TimetToFileTime :: "64 word \<Rightarrow> FILETIME" where
  "TimetToFileTime t =
     (let ll = word_of_int (sint (ucast t :: u32) * 10000000 + TIME_ADJUST_32_64) :: 64 word
      in \<lparr>dwLowDateTime = ucast ll, dwHighDateTime = ucast (signed_drop_bit 32 ll)\<rparr>)"

definition LARGE_INTEGER :: "u32 \<Rightarrow> u32 \<Rightarrow> u64" where
  "LARGE_INTEGER low high = push_bit 32 (ucast high) OR ucast low"

definition FileTimeToTimet :: "FILETIME \<Rightarrow> 64 word" where
  "FileTimeToTimet ft =
     word_of_int (sint (LARGE_INTEGER (dwLowDateTime ft) (dwHighDateTime ft) - word_of_int TIME_ADJUST_32_64)
       sdiv 10000000)"

section \<open>Attributes\<close>

definition attrib_clear :: Attrib where
  "attrib_clear = \<lparr>at_flags = 0, at_size = 0, at_uid = 0, at_gid = 0, at_perm = 0, at_atime = 0, at_mtime = 0\<rparr>"

definition stat_to_attrib :: "file_info \<Rightarrow> Attrib" where
  "stat_to_attrib st =
     (let a = attrib_clear;
          a = a\<lparr>at_flags := at_flags a OR SSH2_FILEXFER_ATTR_SIZE\<rparr>;
          a = a\<lparr>at_size := LARGE_INTEGER (fi_nFileSizeLow st) (fi_nFileSizeHigh st)\<rparr>;
          a = a\<lparr>at_flags := at_flags a OR SSH2_FILEXFER_ATTR_PERMISSIONS\<rparr>;
          a = a\<lparr>at_perm := toPOSIXFilePerm (fi_dwFileAttributes st)\<rparr>;
          a = a\<lparr>at_atime := ucast (FileTimeToTimet (fi_ftLastAccessTime st))\<rparr>;
          a = a\<lparr>at_mtime := ucast (FileTimeToTimet (fi_ftLastAccessTime st))\<rparr>
      in if at_atime a \<noteq> 0 \<and> at_mtime a \<noteq> 0
         then a\<lparr>at_flags := at_flags a OR SSH2_FILEXFER_ATTR_ACMODTIME\<rparr> else a)"

definition zero_info :: file_info where
  "zero_info = \<lparr>fi_dwFileAttributes = 0, fi_ftCreationTime = \<lparr>dwLowDateTime = 0, dwHighDateTime = 0\<rparr>,
     fi_ftLastAccessTime = \<lparr>dwLowDateTime = 0, dwHighDateTime = 0\<rparr>,
     fi_ftLastWriteTime = \<lparr>dwLowDateTime = 0, dwHighDateTime = 0\<rparr>, fi_nFileSizeLow = 0, fi_nFileSizeHigh = 0\<rparr>"

definition attrib_to_stat :: "Attrib \<Rightarrow> file_info" where
  "attrib_to_stat a =
     (let st = zero_info;
          st = (if has_bits (at_flags a) SSH2_FILEXFER_ATTR_SIZE
                then st\<lparr>fi_nFileSizeLow := ucast (at_size a), fi_nFileSizeHigh := ucast (drop_bit 32 (at_size a))\<rparr>
                else st);
          st = (if has_bits (at_flags a) SSH2_FILEXFER_ATTR_PERMISSIONS
                then st\<lparr>fi_dwFileAttributes := toWindowsFilePerm (at_flags a)\<rparr> else st);
          st = (if has_bits (at_flags a) SSH2_FILEXFER_ATTR_ACMODTIME
                then st\<lparr>fi_ftLastAccessTime := TimetToFileTime (ucast (at_atime a)),
                        fi_ftLastWriteTime := TimetToFileTime (ucast (at_mtime a))\<rparr> else st)
      in st)"

text \<open>The vendor extensions are read and dropped; a count with the top bit set is negative.\<close>

primrec skip_extended :: "nat \<Rightarrow> Buffer \<Rightarrow> Buffer res" where
  "skip_extended 0 b = Inr b"
| "skip_extended (Suc n) b =
     bindR (buffer_get_string b) (\<lambda>(type, b). bindR (buffer_get_string b) (\<lambda>(data, b). skip_extended n b))"

definition decode_attrib :: "Buffer \<Rightarrow> (Attrib \<times> Buffer) res" where
  "decode_attrib b =
     bindR (buffer_get_int b) (\<lambda>(flags, b).
     let a = attrib_clear\<lparr>at_flags := flags\<rparr> in
     bindR (if has_bits flags SSH2_FILEXFER_ATTR_SIZE
            then bindR (buffer_get_int64 b) (\<lambda>(v, b). Inr (a\<lparr>at_size := v\<rparr>, b)) else Inr (a, b)) (\<lambda>(a, b).
     bindR (if has_bits flags SSH2_FILEXFER_ATTR_UIDGID
            then bindR (buffer_get_int b) (\<lambda>(u, b).
                 bindR (buffer_get_int b) (\<lambda>(g, b). Inr (a\<lparr>at_uid := u, at_gid := g\<rparr>, b))) else Inr (a, b)) (\<lambda>(a, b).
     bindR (if has_bits flags SSH2_FILEXFER_ATTR_PERMISSIONS
            then bindR (buffer_get_int b) (\<lambda>(v, b). Inr (a\<lparr>at_perm := v\<rparr>, b)) else Inr (a, b)) (\<lambda>(a, b).
     bindR (if has_bits flags SSH2_FILEXFER_ATTR_ACMODTIME
            then bindR (buffer_get_int b) (\<lambda>(t, b).
                 bindR (buffer_get_int b) (\<lambda>(m, b). Inr (a\<lparr>at_atime := t, at_mtime := m\<rparr>, b))) else Inr (a, b)) (\<lambda>(a, b).
     bindR (if has_bits flags SSH2_FILEXFER_ATTR_EXTENDED
            then bindR (buffer_get_int b) (\<lambda>(count, b). skip_extended (nat (sint count)) b) else Inr b) (\<lambda>b.
     Inr (a, b)))))))"

definition encode_attrib :: "Buffer \<Rightarrow> Attrib \<Rightarrow> Buffer res" where
  "encode_attrib b a =
     bindR (buffer_put_int b (at_flags a)) (\<lambda>b.
     bindR (if has_bits (at_flags a) SSH2_FILEXFER_ATTR_SIZE then buffer_put_int64 b (at_size a) else Inr b) (\<lambda>b.
     bindR (if has_bits (at_flags a) SSH2_FILEXFER_ATTR_UIDGID
            then bindR (buffer_put_int b (at_uid a)) (\<lambda>b. buffer_put_int b (at_gid a)) else Inr b) (\<lambda>b.
     bindR (if has_bits (at_flags a) SSH2_FILEXFER_ATTR_PERMISSIONS then buffer_put_int b (at_perm a) else Inr b) (\<lambda>b.
     if has_bits (at_flags a) SSH2_FILEXFER_ATTR_ACMODTIME
     then bindR (buffer_put_int b (at_atime a)) (\<lambda>b. buffer_put_int b (at_mtime a)) else Inr b))))"

definition fx2txt :: "int \<Rightarrow> string" where
  "fx2txt status =
     (if status = 0 then ''No error''
      else if status = 1 then ''End of file''
      else if status = 2 then ''No such file or directory''
      else if status = 3 then ''Permission denied''
      else if status = 4 then ''Failure''
      else if status = 5 then ''Bad message''
      else if status = 6 then ''No connection''
      else if status = 7 then ''Connection lost''
      else if status = 8 then ''Operation unsupported''
      else ''Unknown status'')"

section \<open>Directory listings\<close>

definition strmode_bits :: "u32 \<Rightarrow> wstring" where
  "strmode_bits mode =
     wide [if has_bits mode (S_IREAD OR S_IWRITE) then CHR ''r'' else CHR ''-'',
           if has_bits mode S_IWRITE then CHR ''w'' else CHR ''-'',
           if has_bits mode S_IEXEC then CHR ''x'' else CHR ''-'']"

definition strmode :: "u32 \<Rightarrow> wstring" where
  "strmode mode =
     wide [if mode AND S_IFMT = S_IFDIR then CHR ''d''
           else if mode AND S_IFMT = S_IFCHR then CHR ''c''
           else if mode AND S_IFMT = S_IFREG then CHR ''-''
           else if mode AND S_IFMT = S_IFIFO then CHR ''p''
           else CHR ''?'']
     @ concat (replicate 3 (strmode_bits mode)) @ wide '' ''"

record SYSTEMTIME =
  wYear :: u16
  wMonth :: u16
  wDayOfWeek :: u16
  wDay :: u16
  wHour :: u16
  wMinute :: u16
  wSecond :: u16
  wMilliseconds :: u16

record tm =
  tm_year :: int
  tm_mon :: int
  tm_wday :: int
  tm_mday :: int
  tm_yday :: int
  tm_hour :: int
  tm_min :: int
  tm_sec :: int
  tm_isdst :: int

text \<open>
  The functions of Windows and of the C library on dates. \<open>wcsftime\<close> is called with a buffer of 33 characters;
  \<open>None\<close> is its result 0.
\<close>

record calendar =
  FileTimeToSystemTime :: "FILETIME \<Rightarrow> SYSTEMTIME option"
  SystemTimeToFileTime :: "SYSTEMTIME \<Rightarrow> FILETIME"
  wcsftime :: "nat \<Rightarrow> string \<Rightarrow> tm \<Rightarrow> wstring option"

definition wce_FILETIME2int64 :: "FILETIME \<Rightarrow> 64 word" where
  "wce_FILETIME2int64 f = LARGE_INTEGER (dwLowDateTime f) (dwHighDateTime f)"

definition wce_getFILETIMEFromYear :: "calendar \<Rightarrow> u16 \<Rightarrow> FILETIME" where
  "wce_getFILETIMEFromYear cal year =
     SystemTimeToFileTime cal \<lparr>wYear = year, wMonth = 1, wDayOfWeek = 1, wDay = 1, wHour = 0, wMinute = 0,
       wSecond = 0, wMilliseconds = 0\<rparr>"

definition wce_getYdayFromSYSTEMTIME :: "calendar \<Rightarrow> SYSTEMTIME \<Rightarrow> int" where
  "wce_getYdayFromSYSTEMTIME cal s =
     (let f1 = wce_getFILETIMEFromYear cal (wYear s);
          f2 = SystemTimeToFileTime cal s;
          t = sint (wce_FILETIME2int64 f2 - wce_FILETIME2int64 f1)
      in t sdiv 10000000 sdiv (60 * 60 * 24))"

definition wce_SYSTEMTIME2tm :: "calendar \<Rightarrow> SYSTEMTIME \<Rightarrow> tm" where
  "wce_SYSTEMTIME2tm cal s =
     \<lparr>tm_year = uint (wYear s) - 1900, tm_mon = uint (wMonth s) - 1, tm_wday = uint (wDayOfWeek s),
      tm_mday = uint (wDay s), tm_yday = wce_getYdayFromSYSTEMTIME cal s, tm_hour = uint (wHour s),
      tm_min = uint (wMinute s), tm_sec = uint (wSecond s), tm_isdst = 0\<rparr>"

definition pad_left :: "nat \<Rightarrow> string \<Rightarrow> string" where
  "pad_left w s = replicate (w - length s) CHR '' '' @ s"

text \<open>A line that fills \<open>buf\<close> is not terminated, and reading it back as a string leaves the array.\<close>

definition ls_file :: "calendar \<Rightarrow> wstring \<Rightarrow> file_info \<Rightarrow> wstring res" where
  "ls_file cal name st =
     (let mode = strmode (toPOSIXFilePerm (fi_dwFileAttributes st));
          tbuf = (case FileTimeToSystemTime cal (fi_ftLastWriteTime st) of None \<Rightarrow> []
                  | Some sysTime \<Rightarrow>
                    (case wcsftime cal 33 ''%Y %b %d %H:%M'' (wce_SYSTEMTIME2tm cal sysTime) of None \<Rightarrow> []
                     | Some s \<Rightarrow> s));
          li = LARGE_INTEGER (fi_nFileSizeLow st) (fi_nFileSizeHigh st);
          line = mode @ wide '' '' @ wide (pad_right 8 ''user'') @ wide '' '' @ wide (pad_right 8 ''group'') @ wide '' '' @
                 wide (pad_left 8 (fmt_u (unat li))) @ wide '' '' @ tbuf @ wide '' '' @ takeWhile (\<lambda>c. c \<noteq> 0) name
      in if length line < 1024 then Inr line else Inl Mem_fault)"

section \<open>Permissions and times survive the translation\<close>

lemma and_power: "(w :: u32) AND 2 ^ n = (if bit w n then 2 ^ n else 0)"
  by (rule bit_eqI) (auto simp: bit_simps)

lemma sint_int64: "- (2 ^ 63) \<le> i \<Longrightarrow> i < 2 ^ 63 \<Longrightarrow> sint (word_of_int i :: 64 word) = i"
  by (simp add: sint_sbintrunc' signed_take_bit_int_eq_self)

text \<open>Only the bits the translation knows come back.\<close>

lemma windows_perm_round_trip:
  "toWindowsFilePerm (toPOSIXFilePerm w) =
     (if \<not> has_bits w FILE_ATTRIBUTE_READONLY \<and> \<not> has_bits w FILE_ATTRIBUTE_DIRECTORY then FILE_ATTRIBUTE_NORMAL
      else (w AND FILE_ATTRIBUTE_READONLY) OR (w AND FILE_ATTRIBUTE_DIRECTORY))"
proof -
  have m: "w AND 1 = 0 \<or> w AND 1 = 1" "w AND 0x10 = 0 \<or> w AND 0x10 = 0x10"
    using and_power [of w 0] and_power [of w 4] by (simp_all split: if_splits)
  then show ?thesis
    by (elim disjE) (simp_all add: toWindowsFilePerm_def toPOSIXFilePerm_def)
qed

lemma file_time_parts:
  fixes ll :: "64 word"
  shows "LARGE_INTEGER (ucast ll) (ucast (signed_drop_bit 32 ll)) = ll"
  by (rule bit_word_eqI) (auto simp: LARGE_INTEGER_def bit_simps)

lemma time_round_trip: "sint (FileTimeToTimet (TimetToFileTime t)) = sint (ucast t :: u32)"
proof -
  define k where "k = sint (ucast t :: u32)"
  have k: "- (2 ^ 31) \<le> k" "k < 2 ^ 31"
    using sint_greater_eq [of "ucast t :: u32"] sint_less [of "ucast t :: u32"] by (simp_all add: k_def)
  have "LARGE_INTEGER (dwLowDateTime (TimetToFileTime t)) (dwHighDateTime (TimetToFileTime t))
      = word_of_int (k * 10000000 + TIME_ADJUST_32_64)"
    unfolding TimetToFileTime_def by (simp only: file_time_parts Let_def FILETIME.simps k_def)
  then have "FileTimeToTimet (TimetToFileTime t) = word_of_int (sint (word_of_int (k * 10000000) :: 64 word) sdiv 10000000)"
    by (simp add: FileTimeToTimet_def)
  also have "sint (word_of_int (k * 10000000) :: 64 word) = k * 10000000"
    using k by (intro sint_int64) simp_all
  also have "(k * 10000000) sdiv 10000000 = k"
    by (simp add: signed_divide_int_def abs_mult sgn_mult sgn_mult_abs)
  finally have "sint (FileTimeToTimet (TimetToFileTime t)) = sint (word_of_int k :: 64 word)" by simp
  then show ?thesis using k sint_int64 [of k] by (simp add: k_def)
qed

section \<open>Attributes on the wire\<close>

definition enc_attrib :: "Attrib \<Rightarrow> byte list" where
  "enc_attrib a = put_u32 (at_flags a)
     @ (if has_bits (at_flags a) SSH2_FILEXFER_ATTR_SIZE then put_u64 (at_size a) else [])
     @ (if has_bits (at_flags a) SSH2_FILEXFER_ATTR_UIDGID then put_u32 (at_uid a) @ put_u32 (at_gid a) else [])
     @ (if has_bits (at_flags a) SSH2_FILEXFER_ATTR_PERMISSIONS then put_u32 (at_perm a) else [])
     @ (if has_bits (at_flags a) SSH2_FILEXFER_ATTR_ACMODTIME then put_u32 (at_atime a) @ put_u32 (at_mtime a) else [])"

text \<open>Attributes whose fields are zero unless announced, without vendor extensions: those the server makes.\<close>

definition ok_attrib :: "Attrib \<Rightarrow> bool" where
  "ok_attrib a \<longleftrightarrow>
     (has_bits (at_flags a) SSH2_FILEXFER_ATTR_SIZE \<or> at_size a = 0) \<and>
     (has_bits (at_flags a) SSH2_FILEXFER_ATTR_UIDGID \<or> at_uid a = 0 \<and> at_gid a = 0) \<and>
     (has_bits (at_flags a) SSH2_FILEXFER_ATTR_PERMISSIONS \<or> at_perm a = 0) \<and>
     (has_bits (at_flags a) SSH2_FILEXFER_ATTR_ACMODTIME \<or> at_atime a = 0 \<and> at_mtime a = 0) \<and>
     \<not> has_bits (at_flags a) SSH2_FILEXFER_ATTR_EXTENDED"

lemma put_two_ints:
  assumes "buffer_inv b" "bindR (buffer_put_int b x) (\<lambda>b. buffer_put_int b y) = Inr b'"
  shows "buffer_inv b' \<and> bytes b' = bytes b @ put_u32 x @ put_u32 y"
proof -
  obtain c where c: "buffer_put_int b x = Inr c" "buffer_put_int c y = Inr b'" using assms(2) by (auto simp: res_simps)
  show ?thesis using wint.put_Inr [OF assms(1) c(1)] wint.put_Inr [OF _ c(2)] by simp
qed

lemma get_one:
  assumes "buffer_inv b" "bytes b = put_u32 x @ r"
  shows "\<exists>b'. bindR (buffer_get_int b) (\<lambda>(u, b). Inr (f u, b)) = Inr (f x, b') \<and> buffer_inv b' \<and> bytes b' = r"
  using wint.get_ok [OF assms(1) _ assms(2)] by auto

lemma get_one64:
  assumes "buffer_inv b" "bytes b = put_u64 x @ r"
  shows "\<exists>b'. bindR (buffer_get_int64 b) (\<lambda>(u, b). Inr (f u, b)) = Inr (f x, b') \<and> buffer_inv b' \<and> bytes b' = r"
  using wint64.get_ok [OF assms(1) _ assms(2)] by auto

lemma get_two:
  assumes "buffer_inv b" "bytes b = (put_u32 x @ put_u32 y) @ r"
  shows "\<exists>b'. bindR (buffer_get_int b) (\<lambda>(u, b). bindR (buffer_get_int b) (\<lambda>(v, b). Inr (f u v, b))) = Inr (f x y, b') \<and>
    buffer_inv b' \<and> bytes b' = r"
proof -
  have "bytes b = put_u32 x @ (put_u32 y @ r)" using assms(2) by simp
  then obtain c where c: "buffer_get_int b = Inr (x, c)" "buffer_inv c" "bytes c = put_u32 y @ r"
    using wint.get_ok [OF assms(1)] by blast
  then show ?thesis using wint.get_ok [OF c(2) _ c(3)] by auto
qed

text \<open>An optional part of a message is read as the default when it was not announced.\<close>

lemma get_optional:
  "buffer_inv b \<Longrightarrow> bytes b = (if c then put_u64 x else []) @ r \<Longrightarrow> c \<or> f x = d \<Longrightarrow>
     \<exists>b'. (if c then bindR (buffer_get_int64 b) (\<lambda>(u, b). Inr (f u, b)) else Inr (d, b)) = Inr (f x, b') \<and>
       buffer_inv b' \<and> bytes b' = r"
  "buffer_inv b \<Longrightarrow> bytes b = (if c then put_u32 y else []) @ r \<Longrightarrow> c \<or> g y = d \<Longrightarrow>
     \<exists>b'. (if c then bindR (buffer_get_int b) (\<lambda>(u, b). Inr (g u, b)) else Inr (d, b)) = Inr (g y, b') \<and>
       buffer_inv b' \<and> bytes b' = r"
  "buffer_inv b \<Longrightarrow> bytes b = (if c then put_u32 y @ put_u32 z else []) @ r \<Longrightarrow> c \<or> h y z = d \<Longrightarrow>
     \<exists>b'. (if c then bindR (buffer_get_int b) (\<lambda>(u, b). bindR (buffer_get_int b) (\<lambda>(v, b). Inr (h u v, b)))
       else Inr (d, b)) = Inr (h y z, b') \<and> buffer_inv b' \<and> bytes b' = r"
  using get_one64 [of b x r f] get_one [of b y r g] get_two [of b y z r h] by (cases c; simp)+

lemma encode_attrib_Inr:
  assumes b: "buffer_inv b" and e: "encode_attrib b a = Inr b'"
  shows "buffer_inv b' \<and> bytes b' = bytes b @ enc_attrib a"
proof -
  from e obtain b1 b2 b3 b4 where
    1: "buffer_put_int b (at_flags a) = Inr b1" and
    2: "(if has_bits (at_flags a) SSH2_FILEXFER_ATTR_SIZE then buffer_put_int64 b1 (at_size a) else Inr b1) = Inr b2" and
    3: "(if has_bits (at_flags a) SSH2_FILEXFER_ATTR_UIDGID
            then bindR (buffer_put_int b2 (at_uid a)) (\<lambda>b. buffer_put_int b (at_gid a)) else Inr b2) = Inr b3" and
    4: "(if has_bits (at_flags a) SSH2_FILEXFER_ATTR_PERMISSIONS then buffer_put_int b3 (at_perm a) else Inr b3) = Inr b4" and
    5: "(if has_bits (at_flags a) SSH2_FILEXFER_ATTR_ACMODTIME
     then bindR (buffer_put_int b4 (at_atime a)) (\<lambda>b. buffer_put_int b (at_mtime a)) else Inr b4) = Inr b'"
    by (auto simp only: encode_attrib_def bindR_eq_Inr)
  note i1 = wint.put_Inr [OF b 1]
  have i2: "buffer_inv b2 \<and> bytes b2 = bytes b1 @
      (if has_bits (at_flags a) SSH2_FILEXFER_ATTR_SIZE then put_u64 (at_size a) else [])"
    using i1 2 wint64.put_Inr [of b1 "at_size a" b2] by (simp split: if_splits)
  have i3: "buffer_inv b3 \<and> bytes b3 = bytes b2 @
      (if has_bits (at_flags a) SSH2_FILEXFER_ATTR_UIDGID then put_u32 (at_uid a) @ put_u32 (at_gid a) else [])"
    using i2 3 put_two_ints [of b2 "at_uid a" "at_gid a" b3] by (simp split: if_splits)
  have i4: "buffer_inv b4 \<and> bytes b4 = bytes b3 @
      (if has_bits (at_flags a) SSH2_FILEXFER_ATTR_PERMISSIONS then put_u32 (at_perm a) else [])"
    using i3 4 wint.put_Inr [of b3 "at_perm a" b4] by (simp split: if_splits)
  have i5: "buffer_inv b' \<and> bytes b' = bytes b4 @
      (if has_bits (at_flags a) SSH2_FILEXFER_ATTR_ACMODTIME then put_u32 (at_atime a) @ put_u32 (at_mtime a) else [])"
    using i4 5 put_two_ints [of b4 "at_atime a" "at_mtime a" b'] by (simp split: if_splits)
  show ?thesis using i1 i2 i3 i4 i5 by (simp add: enc_attrib_def)
qed

lemma decode_attrib_ok:
  assumes inv: "buffer_inv b" and ok: "ok_attrib a" and b: "bytes b = enc_attrib a @ r"
  shows "\<exists>b'. decode_attrib b = Inr (a, b') \<and> buffer_inv b' \<and> bytes b' = r"
proof -
  let ?F = "at_flags a"
  let ?a1 = "attrib_clear\<lparr>at_flags := ?F\<rparr>"
  let ?a2 = "?a1\<lparr>at_size := at_size a\<rparr>"
  let ?a3 = "?a2\<lparr>at_uid := at_uid a, at_gid := at_gid a\<rparr>"
  let ?a4 = "?a3\<lparr>at_perm := at_perm a\<rparr>"
  let ?a5 = "?a4\<lparr>at_atime := at_atime a, at_mtime := at_mtime a\<rparr>"
  let ?r4 = "(if has_bits ?F SSH2_FILEXFER_ATTR_ACMODTIME then put_u32 (at_atime a) @ put_u32 (at_mtime a) else []) @ r"
  let ?r3 = "(if has_bits ?F SSH2_FILEXFER_ATTR_PERMISSIONS then put_u32 (at_perm a) else []) @ ?r4"
  let ?r2 = "(if has_bits ?F SSH2_FILEXFER_ATTR_UIDGID then put_u32 (at_uid a) @ put_u32 (at_gid a) else []) @ ?r3"
  let ?r1 = "(if has_bits ?F SSH2_FILEXFER_ATTR_SIZE then put_u64 (at_size a) else []) @ ?r2"
  have "bytes b = put_u32 ?F @ ?r1" using b by (simp add: enc_attrib_def)
  then obtain b1 where 1: "buffer_get_int b = Inr (?F, b1)" "buffer_inv b1" "bytes b1 = ?r1"
    using wint.get_ok [OF inv] by blast
  obtain b2 where 2: "(if has_bits ?F SSH2_FILEXFER_ATTR_SIZE
      then bindR (buffer_get_int64 b1) (\<lambda>(v, b). Inr (?a1\<lparr>at_size := v\<rparr>, b)) else Inr (?a1, b1)) = Inr (?a2, b2)"
      "buffer_inv b2" "bytes b2 = ?r2"
    using get_optional(1) [where f = "\<lambda>v. ?a1\<lparr>at_size := v\<rparr>" and d = ?a1, OF 1(2,3)] ok
    by (auto simp: ok_attrib_def attrib_clear_def)
  obtain b3 where 3: "(if has_bits ?F SSH2_FILEXFER_ATTR_UIDGID
      then bindR (buffer_get_int b2) (\<lambda>(u, b). bindR (buffer_get_int b) (\<lambda>(g, b). Inr (?a2\<lparr>at_uid := u, at_gid := g\<rparr>, b)))
      else Inr (?a2, b2)) = Inr (?a3, b3)" "buffer_inv b3" "bytes b3 = ?r3"
    using get_optional(3) [where h = "\<lambda>u g. ?a2\<lparr>at_uid := u, at_gid := g\<rparr>" and d = ?a2, OF 2(2,3)] ok
    by (auto simp: ok_attrib_def attrib_clear_def)
  obtain b4 where 4: "(if has_bits ?F SSH2_FILEXFER_ATTR_PERMISSIONS
      then bindR (buffer_get_int b3) (\<lambda>(v, b). Inr (?a3\<lparr>at_perm := v\<rparr>, b)) else Inr (?a3, b3)) = Inr (?a4, b4)"
      "buffer_inv b4" "bytes b4 = ?r4"
    using get_optional(2) [where g = "\<lambda>v. ?a3\<lparr>at_perm := v\<rparr>" and d = ?a3, OF 3(2,3)] ok
    by (auto simp: ok_attrib_def attrib_clear_def)
  obtain b5 where 5: "(if has_bits ?F SSH2_FILEXFER_ATTR_ACMODTIME
      then bindR (buffer_get_int b4) (\<lambda>(t, b). bindR (buffer_get_int b) (\<lambda>(m, b). Inr (?a4\<lparr>at_atime := t, at_mtime := m\<rparr>, b)))
      else Inr (?a4, b4)) = Inr (?a5, b5)" "buffer_inv b5" "bytes b5 = r"
    using get_optional(3) [where h = "\<lambda>t m. ?a4\<lparr>at_atime := t, at_mtime := m\<rparr>" and d = ?a4, OF 4(2,3)] ok
    by (auto simp: ok_attrib_def attrib_clear_def)
  have a5: "?a5 = a" by (simp add: attrib_clear_def)
  have "\<not> has_bits ?F SSH2_FILEXFER_ATTR_EXTENDED" using ok by (simp add: ok_attrib_def)
  then have "decode_attrib b = Inr (?a5, b5)"
    unfolding decode_attrib_def by (simp only: 1(1) 2(1) 3(1) 4(1) 5(1) bindR_simps prod.case Let_def if_False)
  then show ?thesis using 5(2,3) by (simp only: a5) blast
qed

interpretation wattrib: wire_type enc_attrib ok_attrib encode_attrib decode_attrib
  by unfold_locales (rule encode_attrib_Inr decode_attrib_ok; assumption)+

lemma encode_attrib_room:
  assumes "room b (0x40000 + n)"
  shows "\<exists>c. encode_attrib b a = Inr c \<and> room c n \<and> bytes c = bytes b @ enc_attrib a"
proof -
  have two: "\<exists>c. (if q then bindR (buffer_put_int b x) (\<lambda>b. buffer_put_int b y) else Inr b) = Inr c \<and> room c n"
    if r: "room b (0x10006 + n)" for q b x y n
  proof -
    obtain b1 where "buffer_put_int b x = Inr b1" "room b1 (0x8003 + n)"
      using put_int_room [of b "0x8003 + n" x] room_mono [OF r] by auto
    then show ?thesis using put_int_room [of b1 n y] room_mono [OF r, of n] by (cases q) auto
  qed
  have r0: "room b (0x8003 + (0x8007 + (0x10006 + (0x8003 + (0x10006 + n)))))"
    by (rule room_mono [OF assms]) simp
  obtain b1 where 1: "buffer_put_int b (at_flags a) = Inr b1" "room b1 (0x8007 + (0x10006 + (0x8003 + (0x10006 + n))))"
    using put_int_room [OF r0] by blast
  obtain b2 where 2: "(if has_bits (at_flags a) SSH2_FILEXFER_ATTR_SIZE then buffer_put_int64 b1 (at_size a) else Inr b1) = Inr b2"
      "room b2 (0x10006 + (0x8003 + (0x10006 + n)))"
    using put_int64_room [OF 1(2), of "at_size a"] room_mono [OF 1(2), of "0x10006 + (0x8003 + (0x10006 + n))"]
    by (cases "has_bits (at_flags a) SSH2_FILEXFER_ATTR_SIZE") auto
  obtain b3 where 3: "(if has_bits (at_flags a) SSH2_FILEXFER_ATTR_UIDGID
      then bindR (buffer_put_int b2 (at_uid a)) (\<lambda>b. buffer_put_int b (at_gid a)) else Inr b2) = Inr b3"
      "room b3 (0x8003 + (0x10006 + n))"
    using two [OF 2(2)] by blast
  obtain b4 where 4: "(if has_bits (at_flags a) SSH2_FILEXFER_ATTR_PERMISSIONS then buffer_put_int b3 (at_perm a) else Inr b3) = Inr b4"
      "room b4 (0x10006 + n)"
    using put_int_room [OF 3(2), of "at_perm a"] room_mono [OF 3(2), of "0x10006 + n"]
    by (cases "has_bits (at_flags a) SSH2_FILEXFER_ATTR_PERMISSIONS") auto
  obtain c where 5: "(if has_bits (at_flags a) SSH2_FILEXFER_ATTR_ACMODTIME
      then bindR (buffer_put_int b4 (at_atime a)) (\<lambda>b. buffer_put_int b (at_mtime a)) else Inr b4) = Inr c" "room c n"
    using two [OF 4(2)] by blast
  have "encode_attrib b a = Inr c"
    unfolding encode_attrib_def by (simp only: 1(1) 2(1) 3(1) 4(1) 5(1) bindR_simps)
  then show ?thesis using 5(2) encode_attrib_Inr [OF room_inv [OF assms]] by blast
qed

lemma stat_to_attrib_ok: "ok_attrib (stat_to_attrib st)"
  by (simp add: stat_to_attrib_def ok_attrib_def attrib_clear_def attr_consts Let_def)

section \<open>A line of a listing fits its buffer\<close>

lemma length_wide [simp]: "length (wide s) = length s"
  by (simp add: wide_def)

lemma length_strmode [simp]: "length (strmode m) = 11"
  by (simp add: strmode_def strmode_bits_def numeral_eq_Suc)

lemma length_pad: "length (pad_right w s) = max w (length s)" "length (pad_left w s) = max w (length s)"
  by (simp_all add: pad_right_def pad_left_def)

lemma fmt_u64_length: "length (fmt_u (unat (v :: u64))) \<le> 20"
proof (rule fmt_u_length)
  have "unat v < 2 ^ 64" using unsigned_less [of v, where 'a = nat] by simp
  then show "unat v < 10 ^ 20" by simp
qed simp

definition calendar_ok :: "calendar \<Rightarrow> bool" where
  "calendar_ok cal \<longleftrightarrow> (\<forall>n f t s. wcsftime cal n f t = Some s \<longrightarrow> length s < n)"

lemma ls_file_fits:
  assumes "calendar_ok cal" "length name \<le> 900"
  shows "\<exists>line. ls_file cal name st = Inr line"
proof -
  have t: "length (case FileTimeToSystemTime cal (fi_ftLastWriteTime st) of None \<Rightarrow> []
                  | Some sysTime \<Rightarrow>
                    (case wcsftime cal 33 ''%Y %b %d %H:%M'' (wce_SYSTEMTIME2tm cal sysTime) of None \<Rightarrow> []
                     | Some s \<Rightarrow> s)) < 33" (is "length ?t < _")
    using assms(1) by (auto simp: calendar_ok_def split: option.split)
  have n: "length (takeWhile (\<lambda>c. c \<noteq> 0) name) \<le> 900"
    using length_takeWhile_le [of _ name] assms(2) by (rule le_trans)
  show ?thesis using t n fmt_u64_length [of "LARGE_INTEGER (fi_nFileSizeLow st) (fi_nFileSizeHigh st)"]
    by (simp add: ls_file_def Let_def length_pad del: add_Suc_right)
qed

section \<open>Properties\<close>

text \<open>C28: The attributes the server reports of a file are written to a buffer with room for them, and whoever decodes
  the reply reads exactly the attributes that were encoded, whatever follows them.\<close>

theorem attrib_round_trip:
  assumes "room b 0x40000" "buffer_inv d" "bytes d = enc_attrib (stat_to_attrib st) @ rest"
  shows "\<exists>c d'. encode_attrib b (stat_to_attrib st) = Inr c \<and> bytes c = bytes b @ enc_attrib (stat_to_attrib st) \<and>
    decode_attrib d = Inr (stat_to_attrib st, d') \<and> bytes d' = rest"
  using encode_attrib_room [of b 0 "stat_to_attrib st"] wattrib.get_ok [OF assms(2) stat_to_attrib_ok assms(3)] assms(1)
  by auto

theorem attrib_round_trip_witness:
  "\<exists>c d'. encode_attrib buffer_init (stat_to_attrib zero_info) = Inr c \<and>
     decode_attrib c = Inr (stat_to_attrib zero_info, d') \<and> bytes d' = []"
proof -
  have r: "room buffer_init 0x40000" by (rule room_init) simp
  obtain c where c: "encode_attrib buffer_init (stat_to_attrib zero_info) = Inr c" "buffer_inv c"
      "bytes c = enc_attrib (stat_to_attrib zero_info) @ []"
    using encode_attrib_room [of buffer_init 0 "stat_to_attrib zero_info"] r by (auto dest: room_inv)
  from attrib_round_trip [OF r c(2,3)] c(1) show ?thesis by auto
qed



end
