(* ===== verification/Sftp_Handles.thy ===== *)
theory Sftp_Handles
  imports Ssh_Prelude Wire Sftp_Path Sftp_Attr
begin

unbundle bit_operations_syntax

text \<open>
  The SFTP server object of \<open>sftp.h\<close> and its table of open files (\<open>sftp-server.cpp\<close>): the functions of
  Windows it calls, the state of the object, and the operations on handles. Shown: the set of unused
  indexes is exactly what the table says, a new handle never takes the place of an open one, an open
  handle keeps naming its file until it is closed, and handles survive the trip to the client and back.
\<close>

section \<open>The functions of Windows the server calls\<close>

type_synonym HANDLE = int

abbreviation INVALID_HANDLE_VALUE :: HANDLE where "INVALID_HANDLE_VALUE \<equiv> -1"

text \<open>
  The state \<open>'w\<close> of the operating system holds the file system and the last error. A path is passed as the
  wide string the call gets. \<open>garbage_id\<close> and \<open>garbage_int\<close> are what uninitialised local variables hold.
\<close>

record FILE_BASIC_INFO =
  bi_CreationTime :: u64
  bi_LastAccessTime :: u64
  bi_LastWriteTime :: u64
  bi_ChangeTime :: u64
  bi_FileAttributes :: u32

record 'w win32 =
  GetLastError :: "'w \<Rightarrow> u32"
  SetLastError :: "u32 \<Rightarrow> 'w \<Rightarrow> 'w"
  CreateFileW :: "wstring \<Rightarrow> u32 \<Rightarrow> u32 \<Rightarrow> u32 \<Rightarrow> u32 \<Rightarrow> 'w \<Rightarrow> HANDLE \<times> 'w"
  CloseHandle :: "HANDLE \<Rightarrow> 'w \<Rightarrow> bool \<times> 'w"
  SetFilePointerEx :: "HANDLE \<Rightarrow> u64 \<Rightarrow> 'w \<Rightarrow> bool \<times> 'w"
  ReadFile :: "HANDLE \<Rightarrow> nat \<Rightarrow> 'w \<Rightarrow> byte list option \<times> 'w"
  WriteFile :: "HANDLE \<Rightarrow> byte list \<Rightarrow> 'w \<Rightarrow> u32 option \<times> 'w"
  SetEndOfFile :: "HANDLE \<Rightarrow> 'w \<Rightarrow> bool \<times> 'w"
  GetFileAttributesExW :: "wstring \<Rightarrow> 'w \<Rightarrow> file_info option \<times> 'w"
  GetFileInformationByHandle :: "HANDLE \<Rightarrow> 'w \<Rightarrow> file_info option \<times> 'w"
  SetFileInformationByHandle :: "HANDLE \<Rightarrow> FILE_BASIC_INFO \<Rightarrow> 'w \<Rightarrow> bool \<times> 'w"
  GetFileAttributes :: "wstring \<Rightarrow> 'w \<Rightarrow> u32 option \<times> 'w"
  SetFileAttributesW :: "wstring \<Rightarrow> u32 \<Rightarrow> 'w \<Rightarrow> bool \<times> 'w"
  FindFirstFile :: "wstring \<Rightarrow> 'w \<Rightarrow> HANDLE \<times> 'w"
  FindNextFileW :: "HANDLE \<Rightarrow> 'w \<Rightarrow> (wstring \<times> file_info) option \<times> 'w"
  FindClose :: "HANDLE \<Rightarrow> 'w \<Rightarrow> bool \<times> 'w"
  DeleteFileW :: "wstring \<Rightarrow> 'w \<Rightarrow> bool \<times> 'w"
  CreateDirectoryW :: "wstring \<Rightarrow> 'w \<Rightarrow> bool \<times> 'w"
  RemoveDirectoryW :: "wstring \<Rightarrow> 'w \<Rightarrow> bool \<times> 'w"
  CreateHardLink :: "wstring \<Rightarrow> wstring \<Rightarrow> 'w \<Rightarrow> bool \<times> 'w"
  MoveFileExW :: "wstring \<Rightarrow> wstring \<Rightarrow> 'w \<Rightarrow> bool \<times> 'w"
  WideCharToMultiByte :: "wstring \<Rightarrow> byte list"
  MultiByteToWideChar :: "byte list \<Rightarrow> wstring"
  wcalendar :: calendar
  GetSystemTime :: "'w \<Rightarrow> SYSTEMTIME"
  garbage_id :: u32
  garbage_int :: int

definition toUTF8 :: "'w win32 \<Rightarrow> wstring \<Rightarrow> byte list" where
  "toUTF8 W wstr = takeWhile (\<lambda>c. c \<noteq> 0) (WideCharToMultiByte W wstr)"

definition fromUTF8 :: "'w win32 \<Rightarrow> byte list \<Rightarrow> wstring" where
  "fromUTF8 W str = MultiByteToWideChar W (takeWhile (\<lambda>c. c \<noteq> 0) str)"

section \<open>The server object\<close>

datatype HandleUseType = HANDLE_UNUSED | HANDLE_DIR | HANDLE_FILE

record Handle =
  h_use :: HandleUseType
  h_dirp :: HANDLE
  h_fileHandle :: HANDLE
  h_searchHandle :: HANDLE
  h_searchDone :: bool
  h_path :: SFTPFilePath
  h_bytes_read :: u64
  h_bytes_write :: u64

definition mk_Handle :: "HandleUseType \<Rightarrow> HANDLE \<Rightarrow> HANDLE \<Rightarrow> SFTPFilePath \<Rightarrow> Handle" where
  "mk_Handle use dirp fh path =
     \<lparr>h_use = use, h_dirp = dirp, h_fileHandle = fh, h_searchHandle = INVALID_HANDLE_VALUE, h_searchDone = False,
      h_path = path, h_bytes_read = 0, h_bytes_write = 0\<rparr>"

text \<open>
  \<open>f_home\<close> is the home directory in \<open>pathFact\<close>. \<open>f_sent\<close> lists the messages given to \<open>toChannel\<close>, \<open>f_world\<close> is
  the operating system, and \<open>f_paths\<close>, which no operation reads, lists the paths that were passed to it.
\<close>

record 'w SFTP =
  f_iqueue :: Buffer
  f_home :: SFTPFilePath
  f_handles :: "Handle list"
  f_unusedHandles :: "int set"
  f_version :: int
  f_sent :: "byte list list"
  f_world :: 'w
  f_paths :: "wstring list"

type_synonym ('w, 'a) sproc = "('w SFTP, 'a) proc"

text \<open>A call of Windows, and one with paths.\<close>

definition winP :: "('w \<Rightarrow> 'a \<times> 'w) \<Rightarrow> ('w, 'a) sproc" where
  "winP f s = (let (r, w) = f (f_world s) in (Inr r, s\<lparr>f_world := w\<rparr>))"

definition pathP :: "wstring list \<Rightarrow> ('w \<Rightarrow> 'a \<times> 'w) \<Rightarrow> ('w, 'a) sproc" where
  "pathP ps f = bindP (modP (\<lambda>s. s\<lparr>f_paths := f_paths s @ ps\<rparr>)) (\<lambda>_. winP f)"

definition last_error :: "'w win32 \<Rightarrow> ('w, u32) sproc" where
  "last_error W = getP (\<lambda>s. GetLastError W (f_world s))"

abbreviation on_iqueue :: "(Buffer \<Rightarrow> ('a \<times> Buffer) res) \<Rightarrow> ('w, 'a) sproc" where
  "on_iqueue \<equiv> updR f_iqueue (\<lambda>b s. s\<lparr>f_iqueue := b\<rparr>)"

section \<open>Handles\<close>

definition handle_unused :: "int \<Rightarrow> ('w, unit) sproc" where
  "handle_unused i = modP (\<lambda>s. s\<lparr>f_handles := (f_handles s)[nat i := (f_handles s ! nat i)\<lparr>h_use := HANDLE_UNUSED\<rparr>],
     f_unusedHandles := insert i (f_unusedHandles s)\<rparr>)"

text \<open>The first element of a \<open>std::set\<close> is its least one. Running out of memory is not modelled.\<close>

definition handle_new :: "HandleUseType \<Rightarrow> SFTPFilePath \<Rightarrow> HANDLE \<Rightarrow> HANDLE \<Rightarrow> ('w, int) sproc" where
  "handle_new use path fh dirp s =
     (if sint (of_nat (length (f_handles s) + 1) :: u32) < 0 then (Inr (-1), s)
      else let newHandle = mk_Handle use dirp fh path in
        if f_unusedHandles s = {} then (Inr (int (length (f_handles s))), s\<lparr>f_handles := f_handles s @ [newHandle]\<rparr>)
        else let i = Min (f_unusedHandles s) in
          (Inr i, s\<lparr>f_unusedHandles := f_unusedHandles s - {i}, f_handles := (f_handles s)[nat i := newHandle]\<rparr>))"

text \<open>A negative index converts to a \<open>size_type\<close> above the size of any vector.\<close>

definition handle_is_ok :: "'w SFTP \<Rightarrow> int \<Rightarrow> HandleUseType \<Rightarrow> bool" where
  "handle_is_ok s i type \<longleftrightarrow> 0 \<le> i \<and> nat i < length (f_handles s) \<and> h_use (f_handles s ! nat i) = type"

definition fmt_d :: "int \<Rightarrow> string" where
  "fmt_d i = (if i < 0 then CHR ''-'' # fmt_u (nat (- i)) else fmt_u (nat i))"

text \<open>The string goes out with its null byte.\<close>

definition handle_to_string :: "int \<Rightarrow> byte list" where
  "handle_to_string handle = bytes_of_string (fmt_d handle) @ [0]"

text \<open>Reading an \<open>int\<close> from a stream: leading white space, a sign, digits; \<open>None\<close> is a failed extraction.\<close>

definition is_space :: "char \<Rightarrow> bool" where
  "is_space c \<longleftrightarrow> c = CHR '' '' \<or> (9 \<le> (of_char c :: nat) \<and> (of_char c :: nat) \<le> 13)"

definition is_digit :: "char \<Rightarrow> bool" where
  "is_digit c \<longleftrightarrow> 48 \<le> (of_char c :: nat) \<and> (of_char c :: nat) \<le> 57"

definition digits_val :: "string \<Rightarrow> nat" where
  "digits_val ds = foldl (\<lambda>n c. 10 * n + (of_char c - 48)) 0 ds"

definition extract_int :: "string \<Rightarrow> int option" where
  "extract_int str =
     (let s = dropWhile is_space str;
          neg = (s \<noteq> [] \<and> hd s = CHR ''-'');
          s = (if s \<noteq> [] \<and> (hd s = CHR ''-'' \<or> hd s = CHR ''+'') then tl s else s);
          ds = takeWhile is_digit s;
          v = (if neg then - int (digits_val ds) else int (digits_val ds))
      in if ds = [] \<or> v < - (2 ^ 31) \<or> 2 ^ 31 \<le> v then None else Some v)"

definition handle_from_string :: "'w win32 \<Rightarrow> byte list \<Rightarrow> ('w, int) sproc" where
  "handle_from_string W handle s =
     (if handle = [] then (Inr (-1), s)
      else let val = (case extract_int (c_string handle) of None \<Rightarrow> garbage_int W | Some v \<Rightarrow> v) in
        if handle_is_ok s val HANDLE_FILE \<or> handle_is_ok s val HANDLE_DIR then (Inr val, s)
        else (Inl (No_such_handle val), s))"

definition handle_to_path :: "int \<Rightarrow> ('w, SFTPFilePath) sproc" where
  "handle_to_path handle s =
     (if handle_is_ok s handle HANDLE_DIR \<or> handle_is_ok s handle HANDLE_FILE
      then (Inr (h_path (f_handles s ! nat handle)), s) else (Inl (No_such_handle handle), s))"

definition handle_to_name :: "bool \<Rightarrow> int \<Rightarrow> ('w, wstring) sproc" where
  "handle_to_name ndebug handle s =
     (if handle_is_ok s handle HANDLE_DIR \<or> handle_is_ok s handle HANDLE_FILE
      then (to_wstring ndebug (h_path (f_handles s ! nat handle)), s) else (Inl (No_such_handle handle), s))"

definition handle_to_dir :: "int \<Rightarrow> ('w, HANDLE) sproc" where
  "handle_to_dir handle s =
     (if handle_is_ok s handle HANDLE_DIR then (Inr (h_dirp (f_handles s ! nat handle)), s)
      else (Inl (No_such_handle handle), s))"

definition handle_to_fh :: "int \<Rightarrow> ('w, HANDLE) sproc" where
  "handle_to_fh handle s =
     (if handle_is_ok s handle HANDLE_FILE then (Inr (h_fileHandle (f_handles s ! nat handle)), s)
      else (Inl (No_such_handle handle), s))"

definition set_handle :: "int \<Rightarrow> (Handle \<Rightarrow> Handle) \<Rightarrow> 'w SFTP \<Rightarrow> 'w SFTP" where
  "set_handle i f s = s\<lparr>f_handles := (f_handles s)[nat i := f (f_handles s ! nat i)]\<rparr>"

definition handle_update_read :: "int \<Rightarrow> int \<Rightarrow> ('w, unit) sproc" where
  "handle_update_read handle n =
     modP (\<lambda>s. if handle_is_ok s handle HANDLE_FILE \<and> n > 0
               then set_handle handle (\<lambda>h. h\<lparr>h_bytes_read := h_bytes_read h + of_int n\<rparr>) s else s)"

definition handle_update_write :: "int \<Rightarrow> int \<Rightarrow> ('w, unit) sproc" where
  "handle_update_write handle n =
     modP (\<lambda>s. if handle_is_ok s handle HANDLE_FILE \<and> n > 0
               then set_handle handle (\<lambda>h. h\<lparr>h_bytes_write := h_bytes_write h + of_int n\<rparr>) s else s)"

definition handle_bytes_read :: "int \<Rightarrow> ('w, u64) sproc" where
  "handle_bytes_read handle s =
     (if handle_is_ok s handle HANDLE_FILE then (Inr (h_bytes_read (f_handles s ! nat handle)), s)
      else (Inl (No_such_handle handle), s))"

definition handle_bytes_write :: "int \<Rightarrow> ('w, u64) sproc" where
  "handle_bytes_write handle s =
     (if handle_is_ok s handle HANDLE_FILE then (Inr (h_bytes_write (f_handles s ! nat handle)), s)
      else (Inl (No_such_handle handle), s))"

text \<open>\<open>ERROR_FILE_NOT_FOUND\<close> is 2.\<close>

definition handle_close :: "'w win32 \<Rightarrow> int \<Rightarrow> ('w, bool) sproc" where
  "handle_close W handle =
     bindP (getP (\<lambda>s. s)) (\<lambda>s.
       if handle_is_ok s handle HANDLE_FILE then
         bindP (winP (CloseHandle W (h_fileHandle (f_handles s ! nat handle)))) (\<lambda>ret.
         bindP (handle_unused handle) (\<lambda>_. retP ret))
       else if handle_is_ok s handle HANDLE_DIR then
         bindP (winP (CloseHandle W (h_dirp (f_handles s ! nat handle)))) (\<lambda>ret.
         bindP (handle_unused handle) (\<lambda>_. retP ret))
       else bindP (modP (\<lambda>s. s\<lparr>f_world := SetLastError W 2 (f_world s)\<rparr>)) (\<lambda>_. retP False))"

text \<open>The log line itself is left out; its arguments are evaluated, and may throw.\<close>

definition handle_log_close :: "bool \<Rightarrow> int \<Rightarrow> ('w, unit) sproc" where
  "handle_log_close ndebug handle =
     bindP (getP (\<lambda>s. s)) (\<lambda>s.
       if handle_is_ok s handle HANDLE_FILE then
         bindP (handle_to_name ndebug handle) (\<lambda>_.
         bindP (handle_bytes_read handle) (\<lambda>_.
         bindP (handle_bytes_write handle) (\<lambda>_. retP ())))
       else bindP (handle_to_name ndebug handle) (\<lambda>_. retP ()))"

definition get_handle :: "'w win32 \<Rightarrow> ('w, int) sproc" where
  "get_handle W =
     bindP (on_iqueue buffer_get_string) (\<lambda>handle.
       if length handle < 256 then handle_from_string W handle else retP (-1))"

section \<open>The table implements a store of handles\<close>

text \<open>What is open: the specification of the table.\<close>

definition live :: "'w SFTP \<Rightarrow> int \<Rightarrow> Handle option" where
  "live s i = (if 0 \<le> i \<and> nat i < length (f_handles s) \<and> h_use (f_handles s ! nat i) \<noteq> HANDLE_UNUSED
               then Some (f_handles s ! nat i) else None)"

definition handles_inv :: "'w SFTP \<Rightarrow> bool" where
  "handles_inv s \<longleftrightarrow> length (f_handles s) < 2 ^ 31 \<and>
     f_unusedHandles s = {i. 0 \<le> i \<and> nat i < length (f_handles s) \<and> h_use (f_handles s ! nat i) = HANDLE_UNUSED}"

datatype 'h handle_op = Open 'h | Close int

primrec run_ops :: "('h \<Rightarrow> 't \<Rightarrow> int \<times> 't) \<Rightarrow> (int \<Rightarrow> 't \<Rightarrow> 't) \<Rightarrow> 'h handle_op list \<Rightarrow> 't \<Rightarrow> 't" where
  "run_ops new close [] t = t"
| "run_ops new close (x # xs) t =
     run_ops new close xs (case x of Open h \<Rightarrow> snd (new h t) | Close i \<Rightarrow> close i t)"

locale handle_store =
  fixes inv :: "'t \<Rightarrow> bool" and find :: "'t \<Rightarrow> int \<Rightarrow> 'h option" and ok :: "'h \<Rightarrow> bool"
    and new :: "'h \<Rightarrow> 't \<Rightarrow> int \<times> 't" and close :: "int \<Rightarrow> 't \<Rightarrow> 't"
  assumes new_inv: "inv t \<Longrightarrow> ok h \<Longrightarrow> inv (snd (new h t))"
    and new_find: "inv t \<Longrightarrow> ok h \<Longrightarrow> new h t = (i, t') \<Longrightarrow>
      i = -1 \<and> find t' = find t \<or> find t i = None \<and> find t' = (find t)(i \<mapsto> h)"
    and close_inv: "inv t \<Longrightarrow> inv (close i t)"
    and close_find: "inv t \<Longrightarrow> find (close i t) = (find t)(i := None)"
begin

lemma new_other: "inv t \<Longrightarrow> ok h \<Longrightarrow> find t i = Some x \<Longrightarrow> find (snd (new h t)) i = Some x"
  using new_find [of t h "fst (new h t)" "snd (new h t)"] by auto

lemma run_live:
  "inv t \<Longrightarrow> find t i = Some x \<Longrightarrow> list_all (\<lambda>p. case p of Open h \<Rightarrow> ok h | Close j \<Rightarrow> j \<noteq> i) xs \<Longrightarrow>
     inv (run_ops new close xs t) \<and> find (run_ops new close xs t) i = Some x"
proof (induction xs arbitrary: t)
  case (Cons p xs)
  show ?case
  proof (cases p)
    case (Open h)
    then show ?thesis using Cons.IH [OF new_inv new_other] Cons.prems by auto
  next
    case (Close j)
    then show ?thesis using Cons.IH [OF close_inv] Cons.prems by (auto simp: close_find)
  qed
qed simp

lemma opened_live:
  assumes "inv t" "ok h" "new h t = (i, t')" "i \<noteq> -1"
    and "list_all (\<lambda>p. case p of Open h \<Rightarrow> ok h | Close j \<Rightarrow> j \<noteq> i) xs"
  shows "find t i = None \<and> find (run_ops new close xs t') i = Some h"
proof -
  have "find t i = None" "find t' i = Some h" using new_find [OF assms(1-3)] assms(4) by auto
  moreover have "inv t'" using new_inv [OF assms(1,2)] assms(3) by simp
  ultimately show ?thesis using run_live assms(5) by blast
qed

end

text \<open>Entries as \<open>handle_new\<close> makes them, and the two operations as the interface has them.\<close>

definition fresh_handle :: "Handle \<Rightarrow> bool" where
  "fresh_handle h \<longleftrightarrow> h_use h \<noteq> HANDLE_UNUSED \<and> h = mk_Handle (h_use h) (h_dirp h) (h_fileHandle h) (h_path h)"

definition open_handle :: "Handle \<Rightarrow> 'w SFTP \<Rightarrow> int \<times> 'w SFTP" where
  "open_handle h s =
     (case handle_new (h_use h) (h_path h) (h_fileHandle h) (h_dirp h) s of (Inr i, t) \<Rightarrow> (i, t) | (Inl _, t) \<Rightarrow> (-1, t))"

definition close_handle :: "'w win32 \<Rightarrow> int \<Rightarrow> 'w SFTP \<Rightarrow> 'w SFTP" where
  "close_handle W i s = snd (handle_close W i s)"

lemma sint_int32: "- (2 ^ 31) \<le> i \<Longrightarrow> i < 2 ^ 31 \<Longrightarrow> sint (word_of_int i :: u32) = i"
  by (simp add: sint_sbintrunc' signed_take_bit_int_eq_self)

lemma size_no_overflow:
  assumes "n < 2 ^ 31"
  shows "sint (of_nat (n + 1) :: u32) < 0 \<longleftrightarrow> n + 1 = 2 ^ 31"
proof (cases "n + 1 = 2 ^ 31")
  case True
  then show ?thesis by (simp only: True) simp
next
  case False
  have "(of_nat (n + 1) :: u32) = word_of_int (int (n + 1))" by simp
  also have "sint (word_of_int (int (n + 1)) :: u32) = int (n + 1)"
    by (rule sint_int32) (use False assms in simp_all)
  finally show ?thesis using False by simp
qed

lemma unused_facts:
  assumes "handles_inv s"
  shows "finite (f_unusedHandles s)" "f_unusedHandles s \<noteq> {} \<Longrightarrow> i = Min (f_unusedHandles s) \<Longrightarrow>
    0 \<le> i \<and> nat i < length (f_handles s) \<and> h_use (f_handles s ! nat i) = HANDLE_UNUSED"
proof -
  let ?U = "f_unusedHandles s"
  have "?U \<subseteq> {0 ..< int (length (f_handles s))}" using assms by (auto simp: handles_inv_def)
  then show f: "finite ?U" by (rule finite_subset) simp
  show "0 \<le> i \<and> nat i < length (f_handles s) \<and> h_use (f_handles s ! nat i) = HANDLE_UNUSED"
    if "?U \<noteq> {}" "i = Min ?U"
    using Min_in [OF f that(1)] assms that(2) by (auto simp: handles_inv_def)
qed

lemma handle_new_run:
  assumes inv: "handles_inv s" and use: "use \<noteq> HANDLE_UNUSED"
  shows "handle_new use path fh dirp s = (Inr (-1), s) \<or>
    (\<exists>i t. handle_new use path fh dirp s = (Inr i, t) \<and> 0 \<le> i \<and> live s i = None \<and> handles_inv t \<and>
       live t = (live s)(i \<mapsto> mk_Handle use dirp fh path) \<and>
       t = s\<lparr>f_handles := f_handles t, f_unusedHandles := f_unusedHandles t\<rparr>)"
proof -
  let ?hs = "f_handles s" and ?U = "f_unusedHandles s" and ?h = "mk_Handle use dirp fh path"
  have hu: "h_use ?h \<noteq> HANDLE_UNUSED" using use by (simp add: mk_Handle_def)
  have len: "length ?hs < 2 ^ 31" using inv by (simp add: handles_inv_def)
  note ov = size_no_overflow [OF len]
  consider "length ?hs + 1 = 2 ^ 31" | "length ?hs + 1 < 2 ^ 31" "?U = {}" | "length ?hs + 1 < 2 ^ 31" "?U \<noteq> {}"
    using len by linarith
  then show ?thesis
  proof cases
    case 1
    then show ?thesis using ov by (simp add: handle_new_def)
  next
    case 2
    let ?t = "s\<lparr>f_handles := ?hs @ [?h]\<rparr>"
    have "handle_new use path fh dirp s = (Inr (int (length ?hs)), ?t)"
      using 2 ov by (simp add: handle_new_def Let_def)
    moreover have "live s (int (length ?hs)) = None" by (simp add: live_def)
    moreover have "handles_inv ?t" using 2 inv hu by (auto simp: handles_inv_def nth_append)
    moreover have "live ?t = (live s)(int (length ?hs) \<mapsto> ?h)"
      using hu by (auto simp: live_def nth_append fun_eq_iff)
    ultimately show ?thesis by (intro disjI2 exI [of _ "int (length ?hs)"] exI [of _ ?t]) simp
  next
    case 3
    let ?i = "Min ?U"
    let ?t = "s\<lparr>f_unusedHandles := ?U - {?i}, f_handles := ?hs[nat ?i := ?h]\<rparr>"
    note i = unused_facts(2) [OF inv 3(2) refl]
    have "handle_new use path fh dirp s = (Inr ?i, ?t)" using 3 ov by (simp add: handle_new_def Let_def)
    moreover have "live s ?i = None" using i by (simp add: live_def)
    moreover have "handles_inv ?t"
      using inv hu i by (auto simp: handles_inv_def nth_list_update split: if_splits)
    moreover have "live ?t = (live s)(?i \<mapsto> ?h)"
      using hu i by (auto simp: live_def nth_list_update fun_eq_iff)
    ultimately show ?thesis using i by (intro disjI2 exI [of _ ?i] exI [of _ ?t]) simp
  qed
qed

lemma handle_is_ok_live:
  "type \<noteq> HANDLE_UNUSED \<Longrightarrow> handle_is_ok s i type \<longleftrightarrow> (\<exists>h. live s i = Some h \<and> h_use h = type)"
  by (auto simp: handle_is_ok_def live_def)

lemma handle_unused_inv:
  assumes inv: "handles_inv s" and h: "live s i = Some h" and t: "handle_unused i s = (Inr u, t)"
  shows "handles_inv t \<and> live t = (live s)(i := None)"
proof -
  let ?hs = "f_handles s"
  have i: "0 \<le> i" "nat i < length ?hs" using h by (auto simp: live_def split: if_splits)
  have "t = s\<lparr>f_handles := ?hs[nat i := (?hs ! nat i)\<lparr>h_use := HANDLE_UNUSED\<rparr>], f_unusedHandles := insert i (f_unusedHandles s)\<rparr>"
    using t by (simp add: handle_unused_def modP_def)
  then have ft: "f_handles t = ?hs[nat i := (?hs ! nat i)\<lparr>h_use := HANDLE_UNUSED\<rparr>]"
    "f_unusedHandles t = insert i (f_unusedHandles s)" by simp_all
  have use: "h_use (f_handles t ! nat j) = (if j = i then HANDLE_UNUSED else h_use (?hs ! nat j))"
    "j \<noteq> i \<Longrightarrow> f_handles t ! nat j = ?hs ! nat j" if "0 \<le> j" for j
    using that i eq_nat_nat_iff [of i j] by (simp_all add: ft nth_list_update)
  have len: "length (f_handles t) = length ?hs" by (simp add: ft)
  have "live t j = ((live s)(i := None)) j" for j
    using use [of j] len by (cases "0 \<le> j"; cases "j = i") (simp_all add: live_def)
  moreover have "f_unusedHandles t = {j. 0 \<le> j \<and> nat j < length (f_handles t) \<and> h_use (f_handles t ! nat j) = HANDLE_UNUSED}"
    using inv i len use(1) by (auto simp: ft(2) handles_inv_def split: if_splits)
  ultimately show ?thesis using inv by (auto simp: handles_inv_def len)
qed

lemma live_world [simp]: "live (s\<lparr>f_world := w\<rparr>) = live s" "handles_inv (s\<lparr>f_world := w\<rparr>) = handles_inv s"
  by (simp_all add: live_def handles_inv_def fun_eq_iff)

lemma close_entry_run:
  assumes "handles_inv s" "live s i = Some h"
  shows "\<exists>r t. bindP (winP f) (\<lambda>ret. bindP (handle_unused i) (\<lambda>_. retP ret)) s = (Inr r, t) \<and>
    handles_inv t \<and> live t = (live s)(i := None) \<and>
    t = s\<lparr>f_handles := f_handles t, f_unusedHandles := f_unusedHandles t, f_world := f_world t\<rparr>"
proof -
  obtain r w where f: "f (f_world s) = (r, w)" by fastforce
  let ?s = "s\<lparr>f_world := w\<rparr>"
  let ?t = "?s\<lparr>f_handles := (f_handles ?s)[nat i := (f_handles ?s ! nat i)\<lparr>h_use := HANDLE_UNUSED\<rparr>],
    f_unusedHandles := insert i (f_unusedHandles ?s)\<rparr>"
  have s: "handles_inv ?s" "live ?s i = Some h" using assms by simp_all
  have u: "handle_unused i ?s = (Inr (), ?t)" by (simp add: handle_unused_def modP_def)
  have "handles_inv ?t \<and> live ?t = (live s)(i := None)" using handle_unused_inv [OF s u] by simp
  then show ?thesis using u f by (intro exI [of _ r] exI [of _ ?t]) (simp add: bindP_def winP_def retP_def)
qed

lemma handle_close_run:
  assumes "handles_inv s"
  shows "\<exists>r t. handle_close W i s = (Inr r, t) \<and> handles_inv t \<and> live t = (live s)(i := None) \<and>
    t = s\<lparr>f_handles := f_handles t, f_unusedHandles := f_unusedHandles t, f_world := f_world t\<rparr>"
proof (cases "live s i")
  case None
  then have "\<not> handle_is_ok s i HANDLE_FILE" "\<not> handle_is_ok s i HANDLE_DIR" by (simp_all add: handle_is_ok_live)
  then have "handle_close W i s = (Inr False, s\<lparr>f_world := SetLastError W 2 (f_world s)\<rparr>)"
    by (simp add: handle_close_def run_simps)
  moreover have "live s = (live s)(i := None)" using None by (simp add: fun_upd_idem)
  ultimately show ?thesis using assms
    by (intro exI [of _ False] exI [of _ "s\<lparr>f_world := SetLastError W 2 (f_world s)\<rparr>"]) simp
next
  case (Some h)
  have "h_use h \<noteq> HANDLE_UNUSED" using Some by (auto simp: live_def split: if_splits)
  then have ok: "handle_is_ok s i HANDLE_FILE \<or> handle_is_ok s i HANDLE_DIR"
    using Some by (cases "h_use h") (simp_all add: handle_is_ok_live)
  show ?thesis
  proof (cases "handle_is_ok s i HANDLE_FILE")
    case True
    then show ?thesis using close_entry_run [OF assms Some, of "CloseHandle W (h_fileHandle (f_handles s ! nat i))"]
      by (simp add: handle_close_def bindP_run [where m = "getP _", OF getP_def])
  next
    case False
    then show ?thesis using close_entry_run [OF assms Some, of "CloseHandle W (h_dirp (f_handles s ! nat i))"] ok
      by (simp add: handle_close_def bindP_run [where m = "getP _", OF getP_def])
  qed
qed

interpretation table: handle_store handles_inv live fresh_handle open_handle "close_handle W" for W
proof
  fix t :: "'a SFTP" and h i t'
  assume t: "handles_inv t"
  show "handles_inv (close_handle W i t)" "live (close_handle W i t) = (live t)(i := None)"
    using handle_close_run [OF t, of W i] by (auto simp: close_handle_def)
  assume h: "fresh_handle h"
  note n = handle_new_run [OF t, of "h_use h" "h_path h" "h_fileHandle h" "h_dirp h"]
  show "handles_inv (snd (open_handle h t))"
    using n t h by (auto simp: open_handle_def fresh_handle_def)
  show "i = -1 \<and> live t' = live t \<or> live t i = None \<and> live t' = (live t)(i \<mapsto> h)" if "open_handle h t = (i, t')"
    using n t h that by (auto simp: open_handle_def fresh_handle_def)
qed

section \<open>Handles as strings\<close>

lemma digit_char: "k < 10 \<Longrightarrow> is_digit (char_of (48 + k)) \<and> of_char (char_of (48 + k :: nat)) - 48 = k"
  by (simp add: is_digit_def)

lemma digits_val_snoc: "digits_val (ds @ [c]) = 10 * digits_val ds + (of_char c - 48)"
  by (simp add: digits_val_def)

lemma fmt_u_digits: "list_all is_digit (fmt_u n) \<and> digits_val (fmt_u n) = n \<and> fmt_u n \<noteq> []"
proof (induction n rule: fmt_u.induct)
  case (1 n)
  show ?case
  proof (cases "n < 10")
    case True
    then show ?thesis using digit_char [of n] by (simp add: fmt_u.simps digits_val_def)
  next
    case False
    have d: "n mod 10 < 10" "10 * (n div 10) + n mod 10 = n" by simp_all
    show ?thesis using 1 False digit_char [OF d(1)] d(2) by (simp add: fmt_u.simps [of n] digits_val_snoc)
  qed
qed

lemma extract_int_fmt_u:
  assumes "int n < 2 ^ 31"
  shows "extract_int (fmt_u n) = Some (int n)"
proof -
  obtain c ds where f: "fmt_u n = c # ds" using fmt_u_digits [of n] by (cases "fmt_u n") auto
  have c: "is_digit c" "list_all is_digit (fmt_u n)" using fmt_u_digits [of n] f by simp_all
  then have "\<not> is_space c" "c \<noteq> CHR ''-''" "c \<noteq> CHR ''+''" by (auto simp: is_digit_def is_space_def)
  moreover have "takeWhile is_digit (fmt_u n) = fmt_u n" using c(2) by (simp add: list_all_iff takeWhile_eq_all_conv)
  moreover have "digits_val (fmt_u n) = n" using fmt_u_digits by blast
  ultimately show ?thesis using assms f by (simp add: extract_int_def Let_def)
qed

lemma handle_string_back: "handle_from_string W (handle_to_string i) s =
    (if handle_is_ok s i HANDLE_FILE \<or> handle_is_ok s i HANDLE_DIR then (Inr i, s) else (Inl (No_such_handle i), s))"
  if "0 \<le> i" "i < 2 ^ 31"
proof -
  have f: "fmt_d i = fmt_u (nat i)" using that by (simp add: fmt_d_def)
  have "c_string (bytes_of_string (fmt_u (nat i)) @ [0]) = fmt_u (nat i)"
    using c_string_bytes_of_string [OF no_null_fmt_u, of "nat i"]
    by (simp add: c_string_def takeWhile_tail)
  moreover have "extract_int (fmt_u (nat i)) = Some i" using extract_int_fmt_u [of "nat i"] that by simp
  ultimately show ?thesis by (simp add: handle_from_string_def handle_to_string_def f Let_def)
qed

section \<open>Properties\<close>

text \<open>C18: A handle the server hands out is not the handle of another open file, and it keeps naming the file it was
  opened for, whatever other files are opened and whatever other handles are closed, until it is closed
  itself.\<close>

theorem handle_stays_valid:
  assumes "handles_inv s" "use \<noteq> HANDLE_UNUSED" "handle_new use path fh dirp s = (Inr i, t)" "i \<noteq> -1"
    and "list_all (\<lambda>p. case p of Open h \<Rightarrow> fresh_handle h | Close j \<Rightarrow> j \<noteq> i) ops"
  shows "live s i = None \<and>
    live (run_ops open_handle (close_handle W) ops t) i = Some (mk_Handle use dirp fh path)"
proof -
  have "fresh_handle (mk_Handle use dirp fh path)" using assms(2) by (simp add: fresh_handle_def mk_Handle_def)
  moreover have "open_handle (mk_Handle use dirp fh path) s = (i, t)" using assms(3) by (simp add: open_handle_def mk_Handle_def)
  ultimately show ?thesis using table.opened_live assms(1,4,5) by blast
qed

definition example_home :: SFTPFilePath where
  "example_home = \<lparr>p_path = [[0x68]], p_drive = 0x63, p_isRelative = False, nUserHomePos = 1\<rparr>"

definition example_sftp :: "unit SFTP" where
  "example_sftp = \<lparr>f_iqueue = buffer_init, f_home = example_home, f_handles = [], f_unusedHandles = {}, f_version = 3,
     f_sent = [], f_world = (), f_paths = []\<rparr>"

text \<open>A system without files: every operation fails but creating a file.\<close>

definition example_calendar :: calendar where
  "example_calendar = \<lparr>FileTimeToSystemTime = \<lambda>_. None, SystemTimeToFileTime = \<lambda>_. \<lparr>dwLowDateTime = 0, dwHighDateTime = 0\<rparr>,
     wcsftime = \<lambda>_ _ _. None\<rparr>"

definition example_win32 :: "unit win32" where
  "example_win32 = \<lparr>GetLastError = \<lambda>_. 2, SetLastError = \<lambda>_ w. w, CreateFileW = \<lambda>_ _ _ _ _ w. (7, w),
     CloseHandle = \<lambda>_ w. (True, w), SetFilePointerEx = \<lambda>_ _ w. (False, w), ReadFile = \<lambda>_ _ w. (None, w),
     WriteFile = \<lambda>_ _ w. (None, w), SetEndOfFile = \<lambda>_ w. (False, w), GetFileAttributesExW = \<lambda>_ w. (None, w),
     GetFileInformationByHandle = \<lambda>_ w. (None, w), SetFileInformationByHandle = \<lambda>_ _ w. (False, w),
     GetFileAttributes = \<lambda>_ w. (None, w), SetFileAttributesW = \<lambda>_ _ w. (False, w), FindFirstFile = \<lambda>_ w. (-1, w),
     FindNextFileW = \<lambda>_ w. (None, w), FindClose = \<lambda>_ w. (False, w), DeleteFileW = \<lambda>_ w. (False, w),
     CreateDirectoryW = \<lambda>_ w. (False, w), RemoveDirectoryW = \<lambda>_ w. (False, w), CreateHardLink = \<lambda>_ _ w. (False, w),
     MoveFileExW = \<lambda>_ _ w. (False, w), WideCharToMultiByte = map ucast, MultiByteToWideChar = map ucast,
     wcalendar = example_calendar,
     GetSystemTime = \<lambda>_. \<lparr>wYear = 0, wMonth = 0, wDayOfWeek = 0, wDay = 0, wHour = 0, wMinute = 0, wSecond = 0, wMilliseconds = 0\<rparr>,
     garbage_id = 0, garbage_int = 0\<rparr>"

theorem handle_stays_valid_witness:
  "\<exists>t. handle_new HANDLE_FILE example_home 7 0 example_sftp = (Inr 0, t) \<and>
     live (run_ops open_handle (close_handle example_win32) [Open (mk_Handle HANDLE_DIR 8 0 example_home), Close 1] t) 0 =
       Some (mk_Handle HANDLE_FILE 0 7 example_home)"
proof -
  have inv: "handles_inv example_sftp" by (simp add: handles_inv_def example_sftp_def)
  obtain t where t: "handle_new HANDLE_FILE example_home 7 0 example_sftp = (Inr 0, t)"
    by (simp add: handle_new_def example_sftp_def Let_def)
  show ?thesis
    using t handle_stays_valid [OF inv _ t, of "[Open (mk_Handle HANDLE_DIR 8 0 example_home), Close 1]" example_win32]
    by (auto simp: fresh_handle_def mk_Handle_def)
qed

text \<open>The string the server sends for a handle, sent back, is understood as that handle if it is still open, and
  ends the session with \<open>NoSuchHandle\<close> otherwise.\<close>

theorem handle_string_round_trip:
  assumes "handles_inv s" "handle_new use path fh dirp s = (Inr i, t)" "i \<noteq> -1" "use \<noteq> HANDLE_UNUSED"
  shows "handle_from_string W (handle_to_string i) u =
    (if live u i = None then (Inl (No_such_handle i), u) else (Inr i, u))"
proof -
  have t: "0 \<le> i" "handles_inv t" "live t i = Some (mk_Handle use dirp fh path)"
    using handle_new_run [OF assms(1,4), of path fh dirp] assms(2,3) by auto
  then have "nat i < length (f_handles t)" by (simp add: live_def split: if_splits)
  then have i: "i < 2 ^ 31" using t(2) by (auto simp: handles_inv_def)
  have "handle_is_ok u i HANDLE_FILE \<or> handle_is_ok u i HANDLE_DIR \<longleftrightarrow> live u i \<noteq> None"
    by (auto simp: handle_is_ok_def live_def intro: HandleUseType.exhaust split: if_splits)
  then show ?thesis using handle_string_back [OF t(1) i, of W u] by simp
qed

theorem handle_string_round_trip_witness:
  "handle_to_string 0 = [48, 0] \<and> handle_from_string example_win32 [48, 0] example_sftp = (Inl (No_such_handle 0), example_sftp)"
proof -
  have inv: "handles_inv example_sftp" by (simp add: handles_inv_def example_sftp_def)
  obtain t where t: "handle_new HANDLE_FILE example_home 7 0 example_sftp = (Inr 0, t)"
    by (simp add: handle_new_def example_sftp_def Let_def)
  have s: "handle_to_string 0 = [48, 0]"
    by (simp add: handle_to_string_def fmt_d_def fmt_u.simps bytes_of_string_def byte_of_char_def)
  show ?thesis using handle_string_round_trip [OF inv t, of example_win32 example_sftp] s
    by (simp add: live_def example_sftp_def)
qed

end
