(* ===== verification/Sftp_Server.thy ===== *)
theory Sftp_Server
  imports Ssh_Prelude Wire Sftp_Path Sftp_Attr Sftp_Handles
begin

unbundle bit_operations_syntax

text \<open>
  The request handlers of the SFTP server (\<open>sftp-server.cpp\<close>): reading a request from \<open>iqueue\<close>, the calls of
  Windows that carry it out, the replies, the dispatcher \<open>process\<close> and the loop \<open>run\<close> of the server's thread.
  Log lines are left out, but the arguments of theirs that may throw are evaluated. The release build
  defines \<open>NDEBUG\<close>, the debug build \<open>_DEBUG\<close>: the flag \<open>ndebug\<close> distinguishes them.
\<close>

section \<open>Constants\<close>

definition SSH2_FXP_STATUS :: byte where "SSH2_FXP_STATUS = 101"
definition SSH2_FXP_HANDLE :: byte where "SSH2_FXP_HANDLE = 102"
definition SSH2_FXP_DATA :: byte where "SSH2_FXP_DATA = 103"
definition SSH2_FXP_NAME :: byte where "SSH2_FXP_NAME = 104"
definition SSH2_FXP_ATTRS :: byte where "SSH2_FXP_ATTRS = 105"
definition SSH2_FXP_VERSION :: byte where "SSH2_FXP_VERSION = 2"
definition SSH2_FILEXFER_VERSION :: u32 where "SSH2_FILEXFER_VERSION = 3"

definition SSH2_FX_OK :: int where "SSH2_FX_OK = 0"
definition SSH2_FX_EOF :: int where "SSH2_FX_EOF = 1"
definition SSH2_FX_NO_SUCH_FILE :: int where "SSH2_FX_NO_SUCH_FILE = 2"
definition SSH2_FX_PERMISSION_DENIED :: int where "SSH2_FX_PERMISSION_DENIED = 3"
definition SSH2_FX_FAILURE :: int where "SSH2_FX_FAILURE = 4"
definition SSH2_FX_BAD_MESSAGE :: int where "SSH2_FX_BAD_MESSAGE = 5"
definition SSH2_FX_OP_UNSUPPORTED :: int where "SSH2_FX_OP_UNSUPPORTED = 8"
definition SSH2_FX_MAX :: int where "SSH2_FX_MAX = 8"

definition SSH2_FXF_READ :: u32 where "SSH2_FXF_READ = 0x1"
definition SSH2_FXF_WRITE :: u32 where "SSH2_FXF_WRITE = 0x2"
definition SSH2_FXF_CREAT :: u32 where "SSH2_FXF_CREAT = 0x8"
definition SSH2_FXF_TRUNC :: u32 where "SSH2_FXF_TRUNC = 0x10"
definition SSH2_FXF_EXCL :: u32 where "SSH2_FXF_EXCL = 0x20"

lemmas fx_consts = SSH2_FX_OK_def SSH2_FX_EOF_def SSH2_FX_NO_SUCH_FILE_def SSH2_FX_PERMISSION_DENIED_def
  SSH2_FX_FAILURE_def SSH2_FX_BAD_MESSAGE_def SSH2_FX_OP_UNSUPPORTED_def SSH2_FX_MAX_def

text \<open>Constants of the Windows headers.\<close>

abbreviation (input) GENERIC_READ :: u32 where "GENERIC_READ \<equiv> 0x80000000"
abbreviation (input) GENERIC_WRITE :: u32 where "GENERIC_WRITE \<equiv> 0x40000000"
abbreviation (input) FILE_SHARE_READ :: u32 where "FILE_SHARE_READ \<equiv> 1"
abbreviation (input) CREATE_NEW :: u32 where "CREATE_NEW \<equiv> 1"
abbreviation (input) CREATE_ALWAYS :: u32 where "CREATE_ALWAYS \<equiv> 2"
abbreviation (input) OPEN_EXISTING :: u32 where "OPEN_EXISTING \<equiv> 3"
abbreviation (input) OPEN_ALWAYS :: u32 where "OPEN_ALWAYS \<equiv> 4"
abbreviation (input) FILE_FLAG_BACKUP_SEMANTICS :: u32 where "FILE_FLAG_BACKUP_SEMANTICS \<equiv> 0x02000000"
abbreviation (input) ERROR_PATH_NOT_FOUND :: u32 where "ERROR_PATH_NOT_FOUND \<equiv> 3"

section \<open>Translations\<close>

text \<open>The cases are \<open>ERROR_FILE_NOT_FOUND\<close>, \<open>ERROR_PATH_NOT_FOUND\<close>, \<open>ERROR_INVALID_HANDLE\<close>, \<open>ERROR_INVALID_DRIVE\<close>;
  \<open>ERROR_ACCESS_DENIED\<close>, \<open>ERROR_INVALID_ACCESS\<close>, \<open>ERROR_WRITE_PROTECT\<close>; \<open>ERROR_BAD_LENGTH\<close>.\<close>

definition errno_to_portable :: "u32 \<Rightarrow> int" where
  "errno_to_portable err =
     (if err = 0 then SSH2_FX_OK
      else if err = 2 \<or> err = 3 \<or> err = 6 \<or> err = 15 then SSH2_FX_NO_SUCH_FILE
      else if err = 5 \<or> err = 12 \<or> err = 19 then SSH2_FX_PERMISSION_DENIED
      else if err = 24 then SSH2_FX_BAD_MESSAGE
      else SSH2_FX_FAILURE)"

definition flags_from_portable :: "u32 \<Rightarrow> u32" where
  "flags_from_portable pflags =
     (let flags = 0;
          flags = (if has_bits pflags SSH2_FXF_READ then flags OR GENERIC_READ else flags)
      in if has_bits pflags SSH2_FXF_WRITE then flags OR GENERIC_WRITE else flags)"

definition status_to_message :: "u32 \<Rightarrow> string" where
  "status_to_message status =
     [''Success'', ''End of file'', ''No such file'', ''Permission denied'', ''Failure'', ''Bad message'',
      ''No connection'', ''Connection lost'', ''Operation unsupported'', ''Unknown error''] !
     unat (min status (of_int SSH2_FX_MAX))"

section \<open>Replies\<close>

definition send_msg :: "Buffer \<Rightarrow> ('w, unit) sproc" where
  "send_msg m = modP (\<lambda>s. s\<lparr>f_sent := f_sent s @ [bytes m]\<rparr>)"

definition status_msg :: "int \<Rightarrow> u32 \<Rightarrow> int \<Rightarrow> Buffer res" where
  "status_msg version rid status =
     bindR (buffer_put_char buffer_init SSH2_FXP_STATUS) (\<lambda>msg.
     bindR (buffer_put_int msg rid) (\<lambda>msg.
     bindR (buffer_put_int msg (of_int status)) (\<lambda>msg.
       if version \<ge> 3 then
         bindR (buffer_put_cstring msg (Some (bytes_of_string (status_to_message (of_int status))))) (\<lambda>msg.
         buffer_put_cstring msg (Some []))
       else Inr msg)))"

definition send_status :: "u32 \<Rightarrow> int \<Rightarrow> ('w, unit) sproc" where
  "send_status rid status =
     bindP (getP f_version) (\<lambda>version. bindP (liftR (status_msg version rid status)) send_msg)"

definition send_data_or_handle :: "byte \<Rightarrow> u32 \<Rightarrow> byte list \<Rightarrow> ('w, unit) sproc" where
  "send_data_or_handle type rid data =
     bindP (liftR (bindR (buffer_put_char buffer_init type) (\<lambda>msg.
                   bindR (buffer_put_int msg rid) (\<lambda>msg. buffer_put_string msg data)))) send_msg"

definition send_data :: "u32 \<Rightarrow> byte list \<Rightarrow> ('w, unit) sproc" where
  "send_data rid data = send_data_or_handle SSH2_FXP_DATA rid data"

definition send_handle :: "u32 \<Rightarrow> int \<Rightarrow> ('w, unit) sproc" where
  "send_handle rid handle = send_data_or_handle SSH2_FXP_HANDLE rid (handle_to_string handle)"

record Stat =
  st_name :: "byte list"
  st_long_name :: "byte list"
  st_attrib :: Attrib

primrec put_names :: "Stat list \<Rightarrow> Buffer \<Rightarrow> Buffer res" where
  "put_names [] msg = Inr msg"
| "put_names (st # stats) msg =
     bindR (buffer_put_cstring msg (Some (st_name st))) (\<lambda>msg.
     bindR (buffer_put_cstring msg (Some (st_long_name st))) (\<lambda>msg.
     bindR (encode_attrib msg (st_attrib st)) (\<lambda>msg. put_names stats msg)))"

definition send_names :: "u32 \<Rightarrow> Stat list \<Rightarrow> ('w, unit) sproc" where
  "send_names rid stats =
     bindP (liftR (bindR (buffer_put_char buffer_init SSH2_FXP_NAME) (\<lambda>msg.
                   bindR (buffer_put_int msg rid) (\<lambda>msg.
                   bindR (buffer_put_int msg (of_nat (length stats))) (\<lambda>msg. put_names stats msg))))) send_msg"

definition send_attrib :: "u32 \<Rightarrow> Attrib \<Rightarrow> ('w, unit) sproc" where
  "send_attrib rid a =
     bindP (liftR (bindR (buffer_put_char buffer_init SSH2_FXP_ATTRS) (\<lambda>msg.
                   bindR (buffer_put_int msg rid) (\<lambda>msg. encode_attrib msg a)))) send_msg"

section \<open>What the handlers share\<close>

text \<open>
  \<open>catch (...)\<close> stops C++ exceptions; \<open>fatal\<close> and the disconnecting functions throw \<open>XShuttingDown\<close>. A failed
  assertion, a memory fault and a division by zero are not exceptions. With \<open>rethrow\<close> (the debug build
  of \<open>process_open\<close>) \<open>XShuttingDown\<close> passes.
\<close>

definition cxx_exception :: "exn \<Rightarrow> bool" where
  "cxx_exception e = (case e of Mem_fault \<Rightarrow> False | Diverge \<Rightarrow> False | Assertion_failed \<Rightarrow> False | Div_by_zero \<Rightarrow> False
     | Blocked \<Rightarrow> False | _ \<Rightarrow> True)"

definition is_shutdown :: "exn \<Rightarrow> bool" where
  "is_shutdown e = (case e of Fatal _ \<Rightarrow> True | Disconnect _ \<Rightarrow> True | Shutting_down \<Rightarrow> True | Cleanup_exit _ \<Rightarrow> True | _ \<Rightarrow> False)"

definition tryP :: "bool \<Rightarrow> ('w, 'a) sproc \<Rightarrow> ('w, exn + 'a) sproc" where
  "tryP rethrow m =
     catchP (bindP m (\<lambda>x. retP (Inr x)))
       (\<lambda>e. if cxx_exception e \<and> \<not> (rethrow \<and> is_shutdown e) then retP (Inl e) else raiseP e)"

text \<open>
  A handler whose body stands in a \<open>try\<close> block that begins with reading the request id: the id and the status
  at the end of the block. An exception makes the status \<open>SSH2_FX_FAILURE\<close>; if the id was not read yet, its
  variable is uninitialised.
\<close>

definition guarded :: "'w win32 \<Rightarrow> bool \<Rightarrow> (u32 \<Rightarrow> ('w, int) sproc) \<Rightarrow> ('w, u32 \<times> int) sproc" where
  "guarded W rethrow body =
     bindP (tryP rethrow (on_iqueue buffer_get_int)) (\<lambda>r.
       case r of Inl _ \<Rightarrow> retP (garbage_id W, SSH2_FX_FAILURE)
       | Inr rid \<Rightarrow> bindP (tryP rethrow (body rid)) (\<lambda>r.
           case r of Inl _ \<Rightarrow> retP (rid, SSH2_FX_FAILURE) | Inr status \<Rightarrow> retP (rid, status)))"

definition send_failure :: "u32 \<times> int \<Rightarrow> ('w, unit) sproc" where
  "send_failure r = (if snd r \<noteq> SSH2_FX_OK then send_status (fst r) (snd r) else retP ())"

definition make_path :: "'w win32 \<Rightarrow> bool \<Rightarrow> byte list \<Rightarrow> ('w, SFTPFilePath) sproc" where
  "make_path W ndebug name = bindP (getP f_home) (\<lambda>home. liftR (create_path ndebug home (fromUTF8 W name)))"

definition error_status :: "'w win32 \<Rightarrow> ('w, int) sproc" where
  "error_status W = bindP (last_error W) (\<lambda>err. retP (errno_to_portable err))"

definition status_of :: "'w win32 \<Rightarrow> bool \<Rightarrow> ('w, int) sproc" where
  "status_of W ok = (if ok then retP SSH2_FX_OK else error_status W)"

section \<open>Requests\<close>

definition process_init :: "('w, unit) sproc" where
  "process_init =
     bindP (on_iqueue buffer_get_int) (\<lambda>v.
     bindP (modP (\<lambda>s. s\<lparr>f_version := sint v\<rparr>)) (\<lambda>_.
     bindP (liftR (bindR (buffer_put_char buffer_init SSH2_FXP_VERSION) (\<lambda>msg.
                   buffer_put_int msg SSH2_FILEXFER_VERSION))) send_msg))"

definition open_disposition :: "u32 \<Rightarrow> u32" where
  "open_disposition pflags =
     (if has_bits pflags SSH2_FXF_CREAT then
        if has_bits pflags SSH2_FXF_EXCL then CREATE_NEW
        else if has_bits pflags SSH2_FXF_TRUNC then CREATE_ALWAYS
        else OPEN_ALWAYS
      else OPEN_EXISTING)"

text \<open>The handle of Windows becomes a handle of the table, which is sent to the client.\<close>

definition give_handle :: "'w win32 \<Rightarrow> u32 \<Rightarrow> HandleUseType \<Rightarrow> SFTPFilePath \<Rightarrow> HANDLE \<Rightarrow> HANDLE \<Rightarrow> HANDLE \<Rightarrow> ('w, int) sproc" where
  "give_handle W rid use path fh dirp h =
     (if h = INVALID_HANDLE_VALUE then error_status W
      else bindP (handle_new use path fh dirp) (\<lambda>handle.
        if handle < 0 then bindP (winP (CloseHandle W h)) (\<lambda>_. retP SSH2_FX_FAILURE)
        else bindP (send_handle rid handle) (\<lambda>_. retP SSH2_FX_OK)))"

definition sftp_server_cleanup_exit :: "('w, 'a) sproc" where
  "sftp_server_cleanup_exit = raiseP Shutting_down"

definition open_body :: "'w win32 \<Rightarrow> bool \<Rightarrow> u32 \<Rightarrow> ('w, int) sproc" where
  "open_body W ndebug rid =
     bindP (on_iqueue buffer_get_string) (\<lambda>name.
     bindP (on_iqueue buffer_get_int) (\<lambda>pflags.
     bindP (whenP (\<not> ndebug \<and> c_string name = ''/2stop_sftp_subsystem'') sftp_server_cleanup_exit) (\<lambda>_.
     bindP (on_iqueue decode_attrib) (\<lambda>a.
     bindP (make_path W ndebug name) (\<lambda>path.
     bindP (liftR (get_for_call ndebug path)) (\<lambda>call.
     bindP (pathP [call] (CreateFileW W call (flags_from_portable pflags) FILE_SHARE_READ (open_disposition pflags)
              FILE_ATTRIBUTE_NORMAL)) (\<lambda>fh.
     give_handle W rid HANDLE_FILE path fh 0 fh)))))))"

definition process_open :: "'w win32 \<Rightarrow> bool \<Rightarrow> ('w, unit) sproc" where
  "process_open W ndebug = bindP (guarded W (\<not> ndebug) (open_body W ndebug)) send_failure"

definition process_close :: "'w win32 \<Rightarrow> bool \<Rightarrow> ('w, unit) sproc" where
  "process_close W ndebug =
     bindP (on_iqueue buffer_get_int) (\<lambda>rid.
     bindP (get_handle W) (\<lambda>handle.
     bindP (handle_log_close ndebug handle) (\<lambda>_.
     bindP (handle_close W handle) (\<lambda>ret.
     bindP (status_of W ret) (send_status rid)))))"

text \<open>The status \<open>SSH2_FX_OK\<close> means that the reply has been sent.\<close>

definition read_file :: "'w win32 \<Rightarrow> u32 \<Rightarrow> int \<Rightarrow> HANDLE \<Rightarrow> u64 \<Rightarrow> u32 \<Rightarrow> ('w, int) sproc" where
  "read_file W rid handle fh off len =
     bindP (winP (SetFilePointerEx W fh off)) (\<lambda>ok.
       if \<not> ok then
         bindP (last_error W) (\<lambda>err. retP (if err = 0 then SSH2_FX_EOF else errno_to_portable err))
       else bindP (winP (ReadFile W fh (unat len))) (\<lambda>r.
         case r of None \<Rightarrow> error_status W
         | Some data \<Rightarrow>
           if data = [] then retP SSH2_FX_EOF
           else bindP (send_data rid data) (\<lambda>_.
                bindP (handle_update_read handle (int (length data))) (\<lambda>_. retP SSH2_FX_OK))))"

definition process_read :: "'w win32 \<Rightarrow> ('w, unit) sproc" where
  "process_read W =
     bindP (on_iqueue buffer_get_int) (\<lambda>rid.
     bindP (get_handle W) (\<lambda>handle.
     bindP (on_iqueue buffer_get_int64) (\<lambda>off.
     bindP (on_iqueue buffer_get_int) (\<lambda>len.
     let len = (if len > 64 * 1024 then 64 * 1024 else len) in
     bindP (handle_to_fh handle) (\<lambda>fh.
     bindP (if fh \<noteq> INVALID_HANDLE_VALUE then read_file W rid handle fh off len else retP SSH2_FX_FAILURE) (\<lambda>status.
     send_failure (rid, status)))))))"

definition write_file :: "'w win32 \<Rightarrow> int \<Rightarrow> HANDLE \<Rightarrow> u64 \<Rightarrow> byte list \<Rightarrow> ('w, int) sproc" where
  "write_file W handle fh off data =
     bindP (winP (SetFilePointerEx W fh off)) (\<lambda>ok.
       if \<not> ok then error_status W
       else bindP (winP (WriteFile W fh data)) (\<lambda>r.
         case r of None \<Rightarrow>
           bindP (last_error W) (\<lambda>err. retP (if err \<noteq> 0 then errno_to_portable err else SSH2_FX_FAILURE))
         | Some n \<Rightarrow>
           if unat n = length data then
             bindP (handle_update_write handle (sint n)) (\<lambda>_. retP SSH2_FX_OK)
           else retP SSH2_FX_FAILURE))"

definition process_write :: "'w win32 \<Rightarrow> ('w, unit) sproc" where
  "process_write W =
     bindP (on_iqueue buffer_get_int) (\<lambda>rid.
     bindP (get_handle W) (\<lambda>handle.
     bindP (on_iqueue buffer_get_int64) (\<lambda>off.
     bindP (on_iqueue buffer_get_string) (\<lambda>data.
     bindP (handle_to_fh handle) (\<lambda>fh.
     bindP (if fh \<noteq> INVALID_HANDLE_VALUE then write_file W handle fh off data else retP SSH2_FX_FAILURE) (\<lambda>status.
     send_status rid status))))))"

definition stat_body :: "'w win32 \<Rightarrow> bool \<Rightarrow> u32 \<Rightarrow> ('w, int) sproc" where
  "stat_body W ndebug rid =
     bindP (on_iqueue buffer_get_string) (\<lambda>name.
     bindP (make_path W ndebug name) (\<lambda>path.
     bindP (liftR (get_for_call ndebug path)) (\<lambda>call.
     bindP (pathP [call] (GetFileAttributesExW W call)) (\<lambda>r.
       case r of None \<Rightarrow> error_status W
       | Some st \<Rightarrow> bindP (send_attrib rid (stat_to_attrib st)) (\<lambda>_. retP SSH2_FX_OK)))))"

definition process_do_stat :: "'w win32 \<Rightarrow> bool \<Rightarrow> ('w, unit) sproc" where
  "process_do_stat W ndebug = bindP (guarded W False (stat_body W ndebug)) send_failure"

definition process_fstat :: "'w win32 \<Rightarrow> bool \<Rightarrow> ('w, unit) sproc" where
  "process_fstat W ndebug =
     bindP (on_iqueue buffer_get_int) (\<lambda>rid.
     bindP (get_handle W) (\<lambda>handle.
     bindP (handle_to_name ndebug handle) (\<lambda>_.
     bindP (handle_to_fh handle) (\<lambda>fh.
     bindP (if fh \<noteq> INVALID_HANDLE_VALUE then
              bindP (winP (GetFileInformationByHandle W fh)) (\<lambda>r.
                case r of None \<Rightarrow> error_status W
                | Some st \<Rightarrow> bindP (send_attrib rid (stat_to_attrib st)) (\<lambda>_. retP SSH2_FX_OK))
            else retP SSH2_FX_FAILURE) (\<lambda>status.
     send_failure (rid, status))))))"

text \<open>
  \<open>process_setstat\<close> does not initialise \<open>utf8_name\<close>: when the request ends before the name, it frees whatever
  the variable holds.
\<close>

definition setstat_body :: "'w win32 \<Rightarrow> bool \<Rightarrow> byte list \<Rightarrow> ('w, int) sproc" where
  "setstat_body W ndebug name =
     bindP (on_iqueue decode_attrib) (\<lambda>a.
     bindP (make_path W ndebug name) (\<lambda>path.
     let st = attrib_to_stat a;
         status = SSH2_FX_OK;
         status = (if has_bits (at_flags a) SSH2_FILEXFER_ATTR_SIZE then SSH2_FX_OP_UNSUPPORTED else status);
         status = (if status = SSH2_FX_OK \<and> has_bits (at_flags a) SSH2_FILEXFER_ATTR_ACMODTIME
                   then SSH2_FX_OP_UNSUPPORTED else status);
         status = (if status = SSH2_FX_OK \<and> has_bits (at_flags a) SSH2_FILEXFER_ATTR_UIDGID
                   then SSH2_FX_OP_UNSUPPORTED else status)
     in if status = SSH2_FX_OK \<and> has_bits (at_flags a) SSH2_FILEXFER_ATTR_PERMISSIONS then
          bindP (liftR (get_for_call ndebug path)) (\<lambda>call.
          bindP (pathP [call] (SetFileAttributesW W call (fi_dwFileAttributes st))) (\<lambda>ok.
          if \<not> ok then error_status W else retP status))
        else retP status))"

definition setstat_end :: "'w win32 \<Rightarrow> bool \<Rightarrow> u32 \<Rightarrow> int \<Rightarrow> ('w, unit) sproc" where
  "setstat_end W named rid status =
     bindP (send_status rid status) (\<lambda>_. if \<not> named \<and> garbage_int W \<noteq> 0 then raiseP Mem_fault else retP ())"

definition process_setstat :: "'w win32 \<Rightarrow> bool \<Rightarrow> ('w, unit) sproc" where
  "process_setstat W ndebug =
     bindP (tryP False (on_iqueue buffer_get_int)) (\<lambda>r.
       case r of Inl _ \<Rightarrow> setstat_end W False (garbage_id W) SSH2_FX_FAILURE
       | Inr rid \<Rightarrow> bindP (tryP False (on_iqueue buffer_get_string)) (\<lambda>r.
           case r of Inl _ \<Rightarrow> setstat_end W False rid SSH2_FX_FAILURE
           | Inr name \<Rightarrow> bindP (tryP False (setstat_body W ndebug name)) (\<lambda>r.
               case r of Inl _ \<Rightarrow> setstat_end W True rid SSH2_FX_FAILURE
               | Inr status \<Rightarrow> setstat_end W True rid status)))"

definition file_time :: "FILETIME \<Rightarrow> u64" where
  "file_time t = LARGE_INTEGER (dwLowDateTime t) (dwHighDateTime t)"

definition new_info :: "'w win32 \<Rightarrow> 'w \<Rightarrow> Attrib \<Rightarrow> file_info \<Rightarrow> FILE_BASIC_INFO" where
  "new_info W w a stBefore =
     (let stRequested = attrib_to_stat a;
          times = (if has_bits (at_flags a) SSH2_FILEXFER_ATTR_ACMODTIME then stRequested else stBefore)
      in \<lparr>bi_CreationTime = file_time (fi_ftCreationTime stBefore),
          bi_LastAccessTime = file_time (fi_ftLastAccessTime times),
          bi_LastWriteTime = file_time (fi_ftLastWriteTime times),
          bi_ChangeTime = file_time (SystemTimeToFileTime (wcalendar W) (GetSystemTime W w)),
          bi_FileAttributes = (if has_bits (at_flags a) SSH2_FILEXFER_ATTR_PERMISSIONS
            then fi_dwFileAttributes stRequested else fi_dwFileAttributes stBefore)\<rparr>)"

definition set_file_size :: "'w win32 \<Rightarrow> HANDLE \<Rightarrow> u64 \<Rightarrow> ('w, bool) sproc" where
  "set_file_size W fh sz =
     bindP (winP (SetFilePointerEx W fh sz)) (\<lambda>ok. if ok then winP (SetEndOfFile W fh) else retP False)"

definition fsetstat_file :: "'w win32 \<Rightarrow> HANDLE \<Rightarrow> Attrib \<Rightarrow> ('w, int) sproc" where
  "fsetstat_file W fh a =
     (let status = (if has_bits (at_flags a) SSH2_FILEXFER_ATTR_UIDGID then SSH2_FX_OP_UNSUPPORTED else SSH2_FX_OK) in
      bindP (if has_bits (at_flags a) SSH2_FILEXFER_ATTR_SIZE then
               bindP (set_file_size W fh (at_size a)) (\<lambda>ok. if ok then retP status else error_status W)
             else retP status) (\<lambda>status.
      if status = SSH2_FX_OK then
        bindP (winP (GetFileInformationByHandle W fh)) (\<lambda>r.
          case r of None \<Rightarrow> error_status W
          | Some stBefore \<Rightarrow>
            bindP (getP f_world) (\<lambda>w.
            bindP (winP (SetFileInformationByHandle W fh (new_info W w a stBefore))) (\<lambda>ok.
            if ok then retP status else error_status W)))
      else retP status))"

definition process_fsetstat :: "'w win32 \<Rightarrow> ('w, unit) sproc" where
  "process_fsetstat W =
     bindP (on_iqueue buffer_get_int) (\<lambda>rid.
     bindP (get_handle W) (\<lambda>handle.
     bindP (on_iqueue decode_attrib) (\<lambda>a.
     bindP (handle_to_fh handle) (\<lambda>fh.
     bindP (if fh = INVALID_HANDLE_VALUE then retP SSH2_FX_FAILURE else fsetstat_file W fh a) (\<lambda>status.
     send_status rid status)))))"

definition opendir_body :: "'w win32 \<Rightarrow> bool \<Rightarrow> u32 \<Rightarrow> ('w, int) sproc" where
  "opendir_body W ndebug rid =
     bindP (on_iqueue buffer_get_string) (\<lambda>name.
     bindP (make_path W ndebug name) (\<lambda>path.
     bindP (liftR (get_for_call ndebug path)) (\<lambda>call.
     bindP (pathP [call] (CreateFileW W call (GENERIC_READ OR GENERIC_WRITE) FILE_SHARE_READ OPEN_EXISTING
              FILE_FLAG_BACKUP_SEMANTICS)) (\<lambda>fh.
     give_handle W rid HANDLE_DIR path 0 fh fh))))"

definition process_opendir :: "'w win32 \<Rightarrow> bool \<Rightarrow> ('w, unit) sproc" where
  "process_opendir W ndebug = bindP (guarded W False (opendir_body W ndebug)) send_failure"

text \<open>The loop over \<open>FindNextFileW\<close>, at most \<open>n\<close> more entries; the flag is the new \<open>searchDone\<close>.\<close>

primrec find_entries :: "'w win32 \<Rightarrow> HANDLE \<Rightarrow> nat \<Rightarrow> Stat list \<Rightarrow> ('w, bool \<times> Stat list) sproc" where
  "find_entries W search 0 stats = retP (False, stats)"
| "find_entries W search (Suc n) stats =
     bindP (winP (FindNextFileW W search)) (\<lambda>r.
       case r of None \<Rightarrow> retP (True, stats)
       | Some (cFileName, st) \<Rightarrow>
         bindP (liftR (ls_file (wcalendar W) cFileName st)) (\<lambda>line.
         find_entries W search n (stats @ [\<lparr>st_name = toUTF8 W cFileName, st_long_name = toUTF8 W line,
           st_attrib = stat_to_attrib st\<rparr>])))"

definition readdir_entries :: "'w win32 \<Rightarrow> bool \<Rightarrow> int \<Rightarrow> SFTPFilePath \<Rightarrow> ('w, Stat list) sproc" where
  "readdir_entries W ndebug handle dirPath =
     bindP (getP (\<lambda>s. f_handles s ! nat handle)) (\<lambda>h.
     bindP (whenP (\<not> h_searchDone h \<and> h_searchHandle h = INVALID_HANDLE_VALUE)
       (bindP (liftR (get_mask_for_dir_search ndebug dirPath)) (\<lambda>mask.
        bindP (pathP [mask] (FindFirstFile W mask)) (\<lambda>search.
        modP (set_handle handle (\<lambda>h. h\<lparr>h_searchHandle := search\<rparr>)))))) (\<lambda>_.
     bindP (getP (\<lambda>s. f_handles s ! nat handle)) (\<lambda>h.
     bindP (if \<not> h_searchDone h \<and> h_searchHandle h \<noteq> INVALID_HANDLE_VALUE then
              bindP (modP (set_handle handle (\<lambda>h. h\<lparr>h_searchDone := True\<rparr>))) (\<lambda>_.
              bindP (find_entries W (h_searchHandle h) 100 []) (\<lambda>(finished, stats).
              bindP (modP (set_handle handle (\<lambda>h. h\<lparr>h_searchDone := finished\<rparr>))) (\<lambda>_. retP stats)))
            else retP []) (\<lambda>stats.
     bindP (getP (\<lambda>s. f_handles s ! nat handle)) (\<lambda>h.
     bindP (whenP (h_searchDone h \<and> h_searchHandle h \<noteq> INVALID_HANDLE_VALUE)
       (bindP (winP (FindClose W (h_searchHandle h))) (\<lambda>_.
        modP (set_handle handle (\<lambda>h. h\<lparr>h_searchHandle := 0\<rparr>))))) (\<lambda>_.
     retP stats))))))"

definition process_readdir :: "'w win32 \<Rightarrow> bool \<Rightarrow> ('w, unit) sproc" where
  "process_readdir W ndebug =
     bindP (on_iqueue buffer_get_int) (\<lambda>rid.
     bindP (get_handle W) (\<lambda>handle.
     bindP (handle_to_name ndebug handle) (\<lambda>_.
     bindP (handle_to_dir handle) (\<lambda>dh.
     bindP (handle_to_path handle) (\<lambda>dirPath.
     bindP (liftR (if dh = INVALID_HANDLE_VALUE then Inr [] else to_wstring ndebug dirPath)) (\<lambda>str.
       if dh = INVALID_HANDLE_VALUE \<or> length str = 0 then send_status rid SSH2_FX_FAILURE
       else bindP (readdir_entries W ndebug handle dirPath) (\<lambda>stats.
         if stats \<noteq> [] then send_names rid stats
         else bindP (modP (set_handle handle (\<lambda>h. h\<lparr>h_searchHandle := INVALID_HANDLE_VALUE, h_searchDone := False\<rparr>))) (\<lambda>_.
              send_status rid SSH2_FX_EOF))))))))"

definition process_remove :: "'w win32 \<Rightarrow> bool \<Rightarrow> ('w, unit) sproc" where
  "process_remove W ndebug =
     bindP (on_iqueue buffer_get_int) (\<lambda>rid.
     bindP (on_iqueue buffer_get_string) (\<lambda>name.
     bindP (make_path W ndebug name) (\<lambda>path.
     bindP (liftR (get_for_call ndebug path)) (\<lambda>call.
     bindP (pathP [call] (DeleteFileW W call)) (\<lambda>ok.
     bindP (status_of W ok) (send_status rid))))))"

text \<open>The directories of \<open>path\<close> from number \<open>k\<close> on, \<open>n\<close> of them, are created where they are missing.\<close>

definition first_dirs :: "SFTPFilePath \<Rightarrow> nat \<Rightarrow> SFTPFilePath res" where
  "first_dirs path k = bindR (n_first_dirs path k) (\<lambda>p. mk_SFTPFilePath p (nUserHomePos path))"

primrec create_dirs_loop :: "'w win32 \<Rightarrow> bool \<Rightarrow> SFTPFilePath \<Rightarrow> nat \<Rightarrow> nat \<Rightarrow> ('w, bool) sproc" where
  "create_dirs_loop W ndebug path k 0 = retP True"
| "create_dirs_loop W ndebug path k (Suc n) =
     bindP (liftR (first_dirs path k)) (\<lambda>p2.
     bindP (liftR (get_for_call ndebug p2)) (\<lambda>call.
     bindP (pathP [call] (GetFileAttributesExW W call)) (\<lambda>r.
       case r of Some _ \<Rightarrow> create_dirs_loop W ndebug path (Suc k) n
       | None \<Rightarrow> bindP (pathP [call] (CreateDirectoryW W call)) (\<lambda>ok.
           if ok then create_dirs_loop W ndebug path (Suc k) n else retP False))))"

definition create_directory_path :: "'w win32 \<Rightarrow> bool \<Rightarrow> SFTPFilePath \<Rightarrow> ('w, bool) sproc" where
  "create_directory_path W ndebug path =
     create_dirs_loop W ndebug path (nUserHomePos path + 1) (nDirs path - nUserHomePos path)"

definition process_mkdir :: "'w win32 \<Rightarrow> bool \<Rightarrow> ('w, unit) sproc" where
  "process_mkdir W ndebug =
     bindP (on_iqueue buffer_get_int) (\<lambda>rid.
     bindP (on_iqueue buffer_get_string) (\<lambda>name.
     bindP (on_iqueue decode_attrib) (\<lambda>a.
     bindP (make_path W ndebug name) (\<lambda>path.
     bindP (liftR (get_for_call ndebug path)) (\<lambda>call.
     bindP (pathP [call] (CreateDirectoryW W call)) (\<lambda>ok.
     bindP (last_error W) (\<lambda>err.
     bindP (if err = ERROR_PATH_NOT_FOUND then
              bindP (create_directory_path W ndebug path) (\<lambda>ok.
                if ok then retP (ok, err) else bindP (last_error W) (\<lambda>err. retP (ok, err)))
            else retP (ok, err)) (\<lambda>(ok, err).
     send_status rid (if ok then SSH2_FX_OK else errno_to_portable err)))))))))"

definition process_rmdir :: "'w win32 \<Rightarrow> bool \<Rightarrow> ('w, unit) sproc" where
  "process_rmdir W ndebug =
     bindP (on_iqueue buffer_get_int) (\<lambda>rid.
     bindP (on_iqueue buffer_get_string) (\<lambda>name.
     bindP (make_path W ndebug name) (\<lambda>path.
     bindP (liftR (get_for_call ndebug path)) (\<lambda>call.
     bindP (pathP [call] (RemoveDirectoryW W call)) (\<lambda>ok.
     bindP (status_of W ok) (send_status rid))))))"

definition realpath_body :: "'w win32 \<Rightarrow> bool \<Rightarrow> u32 \<Rightarrow> ('w, int) sproc" where
  "realpath_body W ndebug rid =
     bindP (on_iqueue buffer_get_string) (\<lambda>name.
     bindP (make_path W ndebug name) (\<lambda>path.
     bindP (liftR (unix_form ndebug path)) (\<lambda>str.
     bindP (send_names rid [\<lparr>st_name = toUTF8 W str, st_long_name = toUTF8 W str, st_attrib = attrib_clear\<rparr>]) (\<lambda>_.
     retP SSH2_FX_OK))))"

definition process_realpath :: "'w win32 \<Rightarrow> bool \<Rightarrow> ('w, unit) sproc" where
  "process_realpath W ndebug = bindP (guarded W False (realpath_body W ndebug)) send_failure"

text \<open>\<open>MoveFileExW\<close> is called with \<open>MOVEFILE_COPY_ALLOWED\<close> and \<open>MOVEFILE_WRITE_THROUGH\<close>, here and below.\<close>

definition move_if_new :: "'w win32 \<Rightarrow> wstring \<Rightarrow> wstring \<Rightarrow> ('w, int) sproc" where
  "move_if_new W old new =
     bindP (pathP [new] (GetFileAttributes W new)) (\<lambda>attrs.
       case attrs of
         None \<Rightarrow> bindP (pathP [old, new] (MoveFileExW W old new)) (status_of W)
       | Some _ \<Rightarrow> retP SSH2_FX_FAILURE)"

definition rename_file :: "'w win32 \<Rightarrow> wstring \<Rightarrow> wstring \<Rightarrow> ('w, int) sproc" where
  "rename_file W old new =
     bindP (pathP [old] (GetFileAttributes W old)) (\<lambda>attrs.
       case attrs of
         None \<Rightarrow> error_status W
       | Some oldFileAttrs \<Rightarrow>
         if has_bits oldFileAttrs FILE_ATTRIBUTE_NORMAL then
           bindP (pathP [new, old] (CreateHardLink W new old)) (\<lambda>linked.
             if \<not> linked then move_if_new W old new
             else bindP (pathP [old] (DeleteFileW W old)) (\<lambda>deleted.
               if \<not> deleted then
                 bindP (error_status W) (\<lambda>status.
                 bindP (pathP [new] (DeleteFileW W new)) (\<lambda>_. retP status))
               else retP SSH2_FX_OK))
         else move_if_new W old new)"

definition process_rename :: "'w win32 \<Rightarrow> bool \<Rightarrow> ('w, unit) sproc" where
  "process_rename W ndebug =
     bindP (on_iqueue buffer_get_int) (\<lambda>rid.
     bindP (on_iqueue buffer_get_string) (\<lambda>oldname.
     bindP (on_iqueue buffer_get_string) (\<lambda>newname.
     bindP (make_path W ndebug oldname) (\<lambda>oldPath.
     bindP (make_path W ndebug newname) (\<lambda>newPath.
     bindP (liftR (get_for_call ndebug oldPath)) (\<lambda>old.
     bindP (liftR (get_for_call ndebug newPath)) (\<lambda>new.
     bindP (rename_file W old new) (\<lambda>status. send_status rid status))))))))"

definition process_readlink :: "('w, unit) sproc" where
  "process_readlink =
     bindP (on_iqueue buffer_get_int) (\<lambda>rid.
     bindP (on_iqueue buffer_get_string) (\<lambda>_. send_status rid SSH2_FX_OP_UNSUPPORTED))"

definition process_symlink :: "('w, unit) sproc" where
  "process_symlink =
     bindP (on_iqueue buffer_get_int) (\<lambda>rid.
     bindP (on_iqueue buffer_get_string) (\<lambda>_.
     bindP (on_iqueue buffer_get_string) (\<lambda>_. send_status rid SSH2_FX_OP_UNSUPPORTED)))"

definition process_extended :: "('w, unit) sproc" where
  "process_extended =
     bindP (on_iqueue buffer_get_int) (\<lambda>rid.
     bindP (on_iqueue buffer_get_string) (\<lambda>_. send_status rid SSH2_FX_OP_UNSUPPORTED))"

section \<open>Dispatch\<close>

text \<open>The message types 1 and 3 to 20 are \<open>SSH2_FXP_INIT\<close> and \<open>SSH2_FXP_OPEN\<close> to \<open>SSH2_FXP_SYMLINK\<close>, 200 is
  \<open>SSH2_FXP_EXTENDED\<close>. The handler of an unknown type is none.\<close>

definition process_request :: "'w win32 \<Rightarrow> bool \<Rightarrow> byte \<Rightarrow> ('w, unit) sproc" where
  "process_request W ndebug type =
     (if type = 1 then process_init
      else if type = 3 then process_open W ndebug
      else if type = 4 then process_close W ndebug
      else if type = 5 then process_read W
      else if type = 6 then process_write W
      else if type = 7 then process_do_stat W ndebug
      else if type = 8 then process_fstat W ndebug
      else if type = 9 then process_setstat W ndebug
      else if type = 10 then process_fsetstat W
      else if type = 11 then process_opendir W ndebug
      else if type = 12 then process_readdir W ndebug
      else if type = 13 then process_remove W ndebug
      else if type = 14 then process_mkdir W ndebug
      else if type = 15 then process_rmdir W ndebug
      else if type = 16 then process_realpath W ndebug
      else if type = 17 then process_do_stat W ndebug
      else if type = 18 then process_rename W ndebug
      else if type = 19 then process_readlink
      else if type = 20 then process_symlink
      else if type = 200 then process_extended
      else retP ())"

definition discard_rest :: "u32 \<Rightarrow> ('w, unit) sproc" where
  "discard_rest msg_len =
     bindP (getP f_iqueue) (\<lambda>q.
       if msg_len < buffer_len q then sftp_server_cleanup_exit
       else let consumed = msg_len - buffer_len q in
         if msg_len < consumed then sftp_server_cleanup_exit
         else if msg_len > consumed then
           setR f_iqueue (\<lambda>b s. s\<lparr>f_iqueue := b\<rparr>) (\<lambda>q. buffer_consume q (msg_len - consumed))
         else retP ())"

definition process :: "'w win32 \<Rightarrow> bool \<Rightarrow> ('w, unit) sproc" where
  "process W ndebug =
     bindP (on_iqueue buffer_get_int) (\<lambda>msg_len.
     bindP (on_iqueue buffer_get_char) (\<lambda>type.
     bindP (process_request W ndebug type) (\<lambda>_. discard_rest msg_len)))"

text \<open>One round of the loop of \<open>run\<close> on a message, and the loop on the messages that arrive. An empty message is
  the end of the input; more messages behind it are a bug of the sender. Without a message the thread
  waits.\<close>

definition serve_message :: "'w win32 \<Rightarrow> bool \<Rightarrow> byte list \<Rightarrow> ('w, unit) sproc" where
  "serve_message W ndebug msg =
     bindP (setR f_iqueue (\<lambda>b s. s\<lparr>f_iqueue := b\<rparr>) (\<lambda>q. buffer_put_string q msg)) (\<lambda>_. process W ndebug)"

fun sftp_run :: "'w win32 \<Rightarrow> bool \<Rightarrow> byte list list \<Rightarrow> ('w, unit) sproc" where
  "sftp_run W ndebug [] = raiseP Blocked"
| "sftp_run W ndebug (msg # msgs) =
     (if msg = [] then
        (if msgs = [] then retP ()
         else if \<not> ndebug then raiseP Assertion_failed
         else sftp_run W ndebug msgs)
      else bindP (serve_message W ndebug msg) (\<lambda>_. sftp_run W ndebug msgs))"

text \<open>The constructor. The version is not set before the client sends one.\<close>

definition SFTP_new :: "'w win32 \<Rightarrow> bool \<Rightarrow> byte list \<Rightarrow> 'w \<Rightarrow> 'w SFTP res" where
  "SFTP_new W ndebug home_dir w =
     bindR (SFTPFilePathFactory ndebug (fromUTF8 W home_dir)) (\<lambda>home.
     Inr \<lparr>f_iqueue = buffer_init, f_home = home, f_handles = [], f_unusedHandles = {}, f_version = garbage_int W,
          f_sent = [], f_world = w, f_paths = []\<rparr>)"

end
