(* ===== verification/Sftp_Server_Props.thy ===== *)
theory Sftp_Server_Props
  imports Ssh_Prelude Wire Sftp_Path Sftp_Attr Sftp_Handles Sftp_Server
begin

unbundle bit_operations_syntax

text \<open>
  The SFTP server as a whole. Whatever messages a client sends, every path that reaches Windows is below the
  home directory of the user, and the table of handles stays consistent. A request that returns is
  answered with one reply that carries its id, and leaves no byte of it in the queue. The handlers that
  guard their body answer every request; those that do not are ended by a malformed path.
\<close>

section \<open>The invariant\<close>

definition confined :: "bool \<Rightarrow> SFTPFilePath \<Rightarrow> wstring \<Rightarrow> bool" where
  "confined ndebug home c \<longleftrightarrow>
     (\<exists>p. below_home home p \<and> (get_for_call ndebug p = Inr c \<or> get_mask_for_dir_search ndebug p = Inr c))"

definition home_path :: "SFTPFilePath \<Rightarrow> SFTPFilePath \<Rightarrow> bool" where
  "home_path home p \<longleftrightarrow> below_home home p \<and> nUserHomePos p = nDirs home"

definition sftp_inv :: "bool \<Rightarrow> SFTPFilePath \<Rightarrow> 'w SFTP \<Rightarrow> bool" where
  "sftp_inv ndebug home s \<longleftrightarrow>
     handles_inv s \<and> buffer_inv (f_iqueue s) \<and> f_home s = home \<and>
     list_all (\<lambda>h. home_path home (h_path h)) (f_handles s) \<and> list_all (confined ndebug home) (f_paths s)"

definition good_home :: "SFTPFilePath \<Rightarrow> bool" where
  "good_home home \<longleftrightarrow> \<not> p_isRelative home \<and> list_all entry_dir (p_path home)"

lemma sftp_inv_simps [simp]:
  "sftp_inv nd home (s\<lparr>f_world := w\<rparr>) = sftp_inv nd home s"
  "sftp_inv nd home (s\<lparr>f_sent := x\<rparr>) = sftp_inv nd home s"
  "sftp_inv nd home (s\<lparr>f_version := v\<rparr>) = sftp_inv nd home s"
  by (simp_all add: sftp_inv_def handles_inv_def)

lemma sftp_inv_queue: "sftp_inv nd home s \<Longrightarrow> buffer_inv b \<Longrightarrow> sftp_inv nd home (s\<lparr>f_iqueue := b\<rparr>)"
  by (simp add: sftp_inv_def handles_inv_def)

section \<open>Reading requests keeps the queue well formed\<close>

lemma get_inv:
  "buffer_inv b \<Longrightarrow> buffer_get_int b = Inr (v, c) \<Longrightarrow> buffer_inv c"
  "buffer_inv b \<Longrightarrow> buffer_get_int64 b = Inr (w, c) \<Longrightarrow> buffer_inv c"
  "buffer_inv b \<Longrightarrow> buffer_get_char b = Inr (x, c) \<Longrightarrow> buffer_inv c"
  "buffer_inv b \<Longrightarrow> buffer_get_string b = Inr (y, c) \<Longrightarrow> buffer_inv c"
  using wint.get_Inr [of b v c] wint64.get_Inr [of b w c] wchar.get_Inr [of b x c] wstring.get_Inr [of b y c]
  by blast+

lemma skip_extended_inv: "buffer_inv b \<Longrightarrow> skip_extended n b = Inr c \<Longrightarrow> buffer_inv c"
proof (induction n arbitrary: b)
  case (Suc n)
  then obtain x1 b1 x2 b2 where "buffer_get_string b = Inr (x1, b1)" "buffer_get_string b1 = Inr (x2, b2)"
      "skip_extended n b2 = Inr c"
    by (auto simp: res_simps)
  then show ?case using Suc.IH get_inv(4) Suc.prems(1) by blast
qed simp

definition leaves_inv :: "('a \<times> Buffer) res \<Rightarrow> bool" where
  "leaves_inv m \<longleftrightarrow> (\<forall>v c. m = Inr (v, c) \<longrightarrow> buffer_inv c)"

lemma leaves_inv_rules:
  "leaves_inv m \<Longrightarrow> (\<And>v b. buffer_inv b \<Longrightarrow> leaves_inv (k v b)) \<Longrightarrow> leaves_inv (bindR m (\<lambda>(v, b). k v b))"
  "buffer_inv b \<Longrightarrow> leaves_inv (Inr (v, b))"
  "(q \<Longrightarrow> leaves_inv m1) \<Longrightarrow> (\<not> q \<Longrightarrow> leaves_inv m2) \<Longrightarrow> leaves_inv (if q then m1 else m2)"
  by (auto simp: leaves_inv_def bindR_eq_Inr)

lemma leaves_inv_bind1:
  "(\<And>b. m = Inr b \<Longrightarrow> buffer_inv b) \<Longrightarrow> (\<And>b. buffer_inv b \<Longrightarrow> leaves_inv (k b)) \<Longrightarrow> leaves_inv (bindR m k)"
  by (auto simp: leaves_inv_def bindR_eq_Inr)

lemma leaves_inv_get:
  "buffer_inv b \<Longrightarrow> leaves_inv (buffer_get_int b)" "buffer_inv b \<Longrightarrow> leaves_inv (buffer_get_int64 b)"
  unfolding leaves_inv_def by (intro allI impI, erule (1) get_inv)+

lemma decode_attrib_inv:
  assumes "buffer_inv b" "decode_attrib b = Inr (a, c)"
  shows "buffer_inv c"
proof -
  have ext: "buffer_inv d" if inv: "buffer_inv b" and r: "bindR (buffer_get_int b) (\<lambda>(count, b). skip_extended (nat (sint count)) b) = Inr d"
    for b d
  proof -
    obtain n c where "buffer_get_int b = Inr (n, c)" "skip_extended (nat (sint n)) c = Inr d"
      using r by (auto simp: bindR_eq_Inr)
    then show ?thesis using get_inv(1) [OF inv] skip_extended_inv by metis
  qed
  have "leaves_inv (decode_attrib b)"
    unfolding decode_attrib_def Let_def
    by (rule leaves_inv_rules leaves_inv_get assms(1) | assumption | rule leaves_inv_bind1)+
       (use ext in \<open>fastforce split: if_splits\<close>, rule leaves_inv_rules)
  then show ?thesis using assms(2) by (simp add: leaves_inv_def)
qed

lemma inv_upd:
  assumes "\<And>b v c. buffer_inv b \<Longrightarrow> f b = Inr (v, c) \<Longrightarrow> buffer_inv c"
  shows "preserves (sftp_inv nd home) (on_iqueue f)"
proof (rule ensures_upd)
  fix s v c
  assume s: "sftp_inv nd home s" and f: "f (f_iqueue s) = Inr (v, c)"
  then have "buffer_inv (f_iqueue s)" by (simp add: sftp_inv_def)
  with s show "sftp_inv nd home (s\<lparr>f_iqueue := c\<rparr>) \<and> True" using assms [OF _ f] sftp_inv_queue by blast
qed

lemma inv_get:
  "preserves (sftp_inv nd home) (on_iqueue buffer_get_int)" "preserves (sftp_inv nd home) (on_iqueue buffer_get_int64)"
  "preserves (sftp_inv nd home) (on_iqueue buffer_get_char)" "preserves (sftp_inv nd home) (on_iqueue buffer_get_string)"
  "preserves (sftp_inv nd home) (on_iqueue decode_attrib)"
  by (rule inv_upd, erule (1) get_inv decode_attrib_inv)+

section \<open>Calls of Windows and replies\<close>

lemma inv_win: "preserves (sftp_inv nd home) (winP f)"
  by (auto simp: ensures_def winP_def split: prod.split)

lemma inv_path:
  assumes "list_all (confined nd home) ps"
  shows "preserves (sftp_inv nd home) (pathP ps f)"
  unfolding pathP_def
  by (rule ensures_bind [OF ensures_mod]) (use assms in \<open>simp_all add: sftp_inv_def handles_inv_def inv_win\<close>)

lemma inv_send: "preserves (sftp_inv nd home) (send_msg m)"
  by (simp add: send_msg_def ensures_mod)

lemma confined_call: "below_home home p \<Longrightarrow> get_for_call nd p = Inr c \<Longrightarrow> confined nd home c"
  "below_home home p \<Longrightarrow> get_mask_for_dir_search nd p = Inr c \<Longrightarrow> confined nd home c"
  by (auto simp: confined_def)

lemma inv_make_path:
  assumes "good_home home"
  shows "ensures (sftp_inv nd home) (home_path home) (make_path W nd name)"
  unfolding make_path_def
  by (rule ensures_bind [where P = "\<lambda>h. h = home"])
     (use assms in \<open>auto intro!: ensures_basic create_path_below simp: sftp_inv_def good_home_def home_path_def\<close>)

section \<open>The table of handles\<close>

lemma list_all_update: "list_all P xs \<Longrightarrow> (i < length xs \<Longrightarrow> P x) \<Longrightarrow> list_all P (xs[i := x])"
  using set_update_subset_insert [of xs i x] by (cases "i < length xs") (auto simp: list_all_iff list_update_beyond)

lemma inv_set_handle:
  assumes "\<And>h. h_use (f h) = h_use h \<and> h_path (f h) = h_path h" "sftp_inv nd home s"
  shows "sftp_inv nd home (set_handle i f s)"
proof -
  let ?hs = "f_handles s" and ?t = "set_handle i f s"
  have use: "h_use (f_handles ?t ! j) = h_use (?hs ! j)" if "j < length ?hs" for j
    using assms(1) that by (cases "nat i < length ?hs") (simp_all add: set_handle_def nth_list_update)
  have "{i. 0 \<le> i \<and> nat i < length (f_handles ?t) \<and> h_use (f_handles ?t ! nat i) = HANDLE_UNUSED} =
      {i. 0 \<le> i \<and> nat i < length ?hs \<and> h_use (?hs ! nat i) = HANDLE_UNUSED}"
    using use by (auto simp: set_handle_def)
  moreover have "list_all (\<lambda>h. home_path home (h_path h)) (f_handles ?t)"
    unfolding set_handle_def using assms
    by (simp add: sftp_inv_def) (rule list_all_update, auto simp: list_all_length)
  ultimately show ?thesis using assms(2) by (simp add: sftp_inv_def handles_inv_def) (simp add: set_handle_def)
qed

lemma inv_handle_new:
  assumes "home_path home path" "use \<noteq> HANDLE_UNUSED"
  shows "preserves (sftp_inv nd home) (handle_new use path fh dirp)"
proof (rule ensuresI)
  fix s r and t :: "'a SFTP"
  assume s: "sftp_inv nd home s" and r: "handle_new use path fh dirp s = (r, t)"
  then have h: "handles_inv s" by (simp add: sftp_inv_def)
  have t: "t = s \<or> handles_inv t \<and> t = s\<lparr>f_handles := f_handles t, f_unusedHandles := f_unusedHandles t\<rparr>"
    using handle_new_run [OF h assms(2), of path fh dirp] r by auto
  have "list_all (\<lambda>h. home_path home (h_path h)) (f_handles t)"
    using s r assms(1)
    by (auto simp: handle_new_def sftp_inv_def mk_Handle_def Let_def intro!: list_all_update split: if_splits)
  moreover have "f_iqueue t = f_iqueue s" "f_home t = f_home s" "f_paths t = f_paths s"
    using t by (metis SFTP.select_convs SFTP.surjective SFTP.update_convs)+
  ultimately show "sftp_inv nd home t \<and> (\<forall>x. r = Inr x \<longrightarrow> True)" using s t by (auto simp: sftp_inv_def)
qed

lemma list_all_path_update:
  "list_all (\<lambda>h. P (h_path h)) hs \<Longrightarrow> list_all (\<lambda>h. P (h_path h)) (hs[i := (hs ! i)\<lparr>h_use := u\<rparr>])"
  by (rule list_all_update) (simp_all add: list_all_length)

lemma inv_handle_close: "preserves (sftp_inv nd home) (handle_close W i)"
proof (rule ensuresI)
  fix s r and t :: "'a SFTP"
  assume s: "sftp_inv nd home s" and r: "handle_close W i s = (r, t)"
  then have h: "handles_inv s" by (simp add: sftp_inv_def)
  have t: "handles_inv t" "t = s\<lparr>f_handles := f_handles t, f_unusedHandles := f_unusedHandles t, f_world := f_world t\<rparr>"
    using handle_close_run [OF h, of W i] r by auto
  have "list_all (\<lambda>h. home_path home (h_path h)) (f_handles t)"
    using s r
    by (auto simp: handle_close_def handle_unused_def winP_def run_simps sftp_inv_def
        intro!: list_all_path_update split: if_splits prod.splits)
  moreover have "f_iqueue t = f_iqueue s" "f_home t = f_home s" "f_paths t = f_paths s"
    using t(2) by (metis SFTP.select_convs SFTP.surjective SFTP.update_convs)+
  ultimately show "sftp_inv nd home t \<and> (\<forall>x. r = Inr x \<longrightarrow> True)" using s t(1) by (auto simp: sftp_inv_def)
qed

lemma inv_bind: "preserves (sftp_inv nd home) m \<Longrightarrow> (\<And>x. preserves (sftp_inv nd home) (k x)) \<Longrightarrow>
    preserves (sftp_inv nd home) (bindP m k)"
  by (rule ensures_bind)

lemma inv_bind_path:
  "good_home home \<Longrightarrow> (\<And>p. home_path home p \<Longrightarrow> preserves (sftp_inv nd home) (k p)) \<Longrightarrow>
     preserves (sftp_inv nd home) (bindP (make_path W nd name) k)"
  by (rule ensures_bind [OF inv_make_path])

lemma inv_bind_handle_path:
  "(\<And>p. home_path home p \<Longrightarrow> preserves (sftp_inv nd home) (k p)) \<Longrightarrow>
     preserves (sftp_inv nd home) (bindP (handle_to_path i) k)"
  by (rule ensures_bind [where P = "home_path home"])
     (auto simp: ensures_def handle_to_path_def handle_is_ok_def sftp_inv_def list_all_length)

lemma inv_quiet:
  "preserves (sftp_inv nd home) (handle_to_name nd i)" "preserves (sftp_inv nd home) (handle_to_dir i)"
  "preserves (sftp_inv nd home) (handle_to_fh i)" "preserves (sftp_inv nd home) (handle_from_string W d)"
  "preserves (sftp_inv nd home) (handle_bytes_read i)" "preserves (sftp_inv nd home) (handle_bytes_write i)"
  "preserves (sftp_inv nd home) (last_error W)"
  by (auto simp: ensures_def handle_to_name_def handle_to_dir_def handle_to_fh_def handle_from_string_def
      handle_bytes_read_def handle_bytes_write_def last_error_def getP_def Let_def)

lemma inv_handle_update:
  "preserves (sftp_inv nd home) (handle_update_read i n)" "preserves (sftp_inv nd home) (handle_update_write i n)"
  by (auto simp: handle_update_read_def handle_update_write_def intro!: ensures_mod inv_set_handle)

lemmas inv_steps = inv_bind_path inv_bind_handle_path ensures_lift_bind inv_bind inv_get inv_win inv_send inv_quiet
  inv_handle_update inv_handle_close ensures_cases ensures_basic TrueI

lemma inv_replies:
  "preserves (sftp_inv nd home) (send_status rid status)" "preserves (sftp_inv nd home) (send_data_or_handle ty rid d)"
  "preserves (sftp_inv nd home) (send_names rid stats)" "preserves (sftp_inv nd home) (send_attrib rid a)"
  unfolding send_status_def send_data_or_handle_def send_names_def send_attrib_def by (rule inv_steps)+

lemma inv_try: "preserves (sftp_inv nd home) m \<Longrightarrow> preserves (sftp_inv nd home) (tryP rethrow m)"
  unfolding tryP_def by (rule ensures_catch inv_steps | assumption)+

lemma inv_guarded:
  "(\<And>rid. preserves (sftp_inv nd home) (body rid)) \<Longrightarrow> preserves (sftp_inv nd home) (guarded W rethrow body)"
  unfolding guarded_def by (rule inv_try inv_steps | assumption)+

lemma inv_give_handle:
  "home_path home path \<Longrightarrow> use \<noteq> HANDLE_UNUSED \<Longrightarrow> preserves (sftp_inv nd home) (give_handle W rid use path fh dirp h)"
  unfolding give_handle_def error_status_def send_handle_def
  by (rule inv_handle_new inv_replies inv_steps | assumption)+

lemma inv_small:
  "preserves (sftp_inv nd home) (get_handle W)" "preserves (sftp_inv nd home) (handle_log_close nd i)"
  "preserves (sftp_inv nd home) (error_status W)" "preserves (sftp_inv nd home) (status_of W ok)"
  "preserves (sftp_inv nd home) (send_failure r)" "preserves (sftp_inv nd home) sftp_server_cleanup_exit"
  unfolding get_handle_def handle_log_close_def error_status_def status_of_def send_failure_def sftp_server_cleanup_exit_def
  by (rule inv_replies inv_steps)+

lemma inv_call:
  "home_path home p \<Longrightarrow> get_for_call nd p = Inr c \<Longrightarrow> preserves (sftp_inv nd home) (pathP [c] f)"
  "home_path home p \<Longrightarrow> get_mask_for_dir_search nd p = Inr c \<Longrightarrow> preserves (sftp_inv nd home) (pathP [c] f)"
  by (rule inv_path; auto simp: home_path_def intro: confined_call)+

lemmas inv_all = inv_guarded inv_try inv_give_handle inv_small inv_replies inv_steps inv_call

section \<open>The handlers\<close>

lemma inv_bodies:
  "good_home home \<Longrightarrow> preserves (sftp_inv nd home) (open_body W nd rid)"
  "good_home home \<Longrightarrow> preserves (sftp_inv nd home) (stat_body W nd rid)"
  "good_home home \<Longrightarrow> preserves (sftp_inv nd home) (opendir_body W nd rid)"
  "good_home home \<Longrightarrow> preserves (sftp_inv nd home) (realpath_body W nd rid)"
  unfolding open_body_def stat_body_def opendir_body_def realpath_body_def
  by (rule inv_all | assumption | simp)+

lemma inv_setstat_body: "good_home home \<Longrightarrow> preserves (sftp_inv nd home) (setstat_body W nd name)"
  unfolding setstat_body_def Let_def by (rule inv_all | assumption)+

lemma inv_files:
  "preserves (sftp_inv nd home) (read_file W rid handle fh off len)"
  "preserves (sftp_inv nd home) (write_file W handle fh off data)"
  "preserves (sftp_inv nd home) (fsetstat_file W fh a)"
  unfolding read_file_def write_file_def fsetstat_file_def set_file_size_def send_data_def Let_def
  by (rule inv_all)+

lemma inv_find_entries: "preserves (sftp_inv nd home) (find_entries W search n stats)"
  by (induction n arbitrary: stats) (simp_all, (rule inv_all | assumption)+)

lemma inv_set_search: "preserves (sftp_inv nd home) (modP (set_handle i (\<lambda>h. h\<lparr>h_searchHandle := x\<rparr>)))"
  "preserves (sftp_inv nd home) (modP (set_handle i (\<lambda>h. h\<lparr>h_searchDone := d\<rparr>)))"
  "preserves (sftp_inv nd home) (modP (set_handle i (\<lambda>h. h\<lparr>h_searchHandle := x, h_searchDone := d\<rparr>)))"
  by (auto intro!: ensures_mod inv_set_handle)

lemma inv_readdir_entries:
  "home_path home dirPath \<Longrightarrow> preserves (sftp_inv nd home) (readdir_entries W nd handle dirPath)"
  unfolding readdir_entries_def by (rule inv_find_entries inv_set_search inv_all | assumption)+

lemma first_dirs_home:
  assumes p: "home_path home p" and k: "nDirs home \<le> k" and f: "first_dirs p k = Inr q"
  shows "home_path home q"
proof -
  have "k \<le> nDirs p" "q = Path.extend \<lparr>p_path = take k (p_path p), p_drive = p_drive p, p_isRelative = p_isRelative p\<rparr>
      (SFTPFilePath.fields (nUserHomePos p))"
    using f by (auto simp: first_dirs_def n_first_dirs_def mk_SFTPFilePath_def res_simps split: if_splits)
  moreover have "take (nDirs home) (take k (p_path p)) = take (nDirs home) (p_path p)" using k by (simp add: min_def)
  ultimately show ?thesis using p k
    by (auto simp: home_path_def below_home_def Path.extend_def SFTPFilePath.fields_def nDirs_def list_all_iff
        dest: in_set_takeD)
qed

lemma inv_create_dirs:
  "home_path home path \<Longrightarrow> nDirs home \<le> k \<Longrightarrow> preserves (sftp_inv nd home) (create_dirs_loop W nd path k n)"
proof (induction n arbitrary: k)
  case (Suc n)
  have rec: "preserves (sftp_inv nd home) (create_dirs_loop W nd path (Suc k) n)" using Suc by simp
  show ?case
    unfolding create_dirs_loop.simps
    by (rule ensures_lift_bind, rule ensures_lift_bind, drule first_dirs_home [OF Suc.prems])
       (rule rec inv_all | assumption)+
qed (simp add: ensures_basic)

lemma inv_mkdir: "good_home home \<Longrightarrow> preserves (sftp_inv nd home) (process_mkdir W nd)"
  unfolding process_mkdir_def create_directory_path_def
  by (rule inv_all inv_create_dirs | assumption | simp add: home_path_def)+

lemma inv_rename_file:
  assumes "confined nd home old" "confined nd home new"
  shows "preserves (sftp_inv nd home) (rename_file W old new)"
proof -
  have p: "preserves (sftp_inv nd home) (pathP [old] f)" "preserves (sftp_inv nd home) (pathP [new] f)"
    "preserves (sftp_inv nd home) (pathP [old, new] g)" "preserves (sftp_inv nd home) (pathP [new, old] g)" for f g
    using assms by (auto intro!: inv_path)
  show ?thesis unfolding rename_file_def move_if_new_def by (rule p inv_all)+
qed

lemma inv_rename: "good_home home \<Longrightarrow> preserves (sftp_inv nd home) (process_rename W nd)"
  unfolding process_rename_def
  by (rule inv_rename_file inv_all | assumption | erule confined_call [rotated], simp add: home_path_def)+

lemma inv_handlers:
  assumes "good_home home"
  shows "preserves (sftp_inv nd home) (process_request W nd type)"
proof -
  note h = inv_bodies [OF assms] inv_setstat_body [OF assms] inv_mkdir [OF assms] inv_rename [OF assms] assms
  show ?thesis
    unfolding process_request_def process_init_def process_open_def process_close_def process_read_def process_write_def
      process_do_stat_def process_fstat_def process_setstat_def setstat_end_def process_fsetstat_def process_opendir_def
      process_readdir_def process_remove_def process_rmdir_def process_realpath_def process_readlink_def process_symlink_def
      process_extended_def Let_def
    by (rule h inv_files inv_readdir_entries inv_set_search inv_all | assumption | rule ensures_mod, simp)+
qed

lemma inv_serve:
  assumes "good_home home"
  shows "preserves (sftp_inv nd home) (serve_message W nd msg)"
proof -
  have put: "preserves (sftp_inv nd home) (setR f_iqueue (\<lambda>b s. s\<lparr>f_iqueue := b\<rparr>) (\<lambda>q. buffer_put_string q msg))"
    by (rule ensures_set, rule sftp_inv_queue, assumption) (simp add: sftp_inv_def, metis put_string_Inr)
  have consume: "preserves (sftp_inv nd home) (setR f_iqueue (\<lambda>b s. s\<lparr>f_iqueue := b\<rparr>) (\<lambda>q. buffer_consume q n))" for n
    by (rule ensures_set, rule sftp_inv_queue, assumption) (simp add: sftp_inv_def, metis consume_inv)
  show ?thesis
    unfolding serve_message_def process_def discard_rest_def Let_def
    by (rule put consume inv_handlers [OF assms] inv_all)+
qed

lemma inv_run: "good_home home \<Longrightarrow> preserves (sftp_inv nd home) (sftp_run W nd msgs)"
proof (induction W nd msgs rule: sftp_run.induct)
  case (2 W nd msg msgs)
  then show ?case unfolding sftp_run.simps by (auto intro!: ensures_cases ensures_basic inv_bind inv_serve)
qed (simp add: ensures_basic)

lemma inv_new:
  assumes "SFTP_new W nd home_dir w = Inr s"
  shows "good_home (f_home s)" "sftp_inv nd (f_home s) s"
proof -
  obtain home where f: "SFTPFilePathFactory nd (fromUTF8 W home_dir) = Inr home"
    and s: "s = \<lparr>f_iqueue = buffer_init, f_home = home, f_handles = [], f_unusedHandles = {}, f_version = garbage_int W,
          f_sent = [], f_world = w, f_paths = []\<rparr>"
    using assms by (auto simp: SFTP_new_def res_simps)
  show "good_home (f_home s)" using factory_home [OF f] by (simp add: s good_home_def)
  show "sftp_inv nd (f_home s) s" by (simp add: s sftp_inv_def handles_inv_def)
qed

section \<open>Replies\<close>

text \<open>\<open>emits P m\<close>: the messages \<open>m\<close> sends satisfy \<open>P\<close> together with what it returns; if it throws, it has sent none.\<close>

definition emits :: "('a \<Rightarrow> byte list list \<Rightarrow> bool) \<Rightarrow> ('w, 'a) sproc \<Rightarrow> bool" where
  "emits P m \<longleftrightarrow> (\<forall>s. \<exists>ms. f_sent (snd (m s)) = f_sent s @ ms \<and>
     (case fst (m s) of Inl e \<Rightarrow> ms = [] | Inr x \<Rightarrow> P x ms))"

abbreviation quiet :: "('w, 'a) sproc \<Rightarrow> bool" where
  "quiet \<equiv> emits (\<lambda>_ ms. ms = [])"

definition reply :: "u32 \<Rightarrow> byte list list \<Rightarrow> bool" where
  "reply rid ms \<longleftrightarrow> (\<exists>ty body. ms = [ty # put_u32 rid @ body])"

definition answered :: "u32 \<Rightarrow> int \<Rightarrow> byte list list \<Rightarrow> bool" where
  "answered rid status ms \<longleftrightarrow> (if status = SSH2_FX_OK then reply rid ms else ms = [])"

lemma emitsI:
  "(\<And>s r t. m s = (r, t) \<Longrightarrow> \<exists>ms. f_sent t = f_sent s @ ms \<and> (case r of Inl e \<Rightarrow> ms = [] | Inr x \<Rightarrow> P x ms)) \<Longrightarrow> emits P m"
  unfolding emits_def by (metis prod.collapse)

lemma emitsD:
  "emits P m \<Longrightarrow> m s = (r, t) \<Longrightarrow> \<exists>ms. f_sent t = f_sent s @ ms \<and> (case r of Inl e \<Rightarrow> ms = [] | Inr x \<Rightarrow> P x ms)"
  unfolding emits_def by (metis fst_conv snd_conv)

lemma emits_bind:
  assumes "quiet m" "\<And>x. emits P (k x)"
  shows "emits P (bindP m k)"
proof (rule emitsI)
  fix s r t
  assume r: "bindP m k s = (r, t)"
  obtain r' u where m: "m s = (r', u)" by fastforce
  have u: "f_sent u = f_sent s" using emitsD [OF assms(1) m] by (auto split: sum.splits)
  show "\<exists>ms. f_sent t = f_sent s @ ms \<and> (case r of Inl e \<Rightarrow> ms = [] | Inr x \<Rightarrow> P x ms)"
  proof (cases r')
    case (Inl e)
    then show ?thesis using r m u by (auto simp: bindP_def)
  next
    case (Inr x)
    then have "k x u = (r, t)" using r m by (simp add: bindP_def)
    then show ?thesis using emitsD [OF assms(2)] u by metis
  qed
qed

text \<open>After the reply only statements that do not throw.\<close>

lemma emits_then:
  assumes "emits (\<lambda>_. Q) m" "\<And>x s. \<exists>y t. k x s = (Inr y, t) \<and> f_sent t = f_sent s \<and> (\<forall>ms. Q ms \<longrightarrow> P y ms)"
  shows "emits P (bindP m k)"
proof (rule emitsI)
  fix s r t
  assume r: "bindP m k s = (r, t)"
  obtain r' u where m: "m s = (r', u)" by fastforce
  obtain ms where ms: "f_sent u = f_sent s @ ms" "case r' of Inl e \<Rightarrow> ms = [] | Inr x \<Rightarrow> Q ms"
    using emitsD [OF assms(1) m] by blast
  show "\<exists>ms. f_sent t = f_sent s @ ms \<and> (case r of Inl e \<Rightarrow> ms = [] | Inr x \<Rightarrow> P x ms)"
  proof (cases r')
    case (Inl e)
    then show ?thesis using r m ms by (auto simp: bindP_def)
  next
    case (Inr x)
    then have "k x u = (r, t)" using r m by (simp add: bindP_def)
    then show ?thesis using assms(2) [of x u] ms Inr by auto
  qed
qed

lemma emits_basic:
  "P x [] \<Longrightarrow> emits P (retP x)" "emits P (raiseP e)" "(\<And>y. P y []) \<Longrightarrow> emits P (getP f)" "(\<And>y. P y []) \<Longrightarrow> emits P (liftR r)"
  by (auto simp: emits_def retP_def raiseP_def getP_def liftR_def split: sum.split)

lemma emits_cases:
  "(c \<Longrightarrow> emits P m) \<Longrightarrow> (\<not> c \<Longrightarrow> emits P n) \<Longrightarrow> emits P (if c then m else n)"
  "(c \<Longrightarrow> quiet q) \<Longrightarrow> quiet (whenP c q)"
  "emits P m \<Longrightarrow> (\<And>x. o1 = Some x \<Longrightarrow> emits P (k x)) \<Longrightarrow> emits P (case o1 of None \<Rightarrow> m | Some x \<Rightarrow> k x)"
  "(\<And>x y. emits P (l x y)) \<Longrightarrow> emits P (case z of (x, y) \<Rightarrow> l x y)"
  by (auto simp: whenP_def emits_basic split: option.split prod.split)

lemma quiet_state:
  "(\<And>x s. f_sent (upd x s) = f_sent s) \<Longrightarrow> quiet (updR sel upd f)"
  "(\<And>x s. f_sent (upd x s) = f_sent s) \<Longrightarrow> quiet (setR sel upd g)"
  "(\<And>s. f_sent (h s) = f_sent s) \<Longrightarrow> quiet (modP h)"
  by (auto simp: emits_def updR_def setR_def modP_def split: sum.split)

lemma quiet_calls:
  "quiet (winP c)" "quiet (pathP ps c)" "quiet (last_error W)" "quiet (handle_new use path fh dirp)" "quiet (handle_to_name nd i)"
  "quiet (handle_to_dir i)" "quiet (handle_to_fh i)" "quiet (handle_to_path i)" "quiet (handle_from_string W d)"
  "quiet (handle_update_read i n)" "quiet (handle_update_write i n)" "quiet (handle_bytes_read i)" "quiet (handle_bytes_write i)"
  by (auto simp: emits_def winP_def pathP_def last_error_def handle_new_def handle_to_name_def handle_to_dir_def handle_to_fh_def
      handle_to_path_def handle_from_string_def handle_update_read_def handle_update_write_def set_handle_def
      handle_bytes_read_def handle_bytes_write_def run_simps Let_def split: prod.splits sum.splits)

lemmas quiet_rules = emits_bind emits_cases quiet_calls quiet_state emits_basic

lemma quiet_small:
  "quiet (get_handle W)" "quiet (handle_log_close nd i)" "quiet (handle_close W i)" "quiet (make_path W nd name)"
  "quiet (error_status W)" "quiet (status_of W ok)"
  unfolding get_handle_def handle_log_close_def handle_close_def handle_unused_def make_path_def error_status_def status_of_def
  by (rule quiet_rules refl | simp)+

text \<open>The messages.\<close>

lemma emits_send:
  assumes "\<And>m. r = Inr m \<Longrightarrow> \<exists>ty body. bytes m = ty # put_u32 rid @ body"
  shows "emits (\<lambda>_. reply rid) (bindP (liftR r) send_msg)"
  using assms by (auto simp: emits_def bindP_def liftR_def send_msg_def modP_def reply_def split: sum.splits)

lemma head_bytes:
  assumes "bindR (buffer_put_char buffer_init ty) (\<lambda>msg. bindR (buffer_put_int msg rid) k) = Inr m"
    and "\<And>b. buffer_inv b \<Longrightarrow> k b = Inr m \<Longrightarrow> buffer_inv m \<and> (\<exists>d. bytes m = bytes b @ d)"
  shows "\<exists>ty body. bytes m = ty # put_u32 rid @ body"
proof -
  obtain b1 b2 where 1: "buffer_put_char buffer_init ty = Inr b1" and 2: "buffer_put_int b1 rid = Inr b2" and k: "k b2 = Inr m"
    using assms(1) by (auto simp: bindR_eq_Inr)
  have b1: "buffer_inv b1" "bytes b1 = [ty]" using wchar.put_Inr [OF _ 1] by simp_all
  have b2: "buffer_inv b2" "bytes b2 = ty # put_u32 rid" using wint.put_Inr [OF b1(1) 2] b1(2) by simp_all
  show ?thesis using assms(2) [OF b2(1) k] b2(2) by auto
qed

definition appends :: "(Buffer \<Rightarrow> Buffer res) \<Rightarrow> bool" where
  "appends f \<longleftrightarrow> (\<forall>b m. buffer_inv b \<longrightarrow> f b = Inr m \<longrightarrow> buffer_inv m \<and> (\<exists>d. bytes m = bytes b @ d))"

lemma appendsI: "(\<And>b m. buffer_inv b \<Longrightarrow> f b = Inr m \<Longrightarrow> buffer_inv m \<and> bytes m = bytes b @ img) \<Longrightarrow> appends f"
  unfolding appends_def by blast

lemma appends_bind:
  assumes "appends f" "appends g"
  shows "appends (\<lambda>b. bindR (f b) g)"
  unfolding appends_def
proof (intro allI impI)
  fix b m
  assume b: "buffer_inv b" and r: "bindR (f b) g = Inr m"
  obtain c where c: "f b = Inr c" "g c = Inr m" using r by (auto simp: bindR_eq_Inr)
  obtain d where d: "buffer_inv c" "bytes c = bytes b @ d" using assms(1) b c(1) unfolding appends_def by metis
  obtain e where "buffer_inv m" "bytes m = bytes c @ e" using assms(2) d(1) c(2) unfolding appends_def by metis
  then show "buffer_inv m \<and> (\<exists>d. bytes m = bytes b @ d)" using d(2) by simp
qed

lemma appends_if: "appends f \<Longrightarrow> appends g \<Longrightarrow> appends (\<lambda>b. if c then f b else g b)"
  by (cases c) simp_all

lemma appends_put:
  "appends (\<lambda>b. buffer_put_int b v)" "appends (\<lambda>b. buffer_put_string b d)" "appends (\<lambda>b. encode_attrib b a)"
  "appends (\<lambda>b. buffer_put_cstring b c)" "appends Inr"
proof -
  show string: "appends (\<lambda>b. buffer_put_string b d)" for d by (rule appendsI) (erule (1) put_string_Inr)
  show "appends (\<lambda>b. buffer_put_int b v)" by (rule appendsI) (erule (1) wint.put_Inr)
  show "appends (\<lambda>b. encode_attrib b a)" by (rule appendsI) (erule (1) encode_attrib_Inr)
  show "appends (\<lambda>b. buffer_put_cstring b c)"
    using string by (cases c) (simp_all add: buffer_put_cstring_def appends_def)
  show "appends Inr" by (simp add: appends_def)
qed

lemma appends_names: "appends (put_names stats)"
proof (induction stats)
  case (Cons st stats)
  then show ?case unfolding put_names.simps by (intro appends_bind appends_put)
qed (simp add: appends_put)

lemma emits_replies:
  "emits (\<lambda>_. reply rid) (send_data_or_handle ty rid d)" "emits (\<lambda>_. reply rid) (send_names rid stats)"
  "emits (\<lambda>_. reply rid) (send_attrib rid a)" "emits (\<lambda>_. reply rid) (send_status rid status)"
proof -
  have head: "\<exists>ty body. bytes m = ty # put_u32 rid @ body"
    if "appends k" "bindR (buffer_put_char buffer_init t) (\<lambda>msg. bindR (buffer_put_int msg rid) k) = Inr m" for t k m
    by (rule head_bytes [OF that(2)]) (use that(1) in \<open>auto simp: appends_def\<close>)
  show "emits (\<lambda>_. reply rid) (send_data_or_handle ty rid d)" "emits (\<lambda>_. reply rid) (send_attrib rid a)"
    unfolding send_data_or_handle_def send_attrib_def by (rule emits_send, rule head [rotated], assumption, rule appends_put)+
  show "emits (\<lambda>_. reply rid) (send_names rid stats)"
    unfolding send_names_def by (rule emits_send, rule head [rotated], assumption) (intro appends_bind appends_put appends_names)
  have status: "appends (\<lambda>msg. bindR (buffer_put_int msg (of_int status)) (\<lambda>msg. if v \<ge> 3 then
         bindR (buffer_put_cstring msg (Some (bytes_of_string (status_to_message (of_int status))))) (\<lambda>msg.
         buffer_put_cstring msg (Some [])) else Inr msg))" for v :: int
    by (intro appends_bind appends_if appends_put)
  show "emits (\<lambda>_. reply rid) (send_status rid status)"
    unfolding send_status_def status_msg_def
    by (rule emits_bind, rule emits_basic, rule refl, rule emits_send, rule head [OF status])
qed

section \<open>Every request is answered once\<close>

text \<open>What Windows documents: when one of these calls fails, the last error tells why.\<close>

definition reports_errors :: "'w win32 \<Rightarrow> bool" where
  "reports_errors W \<longleftrightarrow>
     (\<forall>c a m d f w w'. CreateFileW W c a m d f w = (INVALID_HANDLE_VALUE, w') \<longrightarrow> GetLastError W w' \<noteq> 0) \<and>
     (\<forall>c w w'. GetFileAttributesExW W c w = (None, w') \<longrightarrow> GetLastError W w' \<noteq> 0) \<and>
     (\<forall>h w w'. GetFileInformationByHandle W h w = (None, w') \<longrightarrow> GetLastError W w' \<noteq> 0) \<and>
     (\<forall>h n w w'. ReadFile W h n w = (None, w') \<longrightarrow> GetLastError W w' \<noteq> 0)"

lemma errno_not_ok: "err \<noteq> 0 \<Longrightarrow> errno_to_portable err \<noteq> SSH2_FX_OK"
  by (simp add: errno_to_portable_def fx_consts)

lemma error_status_run: "error_status W s = (Inr (errno_to_portable (GetLastError W (f_world s))), s)"
  by (simp add: error_status_def last_error_def run_simps)

lemma win_run: "winP f s = (Inr x, t) \<Longrightarrow> f (f_world s) = (x, f_world t)"
  "pathP ps f s = (Inr x, t) \<Longrightarrow> f (f_world s) = (x, f_world t)"
  by (auto simp: winP_def pathP_def bindP_def modP_def split: prod.splits)

text \<open>A call that may fail, followed by the two ways to go on.\<close>

lemma emits_call:
  assumes "quiet m" "\<And>s x t. m s = (Inr x, t) \<Longrightarrow> bad x \<Longrightarrow> GetLastError W (f_world t) \<noteq> 0"
    and "\<And>x. bad x \<Longrightarrow> k x = error_status W" "\<And>x. \<not> bad x \<Longrightarrow> emits (answered rid) (k x)"
  shows "emits (answered rid) (bindP m k)"
proof (rule emitsI)
  fix s r t
  assume r: "bindP m k s = (r, t)"
  obtain r' u where m: "m s = (r', u)" by fastforce
  have u: "f_sent u = f_sent s" using emitsD [OF assms(1) m] by (auto split: sum.splits)
  consider e where "r' = Inl e" | x where "r' = Inr x" "bad x" | x where "r' = Inr x" "\<not> bad x" by (cases r') auto
  then show "\<exists>ms. f_sent t = f_sent s @ ms \<and> (case r of Inl e \<Rightarrow> ms = [] | Inr x \<Rightarrow> answered rid x ms)"
  proof cases
    case 1
    then show ?thesis using r m u by (auto simp: bindP_def)
  next
    case 2
    then have "GetLastError W (f_world u) \<noteq> 0" using assms(2) m by blast
    moreover have "error_status W u = (r, t)" using r m 2 assms(3) by (simp add: bindP_def)
    ultimately show ?thesis using u errno_not_ok by (auto simp: error_status_run answered_def)
  next
    case 3
    then have "k x u = (r, t)" using r m by (simp add: bindP_def)
    then show ?thesis using emitsD [OF assms(4) [OF 3(2)]] u by metis
  qed
qed

lemma emits_ret_ok: "emits (\<lambda>_. reply rid) m \<Longrightarrow> emits (answered rid) (bindP m (\<lambda>_. retP SSH2_FX_OK))"
  by (erule emits_then) (simp add: retP_def answered_def)

lemma answered_fail: "status \<noteq> SSH2_FX_OK \<Longrightarrow> answered rid status []"
  by (simp add: answered_def)

lemma emits_give_handle:
  assumes "h \<noteq> INVALID_HANDLE_VALUE"
  shows "emits (answered rid) (give_handle W rid use path fh dirp h)"
  unfolding give_handle_def send_handle_def using assms
  by (auto intro!: emits_bind emits_cases emits_ret_ok emits_replies quiet_calls emits_basic answered_fail simp: fx_consts)

lemma emits_bodies:
  assumes "reports_errors W"
  shows "emits (answered rid) (open_body W nd rid)" "emits (answered rid) (stat_body W nd rid)"
    "emits (answered rid) (opendir_body W nd rid)" "emits (answered rid) (realpath_body W nd rid)"
proof -
  note E = assms [unfolded reports_errors_def]
  have create: "emits (answered rid) (bindP (pathP ps (CreateFileW W c a m d f)) (\<lambda>h. give_handle W rid use path (g h) (g' h) h))"
    for ps c a m d f use path g g'
    by (rule emits_call [where bad = "\<lambda>h. h = INVALID_HANDLE_VALUE" and W = W])
       (use E in \<open>auto simp: quiet_calls give_handle_def [of _ _ _ _ _ _ "INVALID_HANDLE_VALUE"] emits_give_handle dest!: win_run\<close>)
  have stat: "emits (answered rid) (bindP (pathP ps (GetFileAttributesExW W c))
      (\<lambda>r. case r of None \<Rightarrow> error_status W | Some st \<Rightarrow> bindP (send_attrib rid (stat_to_attrib st)) (\<lambda>_. retP SSH2_FX_OK)))"
    for ps c
    by (rule emits_call [where bad = "\<lambda>r. r = None" and W = W])
       (use E in \<open>auto simp: quiet_calls emits_ret_ok emits_replies dest!: win_run\<close>)
  show "emits (answered rid) (open_body W nd rid)" "emits (answered rid) (stat_body W nd rid)"
    "emits (answered rid) (opendir_body W nd rid)" "emits (answered rid) (realpath_body W nd rid)"
    unfolding open_body_def stat_body_def opendir_body_def realpath_body_def sftp_server_cleanup_exit_def
    by (rule create stat emits_ret_ok emits_replies emits_bind quiet_small quiet_calls emits_cases emits_basic quiet_state refl | simp)+
qed

text \<open>The same for normal returns only, since \<open>process_setstat\<close> may fault after its reply.\<close>

definition returns_with :: "('a \<Rightarrow> byte list list \<Rightarrow> bool) \<Rightarrow> ('w, 'a) sproc \<Rightarrow> bool" where
  "returns_with P m \<longleftrightarrow> (\<forall>s x t. m s = (Inr x, t) \<longrightarrow> (\<exists>ms. f_sent t = f_sent s @ ms \<and> P x ms))"

lemma returns_emits: "emits P m \<Longrightarrow> returns_with P m"
  unfolding returns_with_def using emitsD by fastforce

lemma returns_bind:
  assumes "quiet m" "\<And>x. returns_with P (k x)"
  shows "returns_with P (bindP m k)"
  unfolding returns_with_def
proof (intro allI impI)
  fix s y t
  assume "bindP m k s = (Inr y, t)"
  then obtain x u where x: "m s = (Inr x, u)" "k x u = (Inr y, t)" by (auto simp: bindP_Inr)
  have "f_sent u = f_sent s" using emitsD [OF assms(1) x(1)] by auto
  then show "\<exists>ms. f_sent t = f_sent s @ ms \<and> P y ms" using assms(2) [of x] x(2) unfolding returns_with_def by metis
qed

lemma returns_sum:
  "(\<And>e. returns_with P (f e)) \<Longrightarrow> (\<And>x. returns_with P (g x)) \<Longrightarrow> returns_with P (case r of Inl e \<Rightarrow> f e | Inr x \<Rightarrow> g x)"
  by (cases r) simp_all

lemma quiet_try: "quiet m \<Longrightarrow> quiet (tryP rethrow m)"
  unfolding emits_def tryP_def catchP_def bindP_def retP_def raiseP_def
  by (auto split: prod.splits sum.splits dest: spec) (metis append_Nil2 fst_conv snd_conv old.sum.simps(5,6))+

lemma emits_try:
  assumes "emits (answered rid) m"
  shows "emits (\<lambda>r. answered rid (case r of Inl _ \<Rightarrow> SSH2_FX_FAILURE | Inr status \<Rightarrow> status)) (tryP rethrow m)"
proof (rule emitsI)
  fix s r t
  assume r: "tryP rethrow m s = (r, t)"
  obtain r' u where m: "m s = (r', u)" by fastforce
  obtain ms where "f_sent u = f_sent s @ ms" "case r' of Inl e \<Rightarrow> ms = [] | Inr x \<Rightarrow> answered rid x ms"
    using emitsD [OF assms m] by blast
  then show "\<exists>ms. f_sent t = f_sent s @ ms \<and>
      (case r of Inl e \<Rightarrow> ms = [] | Inr x \<Rightarrow> answered rid (case x of Inl _ \<Rightarrow> SSH2_FX_FAILURE | Inr status \<Rightarrow> status) ms)"
    using r m by (auto simp: tryP_def catchP_def bindP_def retP_def raiseP_def answered_def fx_consts split: sum.splits if_splits)
qed

definition answers :: "('w, unit) sproc \<Rightarrow> bool" where
  "answers m \<longleftrightarrow> (\<forall>s rid rest t. buffer_inv (f_iqueue s) \<longrightarrow> bytes (f_iqueue s) = put_u32 rid @ rest \<longrightarrow> m s = (Inr (), t) \<longrightarrow>
     (\<exists>ms. f_sent t = f_sent s @ ms \<and> reply rid ms))"

lemma answersD: "answers m \<Longrightarrow> buffer_inv (f_iqueue s) \<Longrightarrow> bytes (f_iqueue s) = put_u32 rid @ rest \<Longrightarrow> m s = (Inr (), t) \<Longrightarrow>
    \<exists>ms. f_sent t = f_sent s @ ms \<and> reply rid ms"
  unfolding answers_def by blast

lemma get_id_run:
  assumes "buffer_inv (f_iqueue s)" "bytes (f_iqueue s) = put_u32 rid @ rest"
  shows "\<exists>q. on_iqueue buffer_get_int s = (Inr rid, s\<lparr>f_iqueue := q\<rparr>) \<and> buffer_inv q \<and> bytes q = rest"
  using wint.get_ok [OF assms(1) _ assms(2)] by (auto simp: updR_def)

lemma answers_bind:
  assumes "\<And>rid. returns_with (\<lambda>_. reply rid) (k rid)"
  shows "answers (bindP (on_iqueue buffer_get_int) k)"
  unfolding answers_def
proof (intro allI impI)
  fix s rid rest t
  assume "buffer_inv (f_iqueue s)" "bytes (f_iqueue s) = put_u32 rid @ rest"
    and r: "bindP (on_iqueue buffer_get_int) k s = (Inr (), t)"
  then obtain q where "on_iqueue buffer_get_int s = (Inr rid, s\<lparr>f_iqueue := q\<rparr>)" using get_id_run by blast
  then have "k rid (s\<lparr>f_iqueue := q\<rparr>) = (Inr (), t)" using r by (simp add: bindP_run)
  then show "\<exists>ms. f_sent t = f_sent s @ ms \<and> reply rid ms" using assms [of rid] unfolding returns_with_def by force
qed

lemma try_run: "m s = (Inr x, t) \<Longrightarrow> tryP rethrow m s = (Inr (Inr x), t)"
  by (simp add: tryP_def catchP_def bindP_def retP_def)

lemma guarded_run:
  assumes "buffer_inv (f_iqueue s)" "bytes (f_iqueue s) = put_u32 rid @ rest"
  shows "\<exists>q. buffer_inv q \<and> bytes q = rest \<and> guarded W rethrow body s =
    bindP (tryP rethrow (body rid)) (\<lambda>r. retP (rid, case r of Inl _ \<Rightarrow> SSH2_FX_FAILURE | Inr status \<Rightarrow> status)) (s\<lparr>f_iqueue := q\<rparr>)"
proof -
  obtain q where q: "on_iqueue buffer_get_int s = (Inr rid, s\<lparr>f_iqueue := q\<rparr>)" "buffer_inv q" "bytes q = rest"
    using get_id_run [OF assms] by blast
  have "tryP rethrow (on_iqueue buffer_get_int) s = (Inr (Inr rid), s\<lparr>f_iqueue := q\<rparr>)" using q(1) by (rule try_run)
  then show ?thesis using q(2,3)
    by (intro exI [of _ q]) (auto simp: guarded_def bindP_def retP_def split: prod.split sum.split)
qed

lemma answers_try:
  assumes "\<And>rid. returns_with (\<lambda>_. reply rid) (g rid)"
  shows "answers (bindP (tryP False (on_iqueue buffer_get_int)) (\<lambda>r. case r of Inl e \<Rightarrow> f e | Inr rid \<Rightarrow> g rid))"
  unfolding answers_def
proof (intro allI impI)
  fix s rid rest t
  assume s: "buffer_inv (f_iqueue s)" "bytes (f_iqueue s) = put_u32 rid @ rest"
    and r: "bindP (tryP False (on_iqueue buffer_get_int)) (\<lambda>r. case r of Inl e \<Rightarrow> f e | Inr rid \<Rightarrow> g rid) s = (Inr (), t)"
  obtain q where "on_iqueue buffer_get_int s = (Inr rid, s\<lparr>f_iqueue := q\<rparr>)" using get_id_run [OF s] by blast
  then have "tryP False (on_iqueue buffer_get_int) s = (Inr (Inr rid), s\<lparr>f_iqueue := q\<rparr>)" by (rule try_run)
  then have "g rid (s\<lparr>f_iqueue := q\<rparr>) = (Inr (), t)" using r by (simp add: bindP_run)
  then show "\<exists>ms. f_sent t = f_sent s @ ms \<and> reply rid ms" using assms [of rid] unfolding returns_with_def by force
qed

lemma emits_send_failure: "answered rid status ms \<Longrightarrow> send_failure (rid, status) s = (Inr (), t) \<Longrightarrow>
    \<exists>ms'. f_sent t = f_sent s @ ms' \<and> reply rid (ms @ ms')"
  using emitsD [OF emits_replies(4), of rid status s "Inr ()" t]
  by (auto simp: send_failure_def answered_def retP_def split: if_splits)

lemma answers_guarded:
  assumes "\<And>rid. emits (answered rid) (body rid)"
  shows "answers (bindP (guarded W rethrow body) send_failure)"
  unfolding answers_def
proof (intro allI impI)
  fix s rid rest t
  assume s: "buffer_inv (f_iqueue s)" "bytes (f_iqueue s) = put_u32 rid @ rest"
    and r: "bindP (guarded W rethrow body) send_failure s = (Inr (), t)"
  obtain q where q: "guarded W rethrow body s = bindP (tryP rethrow (body rid))
      (\<lambda>r. retP (rid, case r of Inl _ \<Rightarrow> SSH2_FX_FAILURE | Inr status \<Rightarrow> status)) (s\<lparr>f_iqueue := q\<rparr>)"
    using guarded_run [OF s] by blast
  obtain x u where x: "tryP rethrow (body rid) (s\<lparr>f_iqueue := q\<rparr>) = (Inr x, u)"
    and f: "send_failure (rid, case x of Inl _ \<Rightarrow> SSH2_FX_FAILURE | Inr status \<Rightarrow> status) u = (Inr (), t)"
    using r by (auto simp: bindP_Inr q retP_def)
  obtain ms where ms: "f_sent u = f_sent s @ ms" "answered rid (case x of Inl _ \<Rightarrow> SSH2_FX_FAILURE | Inr status \<Rightarrow> status) ms"
    using emitsD [OF emits_try [OF assms] x] by auto
  show "\<exists>ms. f_sent t = f_sent s @ ms \<and> reply rid ms" using emits_send_failure [OF ms(2) f] ms(1) by auto
qed

lemma returns_failure:
  assumes "emits (answered rid) m"
  shows "returns_with (\<lambda>_. reply rid) (bindP m (\<lambda>status. send_failure (rid, status)))"
  unfolding returns_with_def
proof (intro allI impI)
  fix s y t
  assume "bindP m (\<lambda>status. send_failure (rid, status)) s = (Inr y, t)"
  then obtain x u where x: "m s = (Inr x, u)" "send_failure (rid, x) u = (Inr (), t)" by (auto simp: bindP_Inr)
  obtain ms where ms: "f_sent u = f_sent s @ ms" "answered rid x ms" using emitsD [OF assms x(1)] by auto
  show "\<exists>ms. f_sent t = f_sent s @ ms \<and> reply rid ms" using emits_send_failure [OF ms(2) x(2)] ms(1) by auto
qed

lemma fx_neq: "SSH2_FX_EOF \<noteq> SSH2_FX_OK" "SSH2_FX_FAILURE \<noteq> SSH2_FX_OK"
  by (simp_all add: fx_consts)

lemma emits_read:
  assumes "reports_errors W"
  shows "emits (answered rid) (read_file W rid handle fh off len)"
proof -
  have update: "emits (answered rid) (bindP (send_data rid d) (\<lambda>_. bindP (handle_update_read handle n) (\<lambda>_. retP SSH2_FX_OK)))"
    for d n
    unfolding send_data_def
    by (rule emits_then [OF emits_replies(1)]) (auto simp: handle_update_read_def set_handle_def run_simps answered_def)
  have eof: "emits (answered rid) (bindP (last_error W) (\<lambda>err. retP (if err = 0 then SSH2_FX_EOF else errno_to_portable err)))"
    by (rule emits_bind [OF quiet_calls(3)])
       (auto intro!: emits_basic answered_fail simp: errno_not_ok fx_neq)
  have read: "emits (answered rid) (bindP (winP (ReadFile W fh n)) (\<lambda>r. case r of None \<Rightarrow> error_status W
         | Some data \<Rightarrow> if data = [] then retP SSH2_FX_EOF
           else bindP (send_data rid data) (\<lambda>_. bindP (handle_update_read handle (int (length data))) (\<lambda>_. retP SSH2_FX_OK))))" for n
  proof (rule emits_call [where bad = "\<lambda>r. r = None" and W = W])
    show "GetLastError W (f_world t) \<noteq> 0" if "winP (ReadFile W fh n) s = (Inr x, t)" "x = None" for s x t
      using assms that by (auto simp: reports_errors_def dest!: win_run)
    show "emits (answered rid) (case x of None \<Rightarrow> error_status W
         | Some data \<Rightarrow> if data = [] then retP SSH2_FX_EOF
           else bindP (send_data rid data) (\<lambda>_. bindP (handle_update_read handle (int (length data))) (\<lambda>_. retP SSH2_FX_OK)))"
      if "x \<noteq> None" for x
      using that update by (cases x) (auto intro!: emits_basic answered_fail simp: fx_neq)
  qed (simp_all add: quiet_calls)
  show ?thesis unfolding read_file_def
    by (rule emits_bind [OF quiet_calls(1)], rule emits_cases(1), rule eof, rule read)
qed

lemma emits_fstat:
  assumes "reports_errors W"
  shows "emits (answered rid) (bindP (winP (GetFileInformationByHandle W fh))
      (\<lambda>r. case r of None \<Rightarrow> error_status W | Some st \<Rightarrow> bindP (send_attrib rid (stat_to_attrib st)) (\<lambda>_. retP SSH2_FX_OK)))"
  by (rule emits_call [where bad = "\<lambda>r. r = None" and W = W])
     (use assms in \<open>auto simp: quiet_calls emits_ret_ok emits_replies reports_errors_def dest!: win_run\<close>)

lemma emits_fixed: "emits (answered rid) (retP SSH2_FX_FAILURE)"
  by (rule emits_basic) (simp add: answered_def fx_consts)

lemma returns_setstat_end: "returns_with (\<lambda>_. reply rid) (setstat_end W named rid status)"
  unfolding returns_with_def setstat_end_def
  using emitsD [OF emits_replies(4), of rid status]
  by (fastforce simp: bindP_Inr retP_def raiseP_def split: if_splits)

lemma quiet_bodies:
  "quiet (write_file W handle fh off data)" "quiet (fsetstat_file W fh a)" "quiet (setstat_body W nd name)"
  "quiet (rename_file W old new)"
  unfolding write_file_def fsetstat_file_def set_file_size_def setstat_body_def rename_file_def move_if_new_def Let_def
  by (rule quiet_rules quiet_small refl | simp)+

lemma quiet_find: "quiet (find_entries W search n stats)"
  by (induction n arbitrary: stats) (simp_all, (rule quiet_rules refl | assumption)+)

lemma quiet_create: "quiet (create_dirs_loop W nd path k n)"
  by (induction n arbitrary: k) (simp_all, (rule quiet_rules refl | assumption)+)

lemma quiet_dirs: "quiet (readdir_entries W nd handle path)" "quiet (create_directory_path W nd path)"
  unfolding readdir_entries_def create_directory_path_def set_handle_def
  by (rule quiet_rules quiet_find quiet_create refl | simp)+

text \<open>The requests that carry an id: all but \<open>SSH2_FXP_INIT\<close>.\<close>

definition request_types :: "byte list" where
  "request_types = [3, 4, 5, 6, 7, 8, 9, 10, 11, 12, 13, 14, 15, 16, 17, 18, 19, 20, 200]"

lemma answers_request:
  assumes "reports_errors W" "type \<in> set request_types"
  shows "answers (process_request W nd type)"
proof -
  note bodies = emits_bodies [OF assms(1)] emits_read [OF assms(1)] emits_fstat [OF assms(1)] emits_fixed
  note quiets = quiet_bodies quiet_dirs quiet_small quiet_rules quiet_try
  have "answers (process_open W nd)" "answers (process_do_stat W nd)" "answers (process_opendir W nd)" "answers (process_realpath W nd)"
    unfolding process_open_def process_do_stat_def process_opendir_def process_realpath_def
    by (rule answers_guarded, rule bodies)+
  moreover have "answers (process_close W nd)" "answers (process_write W)" "answers (process_fsetstat W)" "answers (process_remove W nd)"
    "answers (process_rmdir W nd)" "answers process_readlink" "answers process_symlink" "answers process_extended"
    unfolding process_close_def process_write_def process_fsetstat_def process_remove_def process_rmdir_def process_readlink_def
      process_symlink_def process_extended_def
    by (rule answers_bind, rule returns_emits, (rule emits_bind emits_replies quiets refl | simp)+)+
  moreover have "answers (process_mkdir W nd)" "answers (process_rename W nd)" "answers (process_readdir W nd)"
    unfolding process_mkdir_def process_rename_def process_readdir_def set_handle_def
    by (rule answers_bind, rule returns_emits, (rule emits_replies emits_bind quiets refl | simp)+)+
  moreover have "answers (process_read W)" "answers (process_fstat W nd)"
    unfolding process_read_def process_fstat_def Let_def
    by (rule answers_bind, (rule returns_failure emits_cases(1) bodies returns_bind quiets refl | simp)+)+
  moreover have "answers (process_setstat W nd)"
    unfolding process_setstat_def
    by (rule answers_try, (rule returns_bind returns_sum returns_setstat_end quiets quiet_state | simp)+)
  ultimately show ?thesis using assms(2) unfolding request_types_def process_request_def by auto
qed

text \<open>What \<open>process\<close> does after the handler: nothing of the message remains.\<close>

lemma discard_rest_run:
  assumes "buffer_inv (f_iqueue s)" "discard_rest n s = (Inr (), t)"
  shows "bytes (f_iqueue t) = [] \<and> buffer_inv (f_iqueue t) \<and> f_sent t = f_sent s"
proof -
  let ?q = "f_iqueue s"
  note len = unat_buffer_len [OF assms(1)]
  have t: "n \<ge> buffer_len ?q" "if n > n - buffer_len ?q
      then \<exists>c. buffer_consume ?q (buffer_len ?q) = Inr c \<and> t = s\<lparr>f_iqueue := c\<rparr> else t = s"
    using assms(2) by (auto simp: discard_rest_def sftp_server_cleanup_exit_def run_simps Let_def split: if_splits sum.splits)
  show ?thesis
  proof (cases "n > n - buffer_len ?q")
    case True
    then obtain c where "buffer_consume ?q (buffer_len ?q) = Inr c" "t = s\<lparr>f_iqueue := c\<rparr>" using t(2) by auto
    then show ?thesis using consume_inv [OF assms(1)] len by auto
  next
    case False
    then have "unat n \<le> unat n - unat (buffer_len ?q)"
      using t(1) by (simp add: word_less_nat_alt word_le_nat_alt unat_minus_u32)
    moreover have "unat (buffer_len ?q) \<le> unat n" using t(1) by (simp add: word_le_nat_alt)
    ultimately have "unat (buffer_len ?q) = 0" by linarith
    then show ?thesis using False t(2) len assms(1) by auto
  qed
qed

lemma serve_split:
  assumes "buffer_inv (f_iqueue s)" "bytes (f_iqueue s) = []" "serve_message W nd (type # msg) s = (Inr (), t)"
  shows "\<exists>q n u. buffer_inv q \<and> bytes q = msg \<and> process_request W nd type (s\<lparr>f_iqueue := q\<rparr>) = (Inr (), u) \<and>
    discard_rest n u = (Inr (), t)"
proof -
  obtain q0 where q0: "buffer_put_string (f_iqueue s) (type # msg) = Inr q0"
    and p: "process W nd (s\<lparr>f_iqueue := q0\<rparr>) = (Inr (), t)"
    using assms(3) by (auto simp: serve_message_def bindP_Inr setR_def split: sum.splits)
  have i0: "buffer_inv q0" "bytes q0 = put_u32 (of_nat (length (type # msg))) @ [type] @ msg"
    using put_string_Inr [OF assms(1) q0] assms(2) by (simp_all add: enc_string_def)
  obtain q1 where q1: "buffer_get_int q0 = Inr (of_nat (length (type # msg)), q1)" "buffer_inv q1" "bytes q1 = [type] @ msg"
    using wint.get_ok [OF i0(1) _ i0(2)] by blast
  obtain q2 where q2: "buffer_get_char q1 = Inr (type, q2)" "buffer_inv q2" "bytes q2 = msg"
    using wchar.get_ok [OF q1(2) _ q1(3)] by blast
  obtain u where u: "process_request W nd type (s\<lparr>f_iqueue := q2\<rparr>) = (Inr (), u)"
      "discard_rest (of_nat (length (type # msg))) u = (Inr (), t)"
    using p q1(1) q2(1) by (auto simp: process_def bindP_Inr updR_def)
  then show ?thesis using q2(2,3) by blast
qed

section \<open>Properties\<close>

text \<open>A session for the examples: the user has the home directory \<open>c:\h\<close> and opens the file \<open>b\<close> with the request id 7.\<close>

definition example_session :: "unit SFTP" where
  "example_session = example_sftp\<lparr>f_version := 0\<rparr>"

definition example_open :: "byte list" where
  "example_open = [3, 0, 0, 0, 7, 0, 0, 0, 1, 98, 0, 0, 0, 1, 0, 0, 0, 0]"

lemma example_new: "SFTP_new example_win32 True [0x43, 0x3a, 0x5c, 0x68] () = Inr example_session"
proof -
  have "SFTPFilePathFactory True (fromUTF8 example_win32 [0x43, 0x3a, 0x5c, 0x68]) = Inr example_home"
    unfolding fromUTF8_def example_win32_def example_home_def by code_simp
  then show ?thesis by (simp add: SFTP_new_def example_session_def example_sftp_def example_win32_def)
qed

lemma example_served:
  "(case serve_message example_win32 True example_open example_session of (r, t) \<Rightarrow> (r, f_sent t, f_paths t)) =
     (Inr (), [[102, 0, 0, 0, 7, 0, 0, 0, 2, 48, 0]],
      [[0x5c, 0x5c, 0x3f, 0x5c, 0x63, 0x3a, 0x5c, 0x68, 0x5c, 0x62]])"
  by code_simp

lemma example_run:
  obtains t where "serve_message example_win32 True example_open example_session = (Inr (), t)"
    "f_sent t = [[102, 0, 0, 0, 7, 0, 0, 0, 2, 48, 0]]"
    "f_paths t = [[0x5c, 0x5c, 0x3f, 0x5c, 0x63, 0x3a, 0x5c, 0x68, 0x5c, 0x62]]"
proof -
  obtain r t where "serve_message example_win32 True example_open example_session = (r, t)" by fastforce
  then show thesis using that [of t] example_served by simp
qed

text \<open>C4: Whatever messages a client sends, and however Windows answers, every path the SFTP server passes to the file
  system names something below the home directory of the user, also when a request ends in an
  exception. The table of open handles stays consistent.\<close>

theorem sftp_server_confined:
  assumes "SFTP_new W ndebug home_dir w = Inr s" "sftp_run W ndebug msgs s = (r, t)"
  shows "list_all (confined ndebug (f_home s)) (f_paths t) \<and> handles_inv t"
  using ensuresD [OF inv_run [OF inv_new(1) [OF assms(1)]] inv_new(2) [OF assms(1)] assms(2)] by (simp add: sftp_inv_def)

theorem sftp_server_confined_witness:
  "\<exists>t r. sftp_run example_win32 True [example_open] example_session = (r, t) \<and>
     f_paths t = [[0x5c, 0x5c, 0x3f, 0x5c, 0x63, 0x3a, 0x5c, 0x68, 0x5c, 0x62]] \<and>
     list_all (confined True example_home) (f_paths t)"
proof -
  obtain t where t: "serve_message example_win32 True example_open example_session = (Inr (), t)"
      "f_paths t = [[0x5c, 0x5c, 0x3f, 0x5c, 0x63, 0x3a, 0x5c, 0x68, 0x5c, 0x62]]"
    by (rule example_run)
  have "example_open \<noteq> []" by (simp add: example_open_def)
  then have r: "sftp_run example_win32 True [example_open] example_session = (Inl Blocked, t)"
    using t(1) by (simp add: bindP_def raiseP_def)
  have "f_home example_session = example_home" by (simp add: example_session_def example_sftp_def)
  then have "list_all (confined True example_home) (f_paths t)" using sftp_server_confined [OF example_new r] by simp
  then show ?thesis using t(2) r by blast
qed

text \<open>C9: A request with an id whose handler returns has been answered by exactly one message, which carries that id, and
  nothing of the request stays in the queue, so that the next request is read from its start. Windows is
  assumed to set the last error when a call fails.\<close>

theorem sftp_one_reply:
  assumes "reports_errors W" "type \<in> set request_types" "sftp_inv ndebug home s" "good_home home" "bytes (f_iqueue s) = []"
    and "serve_message W ndebug (type # put_u32 rid @ rest) s = (Inr (), t)"
  shows "(\<exists>ty body. f_sent t = f_sent s @ [ty # put_u32 rid @ body]) \<and> bytes (f_iqueue t) = [] \<and> sftp_inv ndebug home t"
proof -
  have inv: "buffer_inv (f_iqueue s)" using assms(3) by (simp add: sftp_inv_def)
  obtain q n u where q: "buffer_inv q" "bytes q = put_u32 rid @ rest"
      "process_request W ndebug type (s\<lparr>f_iqueue := q\<rparr>) = (Inr (), u)" and u: "discard_rest n u = (Inr (), t)"
    using serve_split [OF inv assms(5,6)] by blast
  have s': "sftp_inv ndebug home (s\<lparr>f_iqueue := q\<rparr>)" using assms(3) q(1) by (rule sftp_inv_queue)
  have "buffer_inv (f_iqueue u)" using ensuresD [OF inv_handlers [OF assms(4)] s' q(3)] by (simp add: sftp_inv_def)
  then have d: "bytes (f_iqueue t) = []" "f_sent t = f_sent u" using discard_rest_run [OF _ u] by auto
  have "\<exists>ms. f_sent u = f_sent (s\<lparr>f_iqueue := q\<rparr>) @ ms \<and> reply rid ms"
    by (rule answersD [OF answers_request [OF assms(1,2)] _ _ q(3)]) (simp_all add: q(1,2))
  then obtain ms where "f_sent u = f_sent s @ ms" "reply rid ms" by auto
  then have "\<exists>ty body. f_sent t = f_sent s @ [ty # put_u32 rid @ body]" using d(2) by (auto simp: reply_def)
  moreover have "sftp_inv ndebug home t" using ensuresD [OF inv_serve [OF assms(4)] assms(3,6)] by simp
  ultimately show ?thesis using d(1) by simp
qed

theorem sftp_one_reply_witness:
  "\<exists>t ty body. serve_message example_win32 True (3 # put_u32 7 @ [0, 0, 0, 1, 98, 0, 0, 0, 1, 0, 0, 0, 0]) example_session = (Inr (), t) \<and>
     f_sent t = [ty # put_u32 7 @ body]"
proof -
  have e: "example_open = 3 # put_u32 7 @ [0, 0, 0, 1, 98, 0, 0, 0, 1, 0, 0, 0, 0]"
    by (simp add: example_open_def put_u32_def)
  obtain t where t: "serve_message example_win32 True example_open example_session = (Inr (), t)"
    by (rule example_run)
  have w: "reports_errors example_win32" "(3 :: byte) \<in> set request_types" "bytes (f_iqueue example_session) = []"
    by (simp_all add: reports_errors_def example_win32_def request_types_def example_session_def example_sftp_def)
  have "f_sent example_session = []" by (simp add: example_session_def example_sftp_def)
  then show ?thesis
    using sftp_one_reply [OF w(1,2) inv_new(2,1) [OF example_new] w(3) t [unfolded e]] t [unfolded e] by auto
qed

end
