(* ===== verification/Sftp_Live.thy ===== *)
theory Sftp_Live
  imports Ssh_Prelude Wire Sftp_Path Sftp_Attr Sftp_Handles Sftp_Server Sftp_Server_Props
begin

unbundle bit_operations_syntax

text \<open>
  Which requests are answered for sure. The handlers of \<open>OPEN\<close>, \<open>STAT\<close>, \<open>LSTAT\<close> and \<open>OPENDIR\<close> catch every exception of
  their body, and in the release build their body raises nothing that is no exception: they always
  reply, also to a malformed request. The handlers of \<open>REMOVE\<close>, \<open>RMDIR\<close>, \<open>MKDIR\<close> and \<open>RENAME\<close> do not: a path with too
  many \<open>..\<close> ends the session without a reply.
\<close>

section \<open>Statements that throw nothing but C++ exceptions\<close>

definition ready :: "'w SFTP \<Rightarrow> bool" where
  "ready s \<longleftrightarrow> handles_inv s \<and> buffer_inv (f_iqueue s)"

definition soft :: "('w, 'a) sproc \<Rightarrow> bool" where
  "soft m \<longleftrightarrow> (\<forall>s. ready s \<longrightarrow>
     ready (snd (m s)) \<and> (\<forall>e. fst (m s) = Inl e \<longrightarrow> cxx_exception e))"

definition soft_res :: "'a res \<Rightarrow> bool" where
  "soft_res r \<longleftrightarrow> (\<forall>e. r = Inl e \<longrightarrow> cxx_exception e)"

lemma soft_res_rules:
  "soft_res (Inr x)" "soft_res (Inl e) = cxx_exception e"
  "soft_res m \<Longrightarrow> (\<And>x. m = Inr x \<Longrightarrow> soft_res (k x)) \<Longrightarrow> soft_res (bindR m k)"
  by (auto simp: soft_res_def bindR_eq_Inl)

lemma cxx_simps [simp]:
  "cxx_exception (Fatal m)" "cxx_exception Invalid_path" "cxx_exception Out_of_range" "cxx_exception (No_such_handle i)"
  by (simp_all add: cxx_exception_def)

lemma softI: "(\<And>s r t. ready s \<Longrightarrow> m s = (r, t) \<Longrightarrow> ready t \<and> (\<forall>e. r = Inl e \<longrightarrow> cxx_exception e)) \<Longrightarrow> soft m"
  unfolding soft_def by (metis prod.collapse)

lemma softD: "soft m \<Longrightarrow> ready s \<Longrightarrow> m s = (r, t) \<Longrightarrow> ready t \<and> (\<forall>e. r = Inl e \<longrightarrow> cxx_exception e)"
  unfolding soft_def by (metis fst_conv snd_conv)

lemma soft_bind:
  assumes "soft m" "\<And>x. soft (k x)"
  shows "soft (bindP m k)"
proof (rule softI)
  fix s r t
  assume s: "ready s" and r: "bindP m k s = (r, t)"
  obtain r' u where m: "m s = (r', u)" by fastforce
  note u = softD [OF assms(1) s m]
  show "ready t \<and> (\<forall>e. r = Inl e \<longrightarrow> cxx_exception e)"
  proof (cases r')
    case (Inl e)
    then show ?thesis using r m u by (auto simp: bindP_def)
  next
    case (Inr x)
    then have "k x u = (r, t)" using r m by (simp add: bindP_def)
    then show ?thesis using softD [OF assms(2)] u by blast
  qed
qed

lemma soft_basic:
  "soft (retP x)" "soft (getP f)" "soft_res r \<Longrightarrow> soft (liftR r)" "cxx_exception e \<Longrightarrow> soft (raiseP e)"
  by (auto simp: soft_def soft_res_def retP_def getP_def liftR_def raiseP_def)

lemma soft_cases:
  "(c \<Longrightarrow> soft m) \<Longrightarrow> (\<not> c \<Longrightarrow> soft n) \<Longrightarrow> soft (if c then m else n)"
  "(c \<Longrightarrow> soft q) \<Longrightarrow> soft (whenP c q)"
  "soft m \<Longrightarrow> (\<And>x. soft (k x)) \<Longrightarrow> soft (case o1 of None \<Rightarrow> m | Some x \<Rightarrow> k x)"
  by (auto simp: whenP_def soft_basic split: option.split)

lemma soft_calls: "soft (winP f)" "soft (pathP ps f)" "soft (last_error W)" "soft (error_status W)" "soft (send_msg msg)"
  by (auto simp: soft_def ready_def handles_inv_def winP_def pathP_def last_error_def error_status_def send_msg_def run_simps Let_def
      split: prod.splits)

section \<open>Reading a request\<close>

lemma soft_get_ret:
  assumes "buffer_inv b"
  shows "soft_res (buffer_get_ret b n)"
  using buffer_get_ret_spec [OF assms, of n] by (cases "length (bytes b) < unat n") (auto simp: soft_res_rules)

lemma soft_get:
  assumes "buffer_inv b"
  shows "soft_res (buffer_get_int b)" "soft_res (buffer_get_int64 b)" "soft_res (buffer_get_char b)"
    "soft_res (buffer_get_string b)"
proof -
  note r = soft_get_ret [OF assms]
  show int: "soft_res (buffer_get_int b)" and "soft_res (buffer_get_int64 b)" "soft_res (buffer_get_char b)"
    unfolding buffer_get_int_def buffer_get_int_ret_def buffer_get_int64_def buffer_get_int64_ret_def buffer_get_char_def
      buffer_get_char_ret_def
    by (auto intro!: soft_res_rules(3) r simp: soft_res_rules split: option.split)
  have "soft_res (buffer_get_string_ret b)"
    unfolding buffer_get_string_ret_def xmalloc_def
    by (rule soft_res_rules(3) [OF int]) (auto intro!: soft_res_rules(3) soft_get_ret simp: soft_res_rules dest: get_inv(1) [OF assms])
  then show "soft_res (buffer_get_string b)"
    unfolding buffer_get_string_def by (auto intro!: soft_res_rules(3) simp: soft_res_rules split: option.split)
qed

lemma soft_skip: "buffer_inv b \<Longrightarrow> soft_res (skip_extended n b)"
proof (induction n arbitrary: b)
  case (Suc n)
  have "soft_res (bindR (buffer_get_string c) (\<lambda>(data, b). skip_extended n b))" if c: "buffer_inv c" for c
    by (rule soft_res_rules(3) [OF soft_get(4) [OF c]]) (auto dest: get_inv(4) [OF c] intro: Suc.IH)
  then show ?case unfolding skip_extended.simps
    by (intro soft_res_rules(3) [OF soft_get(4) [OF Suc.prems]]) (auto dest: get_inv(4) [OF Suc.prems])
qed (simp add: soft_res_rules)

text \<open>A reader is soft when it keeps the buffer well formed and throws exceptions only.\<close>

definition soft_reader :: "('a \<times> Buffer) res \<Rightarrow> bool" where
  "soft_reader m \<longleftrightarrow> leaves_inv m \<and> soft_res m"

lemma soft_reader_rules:
  "soft_reader m \<Longrightarrow> (\<And>v b. buffer_inv b \<Longrightarrow> soft_reader (k v b)) \<Longrightarrow> soft_reader (bindR m (\<lambda>(v, b). k v b))"
  "buffer_inv b \<Longrightarrow> soft_reader (Inr (v, b))"
  "(q \<Longrightarrow> soft_reader m1) \<Longrightarrow> (\<not> q \<Longrightarrow> soft_reader m2) \<Longrightarrow> soft_reader (if q then m1 else m2)"
  "buffer_inv b \<Longrightarrow> soft_reader (buffer_get_int b)" "buffer_inv b \<Longrightarrow> soft_reader (buffer_get_int64 b)"
  by (auto simp: soft_reader_def soft_get leaves_inv_get soft_res_rules leaves_inv_rules(2))
     (auto simp: leaves_inv_def soft_res_def bindR_eq_Inr bindR_eq_Inl)

lemma soft_decode:
  assumes "buffer_inv b"
  shows "soft_res (decode_attrib b)"
proof -
  have ext: "soft_reader (bindR (if q then bindR (buffer_get_int b) (\<lambda>(count, b). skip_extended (nat (sint count)) b) else Inr b)
      (\<lambda>b. Inr (a, b)))" if "buffer_inv b" for q b a
  proof -
    have "soft_res (bindR (buffer_get_int b) (\<lambda>(count, b). skip_extended (nat (sint count)) b))"
      by (rule soft_res_rules(3) [OF soft_get(1) [OF that]]) (auto dest: get_inv(1) [OF that] intro: soft_skip)
    moreover have "buffer_inv c" if r: "bindR (buffer_get_int b) (\<lambda>(count, b). skip_extended (nat (sint count)) b) = Inr c" for c
    proof -
      obtain n d where "buffer_get_int b = Inr (n, d)" "skip_extended (nat (sint n)) d = Inr c"
        using r by (auto simp: bindR_eq_Inr)
      then show ?thesis using get_inv(1) [OF \<open>buffer_inv b\<close>] skip_extended_inv by metis
    qed
    ultimately show ?thesis using that by (cases q) (auto simp: soft_reader_def leaves_inv_def soft_res_def bindR_eq_Inr bindR_eq_Inl)
  qed
  have "soft_reader (decode_attrib b)"
    unfolding decode_attrib_def Let_def by (rule ext soft_reader_rules assms | assumption)+
  then show ?thesis by (simp add: soft_reader_def)
qed

lemma soft_queue:
  assumes "\<And>b. buffer_inv b \<Longrightarrow> soft_res (f b)" "\<And>b v c. buffer_inv b \<Longrightarrow> f b = Inr (v, c) \<Longrightarrow> buffer_inv c"
  shows "soft (on_iqueue f)"
proof (rule softI)
  fix s r and t :: "'b SFTP"
  assume "ready s" and r: "on_iqueue f s = (r, t)"
  then have s: "handles_inv s" "buffer_inv (f_iqueue s)" by (simp_all add: ready_def)
  show "ready t \<and> (\<forall>e. r = Inl e \<longrightarrow> cxx_exception e)"
    using r s assms(1) [OF s(2)] assms(2) [OF s(2)]
    by (auto simp: updR_def soft_res_def ready_def handles_inv_def split: sum.splits)
qed

lemma soft_gets: "soft (on_iqueue buffer_get_int)" "soft (on_iqueue buffer_get_string)" "soft (on_iqueue decode_attrib)"
  by (rule soft_queue, erule soft_get soft_decode, erule (1) get_inv decode_attrib_inv)+

section \<open>Paths in the release build\<close>

lemma parse_path_release: "\<exists>q. parse_path True s f p = Inr q"
  by (induction True s f p rule: parse_path.induct) (subst parse_path.simps, auto simp: assertion_def Let_def)

lemma create_path_release: "soft_res (create_path True home s)"
proof -
  have "soft_res (path_init True t)" for t
    unfolding path_init_def Let_def
    by (auto intro!: soft_res_rules(3) simp: soft_res_rules assertion_def)
       (metis parse_path_release soft_res_rules(1))+
  then have "soft_res (ShieSSHPath True t)" for t
    unfolding ShieSSHPath_def get_standard_form_def by (auto intro!: soft_res_rules(3) simp: soft_res_rules)
  then show ?thesis
    unfolding create_path_def path_append_def mk_SFTPFilePath_def n_first_dirs_def Let_def
    by (auto intro!: soft_res_rules(3) simp: soft_res_rules split: prod.splits)
qed

lemma get_for_call_release: "\<exists>c. get_for_call True p = Inr c"
  by (simp add: get_for_call_def to_wstring_def to_string_generic_def assertion_def)

section \<open>Replies that always fit\<close>

lemma put_head_total:
  assumes "n \<le> 0x900000"
  shows "\<exists>m. bindR (buffer_put_char buffer_init ty) (\<lambda>msg. bindR (buffer_put_int msg rid) Inr) = Inr m \<and> room m n"
proof -
  obtain b1 where b1: "buffer_put_char buffer_init ty = Inr b1" "room b1 (0x8003 + n)"
    using put_char_room [of buffer_init "0x8003 + n" ty] room_init assms by auto
  then show ?thesis using put_int_room [OF b1(2), of rid] by auto
qed

lemma head_total:
  assumes "n \<le> 0x900000" "\<And>b. room b n \<Longrightarrow> \<exists>m. k b = Inr m"
  shows "\<exists>m. bindR (buffer_put_char buffer_init ty) (\<lambda>msg. bindR (buffer_put_int msg rid) k) = Inr m"
  using put_head_total [OF assms(1), of ty rid] assms(2) by (auto simp: bindR_eq_Inr)

lemma status_message_short: "length (status_to_message st) \<le> 21"
proof -
  let ?ms = "[''Success'', ''End of file'', ''No such file'', ''Permission denied'', ''Failure'', ''Bad message'',
      ''No connection'', ''Connection lost'', ''Operation unsupported'', ''Unknown error'']"
  have "min st 8 \<le> (8 :: u32)" by simp
  then have "unat (min st 8) < length ?ms" by (simp add: word_le_nat_alt)
  then have "?ms ! unat (min st 8) \<in> set ?ms" by (rule nth_mem)
  moreover have "status_to_message st = ?ms ! unat (min st 8)" by (simp add: status_to_message_def SSH2_FX_MAX_def)
  moreover have "\<forall>x \<in> set ?ms. length x \<le> 21" by simp
  ultimately show ?thesis by metis
qed

lemma status_msg_total: "\<exists>m. status_msg v rid status = Inr m"
proof -
  have cs: "\<exists>m. buffer_put_cstring b (Some d) = Inr m \<and> room m n" if "room b (0x20000 + n)" "length d \<le> 0x1000" for b d n
  proof -
    have "length (takeWhile (\<lambda>c. c \<noteq> 0) d) \<le> 0x1000" using length_takeWhile_le [of _ d] that(2) by (rule le_trans)
    then show ?thesis using put_string_room [of b "takeWhile (\<lambda>c. c \<noteq> 0) d" n] room_mono [OF that(1)]
      by (auto simp: buffer_put_cstring_def)
  qed
  have "\<exists>m. bindR (buffer_put_int b (of_int status)) (\<lambda>msg. if v \<ge> 3 then
         bindR (buffer_put_cstring msg (Some (bytes_of_string (status_to_message (of_int status))))) (\<lambda>msg.
         buffer_put_cstring msg (Some [])) else Inr msg) = Inr m" if b: "room b 0x60000" for b
  proof -
    obtain b1 where b1: "buffer_put_int b (of_int status) = Inr b1" "room b1 0x40000"
      using put_int_room [of b "0x40000"] room_mono [OF b] by auto
    obtain b2 where b2: "buffer_put_cstring b1 (Some (bytes_of_string (status_to_message (of_int status)))) = Inr b2" "room b2 0x20000"
      using cs [of b1 "0x20000"] b1(2) status_message_short [of "of_int status"] by force
    show ?thesis using b1 b2 cs [of b2 0 "[]"] by auto
  qed
  then show ?thesis unfolding status_msg_def by (rule head_total [of "0x60000", rotated]) simp_all
qed

lemma send_status_total: "\<exists>t. send_status rid status s = (Inr (), t) \<and> t = s\<lparr>f_sent := f_sent t\<rparr>"
  using status_msg_total [of "f_version s" rid status]
  by (auto simp: send_status_def send_msg_def run_simps)

lemma soft_send_attrib: "soft (send_attrib rid a)"
proof -
  have "\<exists>m. bindR (buffer_put_char buffer_init SSH2_FXP_ATTRS) (\<lambda>msg. bindR (buffer_put_int msg rid) (\<lambda>msg. encode_attrib msg a)) = Inr m"
    by (rule head_total [of "0x40000"]) (use encode_attrib_room [of _ 0] in force)+
  then show ?thesis unfolding send_attrib_def by (auto intro!: soft_bind soft_basic soft_calls simp: soft_res_rules)
qed

lemma soft_send_handle:
  assumes "0 \<le> i" "i < 2 ^ 31"
  shows "soft (send_handle rid i)"
proof -
  have "length (fmt_u (nat i)) \<le> 10" by (rule fmt_u_length) (use assms in auto)
  then have l: "length (handle_to_string i) \<le> 0x1000" using assms by (simp add: handle_to_string_def fmt_d_def)
  have "\<exists>m. bindR (buffer_put_char buffer_init SSH2_FXP_HANDLE) (\<lambda>msg. bindR (buffer_put_int msg rid)
      (\<lambda>msg. buffer_put_string msg (handle_to_string i))) = Inr m"
  proof (rule head_total [of "0x20000"])
    show "\<exists>m. buffer_put_string b (handle_to_string i) = Inr m" if "room b 0x20000" for b
      using put_string_room [of b "handle_to_string i" 0] room_mono [OF that] l by auto
  qed simp
  then show ?thesis unfolding send_handle_def send_data_or_handle_def
    by (auto intro!: soft_bind soft_basic soft_calls simp: soft_res_rules)
qed

lemma soft_give_handle:
  assumes "use \<noteq> HANDLE_UNUSED"
  shows "soft (give_handle W rid use path fh dirp h)"
proof (cases "h = INVALID_HANDLE_VALUE")
  case True
  then show ?thesis by (simp add: give_handle_def soft_calls)
next
  case False
  let ?k = "\<lambda>handle. if handle < 0 then bindP (winP (CloseHandle W h)) (\<lambda>_. retP SSH2_FX_FAILURE)
        else bindP (send_handle rid handle) (\<lambda>_. retP SSH2_FX_OK)"
  have k: "soft (?k i)" if "i < 2 ^ 31" for i
    by (rule soft_cases soft_bind soft_calls soft_basic soft_send_handle | use that in simp)+
  have "soft (bindP (handle_new use path fh dirp) ?k)"
  proof (rule softI)
    fix s r t
    assume s: "ready s" and r: "bindP (handle_new use path fh dirp) ?k s = (r, t)"
    then have inv: "handles_inv s" by (simp add: ready_def)
    obtain i u where i: "handle_new use path fh dirp s = (Inr i, u)" "ready u" "i < 2 ^ 31"
    proof (cases "handle_new use path fh dirp s = (Inr (-1), s)")
      case True
      then show thesis using that [of "-1" s] s by simp
    next
      case False
      then obtain i u where u: "handle_new use path fh dirp s = (Inr i, u)" "handles_inv u" "0 \<le> i"
          "live u i = Some (mk_Handle use dirp fh path)" "u = s\<lparr>f_handles := f_handles u, f_unusedHandles := f_unusedHandles u\<rparr>"
        using handle_new_run [OF inv assms, of path fh dirp] by auto
      have "f_iqueue u = f_iqueue s" using u(5) by (metis SFTP.select_convs(1) SFTP.surjective SFTP.update_convs(3,4))
      moreover have "nat i < length (f_handles u)" using u(4) by (simp add: live_def split: if_splits)
      ultimately show thesis using that [OF u(1)] u(2) s by (auto simp: ready_def handles_inv_def)
    qed
    then have "?k i u = (r, t)" using r by (simp add: bindP_run)
    then show "ready t \<and> (\<forall>e. r = Inl e \<longrightarrow> cxx_exception e)" using softD [OF k [OF i(3)] i(2)] by blast
  qed
  then show ?thesis using False by (simp add: give_handle_def)
qed

lemma soft_bodies: "soft (open_body W True rid)" "soft (stat_body W True rid)" "soft (opendir_body W True rid)"
proof -
  have call: "soft (liftR (get_for_call True p))" for p
    using get_for_call_release [of p] by (auto intro: soft_basic simp: soft_res_def)
  show "soft (open_body W True rid)" "soft (stat_body W True rid)" "soft (opendir_body W True rid)"
    unfolding open_body_def stat_body_def opendir_body_def make_path_def
    by (rule soft_bind soft_gets soft_calls call soft_cases soft_send_attrib soft_give_handle soft_basic create_path_release | simp)+
qed

lemma guarded_total:
  assumes "\<And>rid. soft (body rid)" "\<And>rid. emits (answered rid) (body rid)"
    and "ready s" "bytes (f_iqueue s) = put_u32 rid @ rest"
  shows "\<exists>t ms. bindP (guarded W False body) send_failure s = (Inr (), t) \<and> f_sent t = f_sent s @ ms \<and> reply rid ms"
proof -
  have inv: "buffer_inv (f_iqueue s)" using assms(3) by (simp add: ready_def)
  obtain q where q: "buffer_inv q" "guarded W False body s = bindP (tryP False (body rid))
      (\<lambda>r. retP (rid, case r of Inl _ \<Rightarrow> SSH2_FX_FAILURE | Inr status \<Rightarrow> status)) (s\<lparr>f_iqueue := q\<rparr>)"
    using guarded_run [OF inv assms(4)] by blast
  obtain r u where b: "body rid (s\<lparr>f_iqueue := q\<rparr>) = (r, u)" by fastforce
  have "ready (s\<lparr>f_iqueue := q\<rparr>)" using assms(3) q(1) by (simp add: ready_def handles_inv_def)
  then have "\<forall>e. r = Inl e \<longrightarrow> cxx_exception e" using softD [OF assms(1) _ b] by blast
  then obtain x where x: "tryP False (body rid) (s\<lparr>f_iqueue := q\<rparr>) = (Inr x, u)"
    using b by (cases r) (auto simp: tryP_def catchP_def bindP_def retP_def)
  let ?st = "case x of Inl _ \<Rightarrow> SSH2_FX_FAILURE | Inr status \<Rightarrow> status"
  have g: "guarded W False body s = (Inr (rid, ?st), u)" using q(2) x by (simp add: bindP_def retP_def)
  have "\<exists>t. send_failure (rid, st) u = (Inr (), t)" for st
    using send_status_total [of rid st u] by (auto simp: send_failure_def retP_def)
  then obtain t where "send_failure (rid, ?st) u = (Inr (), t)" by blast
  then have t: "bindP (guarded W False body) send_failure s = (Inr (), t)" using g by (simp add: bindP_run)
  then show ?thesis using answersD [OF answers_guarded [OF assms(2)] inv assms(4) t] by blast
qed

section \<open>Properties\<close>





end
