(* ===== verification/Spec2Isabelle.thy ===== *)
theory Spec2Isabelle
  imports Ssh_Prelude Buf Wire Bignum Match Algs Kex Sftp_Path Crypt Aes_Ctr Packet Packet_Props Packet_Rekey
    Packet_Safe Packet_Frame Packet_Out Text_Codec Keys Kex_Server Kex_Install Kex_Server_Props Ident Auth Auth_Props
    Conn Thread_Buf Sftp_Attr Sftp_Handles Sftp_Server Sftp_Server_Props Sftp_Live
begin

text \<open>
  ShieSH is an SSH 2 server for Windows, ported from OpenSSH. A connection is a thread that runs
  \<open>CoreConnection::run\<close>: it exchanges version strings with the client, exchanges keys, authenticates the user and then
  serves channels. A subsystem such as SFTP is a thread of its own that gets the data of its channel through a buffer
  between threads. This library models these parts and proves what they promise each other. All sources are under
  \<open>src/shiesh\<close> unless a directory is named.

  \<^bold>\<open>Conventions.\<close> \<open>Ssh_Prelude\<close> has the types of the model: machine integers are words of their width, \<open>'a res\<close> is an
  error (\<open>exn\<close>: \<open>fatal\<close>, \<open>cleanup_exit\<close>, a C++ exception, an access outside a memory block, a failed assertion)
  or a value, and \<open>('s, 'a) proc\<close> is a procedure on a state that keeps its changes when it throws. It also has three
  calculi: \<open>moves\<close> and \<open>keeps\<close> for what a procedure does to a view of the state, \<open>ensures\<close> for invariants that survive
  exceptions, and \<open>hoare\<close> for what holds when a procedure returns.

  \<^bold>\<open>Data.\<close>
  \<^item> \<open>Buf\<close>: \<open>buffer.cpp\<close>, on a memory block with \<open>offset\<close> and \<open>end\<close>. A buffer refines a queue of bytes (the locale
    \<open>byte_queue\<close>), and \<open>buffer_check_alloc\<close> foresees exactly the appends that fail.
  \<^item> \<open>Wire\<close>: \<open>bufaux.cpp\<close>, the typed values of the protocol. The locales \<open>wire_type\<close> and \<open>codec\<close> say that what is put is
    got back; each type is an interpretation.
  \<^item> \<open>Bignum\<close>: \<open>bufbn.cpp\<close>, on the BIGNUM functions of OpenSSL as the locale \<open>openssl_bn\<close> describes them.
  \<^item> \<open>Text_Codec\<close>: \<open>base64.cpp\<close>, \<open>uuencode.cpp\<close>, \<open>strtoll.cpp\<close>, \<open>strtonum.cpp\<close>, with their round trips.
  \<^item> \<open>Match\<close>: \<open>match.cpp\<close>, pattern matching against a declarative reading of patterns, and lists of names.
  \<^item> \<open>Keys\<close>: \<open>key.cpp\<close>, \<open>ssh-rsa.cpp\<close>, \<open>ssh-dss.cpp\<close>: blobs and text of keys both ways, fingerprints, and that an RSA
    signature is accepted only if it decrypts to the exact encoding of the hash.

  \<^bold>\<open>Transport.\<close>
  \<^item> \<open>Algs\<close>, \<open>Kex\<close>: the tables of algorithms, negotiation, exchange hashes and key derivation of \<open>CoreConnection.cpp\<close>,
    \<open>cipher.cpp\<close>, \<open>mac.cpp\<close>, \<open>compat.cpp\<close>, \<open>kexdh.cpp\<close>, \<open>kexgex.cpp\<close>, \<open>dh.cpp\<close>. Both sides of an exchange choose the same
    algorithms and crossed keys; derived keys are those of RFC 4253.
  \<^item> \<open>Crypt\<close>, \<open>Aes_Ctr\<close>: cipher contexts and MACs on a parameter for OpenSSL, with the locale \<open>evp_sync\<close> for two contexts in
    step; \<open>cipher-ctr.cpp\<close> is counter mode.
  \<^item> \<open>Packet\<close>: the packet layer of \<open>CoreConnection.cpp\<close>. \<open>Packet_Props\<close> shows that what one side sends the other reads,
    \<open>Packet_Safe\<close> that reading ends and that a packet is accepted only with its MAC, \<open>Packet_Rekey\<close> that nothing but transport
    packets goes out during an exchange and that the held packets follow it. \<open>Packet_Frame\<close>, \<open>Kex_Install\<close> and \<open>Packet_Out\<close>
    say which part of the state each operation can change.
  \<^item> \<open>Kex_Server\<close>: the exchanges of the server, from KEXINIT to NEWKEYS, and the loop of \<open>Dispatcher.cpp\<close>.
    \<open>Kex_Server_Props\<close> shows that an exchange that returns has installed its own keys in both directions, and that the session
    identifier is the hash of the first.

  \<^bold>\<open>Connection.\<close>
  \<^item> \<open>Ident\<close>: the version strings (\<open>sshd.cpp\<close>, \<open>atomicio.cpp\<close>, \<open>Concurrenc++/RInOutSocket.cpp\<close>).
  \<^item> \<open>Auth\<close>: \<open>auth2.cpp\<close>, \<open>auth2-none.cpp\<close>, \<open>auth2-passwd.cpp\<close>, \<open>auth-passwd.cpp\<close>, \<open>User.cpp\<close>, \<open>AuthDispatcher.cpp\<close>; the answers
    of the database are a parameter. \<open>Auth_Props\<close> shows that authentication is sound and that passwords are limited.
  \<^item> \<open>Conn\<close>: \<open>CoreConnection::run\<close> up to the session, and what the client has proved by then.
  \<^item> \<open>Thread_Buf\<close>: \<open>Concurrenc++/BusyThreadReadBuffer.h\<close> and \<open>BusyThreadWriteBuffer.h\<close>. Calls that do not overlap make a queue
    (the locale \<open>msg_queue\<close>). Under every interleaving no message is lost and no wake-up is missed, but messages can
    change their order.

  \<^bold>\<open>SFTP.\<close> \<open>Sftp_Path\<close> has the path classes of \<open>sftp.h\<close> and \<open>sftp-server.cpp\<close>, \<open>Sftp_Attr\<close> file attributes
  (\<open>sftp-common.cpp\<close>, \<open>strmode.cpp\<close>), \<open>Sftp_Handles\<close> the table of open files (the locale \<open>handle_store\<close>), and \<open>Sftp_Server\<close>
  every request handler. Every path the server gives to Windows stays below the home directory, every request that is
  served gets one reply, and \<open>Sftp_Live\<close> says which requests are sure to be.

  \<^bold>\<open>Bounds.\<close> Loops over input have a counter of rounds and end in \<open>Diverge\<close> when it runs out. \<open>packet_read_poll_seqnr\<close> gets two
  more than the bytes of input, and each round uses at least one: it is proved that this is enough. \<open>packet_read_seqnr\<close>
  gets one round for each result of \<open>recv\<close> the environment supplies. \<open>dh_gen_key\<close> has its limit of tries in the source.
  \<open>dispatch_run\<close> handles at most \<open>n\<close> packets; what is proved of it holds for every \<open>n\<close>. Statements with \<open>hoare\<close> say
  what holds when a procedure returns; a client that stays silent keeps the server waiting, in the source as in the model.

  \<^bold>\<open>Not modelled.\<close> Channels and \<open>server_loop\<close> (\<open>Channel.cpp\<close>, \<open>SessionChannel.cpp\<close>, \<open>serverloop.cpp\<close>): they are driven by
  Windows events and by objects other threads own; the buffers they use and the key exchange they start are modelled.
  The shell, terminals and the start of subsystems run processes of Windows. \<open>umac.cpp\<close>, \<open>sha2.cpp\<close> and the legacy ciphers are
  primitives and stand behind the parameters for OpenSSL. Address matching (\<open>addrmatch.cpp\<close>) has callers only in disabled
  code. Logging is left out everywhere, failure of \<open>malloc\<close> too. OpenSSL, zlib, soci, apr and log4cxx are not part of the
  program.
\<close>

end
